(* ===== verification/Py_Base.thy ===== *)
theory Py_Base
  imports Complex_Main "HOL-Library.Word" "HOL-Library.Sublist"
begin

text \<open>
  Prelude of the development: what the host code uses of Python itself.

  \<^item> \<open>exn\<close>: the exceptions the host code raises, as values of \<open>exn + 'a\<close> (\<open>Inl\<close> the exception).
    The exception classes of the repository that carry a message carry a constructor naming the
    message here; \<open>StructError\<close>, \<open>IndexError\<close>, \<open>KeyError\<close>, \<open>ValueError\<close> are Python's own.
  \<^item> \<open>bytes\<close>: Python's \<open>bytes\<close> and \<open>bytearray\<close>, lists of 8-bit words.
  \<^item> the \<open>struct\<close> module for the little-endian formats the code uses (\<open><\<close> with \<open>B H I i\<close>): \<open>struct_pack\<close>
    raises on a value out of range, \<open>struct_unpack\<close> on a buffer of another length.
  \<^item> slices, \<open>bytes.find\<close> and slice assignment.

  The locale \<open>field_codec\<close> is the contract of one format character; it is interpreted for each of
  them, and the round trip of whole formats rests on those interpretations.
\<close>

named_theorems codec_simps "encoding and decoding of struct fields"

unbundle bit_operations_syntax

type_synonym byte = "8 word"
type_synonym bytes = "byte list"

lemma word_xor_cancel [simp]:
  fixes x y z :: "'a::len word"
  shows "x XOR z = y XOR z \<longleftrightarrow> x = y" "z XOR x = z XOR y \<longleftrightarrow> x = y"
  by (auto simp: bit_eq_iff bit_simps)

section \<open>Exceptions as values\<close>

datatype perr =
    TimedOut
  | UnexpectedResponse int int
  | SequenceRequired
  | TooManyEventCodes
  | PmuBlockShort
  | LengthMismatch int int
  | ShorterThanHeader
  | TooShortForHeader
  | BadMagic int
  | BadAbiVersion int
  | BadHeaderWords int
  | BelowMinimum int
  | ExceedsCap int
  | DeclaredMismatch int int
  | CrcMismatch

datatype serr =
    DuplicateAck
  | CompleteBeforeAck
  | DuplicateComplete
  | ResultBeforeAck int
  | NoAck
  | NoComplete

datatype exn =
    StructError
  | IndexError
  | SerialError
  | KeyError
  | TypeError
  | AttributeError
  | ZeroDivisionError
  | StatisticsError
  | ValueError string
  | SystemExit string
  | ProtocolError perr
  | RunSequenceError serr
  | Nack int int int
  | Refusal string

text \<open>\<open>RunSequenceError\<close> is a subclass of \<open>ProtocolError\<close>: an \<open>except ProtocolError\<close> catches both.\<close>

definition is_protocol_error :: "exn \<Rightarrow> bool" where
  "is_protocol_error e = (case e of ProtocolError _ \<Rightarrow> True | RunSequenceError _ \<Rightarrow> True | _ \<Rightarrow> False)"

definition bind_res :: "'e + 'a \<Rightarrow> ('a \<Rightarrow> 'e + 'b) \<Rightarrow> 'e + 'b" where
  "bind_res r f = (case r of Inl e \<Rightarrow> Inl e | Inr x \<Rightarrow> f x)"

lemma bind_res_simps [simp]:
  "bind_res (Inl e) f = Inl e"
  "bind_res (Inr x) f = f x"
  by (simp_all add: bind_res_def)

lemma bind_res_eq_Inr [simp]: "bind_res r f = Inr y \<longleftrightarrow> (\<exists>x. r = Inr x \<and> f x = Inr y)"
  by (cases r) auto

lemma bind_res_eq_Inl: "bind_res r f = Inl e \<longleftrightarrow> r = Inl e \<or> (\<exists>x. r = Inr x \<and> f x = Inl e)"
  by (cases r) auto

section \<open>Python sequences\<close>

text \<open>\<open>xs[a:b]\<close> for \<open>0 \<le> a, b\<close>: out-of-range bounds are clipped, never an error.\<close>

definition py_slice :: "nat \<Rightarrow> nat \<Rightarrow> 'a list \<Rightarrow> 'a list" where
  "py_slice a b xs = take (b - a) (drop a xs)"

text \<open>\<open>xs[i]\<close> for \<open>0 \<le> i\<close>.\<close>

definition index :: "'a list \<Rightarrow> nat \<Rightarrow> exn + 'a" where
  "index xs i = (if i < length xs then Inr (xs ! i) else Inl IndexError)"

text \<open>\<open>xs[off:off + len(b)] = b\<close> on a bytearray (\<open>0 \<le> off\<close>).\<close>

definition splice :: "'a list \<Rightarrow> nat \<Rightarrow> 'a list \<Rightarrow> 'a list" where
  "splice xs off b = take off xs @ b @ drop (off + length b) xs"

text \<open>\<open>xs.find(p)\<close>: the first offset at which \<open>p\<close> occurs.\<close>

fun find_sub :: "'a list \<Rightarrow> 'a list \<Rightarrow> nat option" where
  "find_sub p [] = (if p = [] then Some 0 else None)"
| "find_sub p (x # xs) = (if prefix p (x # xs) then Some 0 else map_option Suc (find_sub p xs))"

lemma length_py_slice [simp]: "length (py_slice a b xs) = min (b - a) (length xs - a)"
  by (simp add: py_slice_def)

lemma length_splice [simp]: "off + length b \<le> length xs \<Longrightarrow> length (splice xs off b) = length xs"
  by (simp add: splice_def)

lemma py_slice_append1: "b \<le> length xs \<Longrightarrow> py_slice a b (xs @ ys) = py_slice a b xs"
  by (auto simp: py_slice_def)

lemma py_slice_append2: "length xs \<le> a \<Longrightarrow> py_slice a b (xs @ ys) = py_slice (a - length xs) (b - length xs) ys"
  by (auto simp: py_slice_def)

lemma py_slice_nth: "i < b - a \<Longrightarrow> a + i < length xs \<Longrightarrow> py_slice a b xs ! i = xs ! (a + i)"
  by (simp add: py_slice_def)

lemma find_sub_Some:
  "find_sub p xs = Some i \<Longrightarrow> i \<le> length xs \<and> prefix p (drop i xs) \<and> (\<forall>j<i. \<not> prefix p (drop j xs))"
proof (induction p xs arbitrary: i rule: find_sub.induct)
  case (1 p)
  then show ?case by (auto split: if_splits)
next
  case (2 p x xs)
  show ?case
  proof (cases "prefix p (x # xs)")
    case True
    with "2.prems" show ?thesis by auto
  next
    case False
    with "2.prems" obtain k where k: "find_sub p xs = Some k" "i = Suc k" by auto
    with "2.IH" False show ?thesis
      by (auto simp: drop_Cons split: nat.splits)
  qed
qed

lemma find_sub_None: "find_sub p xs = None \<Longrightarrow> \<not> prefix p (drop j xs)"
proof (induction p xs arbitrary: j rule: find_sub.induct)
  case (1 p)
  then show ?case by (auto split: if_splits)
next
  case (2 p x xs)
  then show ?case by (cases j) (auto split: if_splits)
qed

lemma find_sub_intro:
  assumes "prefix p (drop i xs)" "\<And>j. j < i \<Longrightarrow> \<not> prefix p (drop j xs)" "i \<le> length xs"
  shows "find_sub p xs = Some i"
proof (cases "find_sub p xs")
  case None
  with find_sub_None [OF None, of i] assms(1) show ?thesis by simp
next
  case (Some k)
  from find_sub_Some [OF Some] assms show ?thesis
    using Some linorder_neqE_nat by metis
qed

section \<open>The struct module\<close>

text \<open>\<open>le_bytes n x\<close>: the \<open>n\<close> low bytes of \<open>x\<close>, least significant first; \<open>le_int\<close> reads them back.\<close>

primrec le_bytes :: "nat \<Rightarrow> int \<Rightarrow> bytes" where
  "le_bytes 0 x = []"
| "le_bytes (Suc n) x = word_of_int x # le_bytes n (x div 256)"

fun le_int :: "bytes \<Rightarrow> int" where
  "le_int [] = 0"
| "le_int (b # bs) = uint b + 256 * le_int bs"

lemma length_le_bytes [simp]: "length (le_bytes n x) = n"
  by (induction n arbitrary: x) simp_all

lemma uint_byte_bounds [simp]: "0 \<le> uint (b :: byte)" "uint b < 256"
  using uint_bounded [of b] by simp_all

lemma le_int_nonneg [simp]: "0 \<le> le_int bs"
  by (induction bs) auto

lemma le_int_bound: "le_int bs < 256 ^ length bs"
proof (induction bs)
  case Nil
  then show ?case by simp
next
  case (Cons b bs)
  have "uint b < 256" by (rule uint_byte_bounds)
  moreover from Cons have "256 * le_int bs + 256 \<le> 256 * 256 ^ length bs" by simp
  ultimately have "uint b + 256 * le_int bs < 256 * 256 ^ length bs" by linarith
  then show ?case by simp
qed

lemma le_int_le_bytes [codec_simps]: "0 \<le> x \<Longrightarrow> x < 256 ^ n \<Longrightarrow> le_int (le_bytes n x) = x"
proof (induction n arbitrary: x)
  case 0
  then show ?case by simp
next
  case (Suc n)
  have "x div 256 < 256 ^ n" using Suc.prems by (simp add: div_less_iff_less_mult)
  moreover have "0 \<le> x div 256" using Suc.prems by simp
  ultimately have "le_int (le_bytes n (x div 256)) = x div 256" using Suc.IH by simp
  then show ?case by (simp add: unsigned_of_int take_bit_eq_mod)
qed

lemma le_bytes_le_int [codec_simps]: "le_bytes (length bs) (le_int bs) = bs"
proof (induction bs)
  case Nil
  then show ?case by simp
next
  case (Cons b bs)
  have "(uint b + 256 * le_int bs) div 256 = le_int bs"
    using uint_byte_bounds [of b] by (simp add: div_add1_eq)
  moreover have "(word_of_int (uint b + 256 * le_int bs) :: byte) = b"
  proof (rule word_uint_eqI)
    have "(uint b + 256 * le_int bs) mod 256 = uint b"
      using uint_byte_bounds [of b] by simp
    then show "uint (word_of_int (uint b + 256 * le_int bs) :: byte) = uint b"
      by (simp add: unsigned_of_int take_bit_eq_mod del: of_int_add of_int_mult)
  qed
  ultimately show ?case using Cons by simp
qed

lemma le_int_inject: "length a = length b \<Longrightarrow> le_int a = le_int b \<Longrightarrow> a = b"
  by (metis le_bytes_le_int)

text \<open>The format characters: \<open>B\<close>, \<open>H\<close>, \<open>I\<close> unsigned of 1, 2, 4 bytes, \<open>i\<close> signed of 4 bytes.\<close>

datatype fmt = FB | FH | FI | Fi

fun fmt_width :: "fmt \<Rightarrow> nat" where
  "fmt_width FB = 1"
| "fmt_width FH = 2"
| "fmt_width FI = 4"
| "fmt_width Fi = 4"

fun fmt_ok :: "fmt \<Rightarrow> int \<Rightarrow> bool" where
  "fmt_ok FB x = (0 \<le> x \<and> x < 2 ^ 8)"
| "fmt_ok FH x = (0 \<le> x \<and> x < 2 ^ 16)"
| "fmt_ok FI x = (0 \<le> x \<and> x < 2 ^ 32)"
| "fmt_ok Fi x = (- (2 ^ 31) \<le> x \<and> x < 2 ^ 31)"

definition fmt_enc :: "fmt \<Rightarrow> int \<Rightarrow> bytes" where
  "fmt_enc f x = le_bytes (fmt_width f) x"

definition fmt_dec :: "fmt \<Rightarrow> bytes \<Rightarrow> int" where
  "fmt_dec f bs = (let u = le_int bs in if f = Fi \<and> 2 ^ 31 \<le> u then u - 2 ^ 32 else u)"

definition calcsize :: "fmt list \<Rightarrow> nat" where
  "calcsize fs = sum_list (map fmt_width fs)"

text \<open>\<open>struct.pack("<...", *xs)\<close>: as many values as fields, each in its field's range.\<close>

fun struct_pack :: "fmt list \<Rightarrow> int list \<Rightarrow> exn + bytes" where
  "struct_pack [] [] = Inr []"
| "struct_pack (f # fs) (x # xs) =
     (if fmt_ok f x
      then bind_res (struct_pack fs xs) (\<lambda>bs. Inr (fmt_enc f x @ bs))
      else Inl StructError)"
| "struct_pack _ _ = Inl StructError"

fun unpack_fields :: "fmt list \<Rightarrow> bytes \<Rightarrow> int list" where
  "unpack_fields [] bs = []"
| "unpack_fields (f # fs) bs =
     fmt_dec f (take (fmt_width f) bs) # unpack_fields fs (drop (fmt_width f) bs)"

text \<open>\<open>struct.unpack\<close> wants exactly the format's size, \<open>struct.unpack_from\<close> at least it.\<close>

definition struct_unpack :: "fmt list \<Rightarrow> bytes \<Rightarrow> exn + int list" where
  "struct_unpack fs bs =
     (if length bs = calcsize fs then Inr (unpack_fields fs bs) else Inl StructError)"

definition struct_unpack_from :: "fmt list \<Rightarrow> bytes \<Rightarrow> nat \<Rightarrow> exn + int list" where
  "struct_unpack_from fs bs off =
     (if off + calcsize fs \<le> length bs then Inr (unpack_fields fs (drop off bs)) else Inl StructError)"

subsection \<open>The contract of one format character\<close>

locale field_codec =
  fixes enc :: "int \<Rightarrow> bytes"
    and dec :: "bytes \<Rightarrow> int"
    and ok :: "int \<Rightarrow> bool"
    and width :: nat
  assumes length_enc: "length (enc x) = width"
    and dec_enc: "ok x \<Longrightarrow> dec (enc x) = x"
    and ok_dec: "length bs = width \<Longrightarrow> ok (dec bs)"
    and enc_dec: "length bs = width \<Longrightarrow> enc (dec bs) = bs"
begin

lemma dec_take_enc: "ok x \<Longrightarrow> dec (take width (enc x @ bs)) = x"
  by (simp add: length_enc dec_enc)

lemma drop_enc: "drop width (enc x @ bs) = bs"
  by (simp add: length_enc)

lemma enc_dec_take: "width \<le> length bs \<Longrightarrow> enc (dec (take width bs)) = take width bs"
  by (simp add: enc_dec)

lemma ok_dec_take: "width \<le> length bs \<Longrightarrow> ok (dec (take width bs))"
  by (simp add: ok_dec)

lemma dec_inject: "length a = width \<Longrightarrow> length b = width \<Longrightarrow> dec a = dec b \<Longrightarrow> a = b"
  by (metis enc_dec)

end

lemma le_int_bound_width: "length bs = n \<Longrightarrow> le_int bs < 256 ^ n"
  using le_int_bound by blast

lemma le_bytes_le_int_width: "length bs = n \<Longrightarrow> le_bytes n (le_int bs) = bs"
  using le_bytes_le_int by blast

lemma le_bytes_mod: "le_bytes n (x mod 256 ^ n) = le_bytes n x"
proof (induction n arbitrary: x)
  case 0
  show ?case by simp
next
  case (Suc n)
  have eq: "x mod 256 ^ Suc n = 256 * (x div 256 mod 256 ^ n) + x mod 256"
    by (simp add: zmod_zmult2_eq)
  have "(x mod 256 ^ Suc n) div 256 = x div 256 mod 256 ^ n"
    unfolding eq by simp
  moreover have "(word_of_int (x mod 256 ^ Suc n) :: byte) = word_of_int x"
    unfolding eq by (simp add: word_of_int_eq_iff take_bit_eq_mod del: of_int_add of_int_mult)
  ultimately show ?case using Suc by simp
qed

lemma le_bytes_minus: "le_bytes 4 (x - 4294967296) = le_bytes 4 x"
  using le_bytes_mod [of 4 x] le_bytes_mod [of 4 "x - 4294967296"] by simp

lemma le_int_le_bytes_signed: "- (2 ^ 31) \<le> x \<Longrightarrow> x < 0 \<Longrightarrow> le_int (le_bytes 4 x) = x + 2 ^ 32"
  using le_int_le_bytes [of "x + 2 ^ 32" 4] le_bytes_minus [of "x + 2 ^ 32"] by simp

interpretation codec_B: field_codec "fmt_enc FB" "fmt_dec FB" "fmt_ok FB" 1
proof unfold_locales
  fix bs :: bytes
  assume l: "length bs = 1"
  from le_int_bound_width [OF l] show "fmt_ok FB (fmt_dec FB bs)" by (simp add: fmt_dec_def)
  from le_bytes_le_int_width [OF l] show "fmt_enc FB (fmt_dec FB bs) = bs"
    by (simp add: fmt_dec_def fmt_enc_def)
next
  fix x
  assume "fmt_ok FB x"
  then show "fmt_dec FB (fmt_enc FB x) = x"
    using le_int_le_bytes [of x 1] by (simp add: fmt_dec_def fmt_enc_def)
qed (simp add: fmt_enc_def)

interpretation codec_H: field_codec "fmt_enc FH" "fmt_dec FH" "fmt_ok FH" 2
proof unfold_locales
  fix bs :: bytes
  assume l: "length bs = 2"
  from le_int_bound_width [OF l] show "fmt_ok FH (fmt_dec FH bs)" by (simp add: fmt_dec_def)
  from le_bytes_le_int_width [OF l] show "fmt_enc FH (fmt_dec FH bs) = bs"
    by (simp add: fmt_dec_def fmt_enc_def)
qed (auto simp: fmt_enc_def fmt_dec_def codec_simps)

interpretation codec_I: field_codec "fmt_enc FI" "fmt_dec FI" "fmt_ok FI" 4
proof unfold_locales
  fix bs :: bytes
  assume l: "length bs = 4"
  from le_int_bound_width [OF l] show "fmt_ok FI (fmt_dec FI bs)" by (simp add: fmt_dec_def)
  from le_bytes_le_int_width [OF l] show "fmt_enc FI (fmt_dec FI bs) = bs"
    by (simp add: fmt_dec_def fmt_enc_def)
qed (auto simp: fmt_enc_def fmt_dec_def codec_simps)

interpretation codec_i: field_codec "fmt_enc Fi" "fmt_dec Fi" "fmt_ok Fi" 4
proof unfold_locales
  fix bs :: bytes
  assume l: "length bs = 4"
  from le_int_bound_width [OF l] show "fmt_ok Fi (fmt_dec Fi bs)"
    using order_trans [OF _ le_int_nonneg, of "- 2147483648" bs] by (simp add: fmt_dec_def Let_def)
  from le_bytes_le_int_width [OF l] show "fmt_enc Fi (fmt_dec Fi bs) = bs"
    by (simp add: fmt_dec_def fmt_enc_def Let_def le_bytes_minus)
next
  fix x
  assume ok: "fmt_ok Fi x"
  show "fmt_dec Fi (fmt_enc Fi x) = x"
  proof (cases "x < 0")
    case True
    with ok le_int_le_bytes_signed [of x] show ?thesis
      by (simp add: fmt_dec_def fmt_enc_def)
  next
    case False
    with ok le_int_le_bytes [of x 4] show ?thesis
      by (simp add: fmt_dec_def fmt_enc_def)
  qed
qed (simp add: fmt_enc_def)

text \<open>Every format character meets the contract, so whole formats do.\<close>

lemma fmt_codec: "field_codec (fmt_enc f) (fmt_dec f) (fmt_ok f) (fmt_width f)"
  using codec_B.field_codec_axioms codec_H.field_codec_axioms codec_I.field_codec_axioms
    codec_i.field_codec_axioms by (cases f) simp_all

lemmas fmt_length_enc [simp] = field_codec.length_enc [OF fmt_codec]
lemmas fmt_dec_enc = field_codec.dec_enc [OF fmt_codec]
lemmas fmt_ok_dec_take = field_codec.ok_dec_take [OF fmt_codec]
lemmas fmt_enc_dec_take = field_codec.enc_dec_take [OF fmt_codec]
lemmas fmt_dec_inject = field_codec.dec_inject [OF fmt_codec]

lemma calcsize_simps [simp]:
  "calcsize [] = 0"
  "calcsize (f # fs) = fmt_width f + calcsize fs"
  by (simp_all add: calcsize_def)

lemma calcsize_append [simp]: "calcsize (fs @ gs) = calcsize fs + calcsize gs"
  by (simp add: calcsize_def)

lemma calcsize_replicate [simp]: "calcsize (replicate n f) = n * fmt_width f"
  by (induction n) auto

lemma length_unpack_fields [simp]: "length (unpack_fields fs bs) = length fs"
  by (induction fs bs rule: unpack_fields.induct) auto

lemma struct_pack_length: "struct_pack fs xs = Inr bs \<Longrightarrow> length bs = calcsize fs"
  by (induction fs xs arbitrary: bs rule: struct_pack.induct) (auto split: if_splits)

lemma struct_pack_ok:
  "list_all2 fmt_ok fs xs \<Longrightarrow> struct_pack fs xs = Inr (concat (map2 fmt_enc fs xs))"
  by (induction fs xs rule: list_all2_induct) auto

lemma struct_pack_Inr_iff: "(\<exists>bs. struct_pack fs xs = Inr bs) \<longleftrightarrow> list_all2 fmt_ok fs xs"
  by (induction fs xs rule: struct_pack.induct) auto

lemma struct_pack_Inl: "struct_pack fs xs = Inl e \<Longrightarrow> e = StructError"
  by (induction fs xs rule: struct_pack.induct) (auto simp: bind_res_eq_Inl split: if_splits)

lemma unpack_pack: "struct_pack fs xs = Inr bs \<Longrightarrow> unpack_fields fs (bs @ ys) = xs"
  by (induction fs xs arbitrary: bs rule: struct_pack.induct)
    (auto simp: fmt_dec_enc split: if_splits)

lemma struct_roundtrip: "struct_pack fs xs = Inr bs \<Longrightarrow> struct_unpack fs bs = Inr xs"
  using unpack_pack [of fs xs bs "[]"] by (simp add: struct_unpack_def struct_pack_length)

lemma pack_unpack: "length bs = calcsize fs \<Longrightarrow> struct_pack fs (unpack_fields fs bs) = Inr bs"
proof (induction fs arbitrary: bs)
  case Nil
  then show ?case by simp
next
  case (Cons f fs)
  then have "fmt_width f \<le> length bs" by simp
  with Cons show ?case by (simp add: fmt_ok_dec_take fmt_enc_dec_take)
qed

lemma unpack_fields_take: "calcsize fs \<le> n \<Longrightarrow> unpack_fields fs (take n bs) = unpack_fields fs bs"
proof (induction fs arbitrary: bs n)
  case Nil
  then show ?case by simp
next
  case (Cons f fs)
  from Cons.prems have "calcsize fs \<le> n - fmt_width f" by simp
  with Cons show ?case by (simp add: min_absorb1 drop_take)
qed

lemma unpack_fields_append: "calcsize fs \<le> length bs \<Longrightarrow> unpack_fields fs (bs @ ys) = unpack_fields fs bs"
  using unpack_fields_take [of fs "length bs" "bs @ ys"] by simp

lemma unpack_fields_inject:
  "length a = calcsize fs \<Longrightarrow> length b = calcsize fs \<Longrightarrow> unpack_fields fs a = unpack_fields fs b \<Longrightarrow> a = b"
  by (metis pack_unpack sum.inject(2))

section \<open>Runs of 32-bit words\<close>

text \<open>\<open>"<nI"\<close> is a run of \<open>n\<close> little-endian words; \<open>enc_words\<close> writes one, \<open>dec_words n\<close> reads one.\<close>

definition enc_words :: "int list \<Rightarrow> bytes" where
  "enc_words ws = concat (map (fmt_enc FI) ws)"

abbreviation dec_words :: "nat \<Rightarrow> bytes \<Rightarrow> int list" where
  "dec_words n bs \<equiv> unpack_fields (replicate n FI) bs"

definition words_ok :: "int list \<Rightarrow> bool" where
  "words_ok ws \<longleftrightarrow> list_all (fmt_ok FI) ws"

lemma words_ok_simps [simp]:
  "words_ok []"
  "words_ok (w # ws) \<longleftrightarrow> fmt_ok FI w \<and> words_ok ws"
  "words_ok (vs @ ws) \<longleftrightarrow> words_ok vs \<and> words_ok ws"
  by (auto simp: words_ok_def)

lemma words_ok_take_drop: "words_ok ws \<Longrightarrow> words_ok (take n ws)" "words_ok ws \<Longrightarrow> words_ok (drop n ws)"
  by (auto simp: words_ok_def list_all_iff dest: in_set_takeD in_set_dropD)

lemma words_ok_nth: "words_ok ws \<Longrightarrow> i < length ws \<Longrightarrow> 0 \<le> ws ! i \<and> ws ! i < 4294967296"
  by (auto simp: words_ok_def list_all_length)

lemma enc_words_simps [simp]:
  "enc_words [] = []"
  "enc_words (w # ws) = fmt_enc FI w @ enc_words ws"
  "enc_words (vs @ ws) = enc_words vs @ enc_words ws"
  by (simp_all add: enc_words_def)

lemma length_enc_words [simp]: "length (enc_words ws) = 4 * length ws"
  by (induction ws) auto

lemma drop_enc_words: "drop (4 * n) (enc_words ws) = enc_words (drop n ws)"
  by (induction n arbitrary: ws) (simp, case_tac ws, auto simp: drop_Cons')

lemma take_enc_words: "take (4 * n) (enc_words ws) = enc_words (take n ws)"
  by (induction n arbitrary: ws) (simp, case_tac ws, auto)

lemma py_slice_enc_words:
  "py_slice (4 * a) (4 * b) (enc_words ws) = enc_words (take (b - a) (drop a ws))"
  by (simp add: py_slice_def drop_enc_words flip: diff_mult_distrib2 take_enc_words)

lemma dec_enc_words: "words_ok ws \<Longrightarrow> n = length ws \<Longrightarrow> dec_words n (enc_words ws @ bs) = ws"
  by (induction ws arbitrary: n) (auto simp: fmt_dec_enc simp del: fmt_ok.simps)

lemma dec_words_ok: "4 * n \<le> length bs \<Longrightarrow> words_ok (dec_words n bs)"
proof (induction n arbitrary: bs)
  case 0
  show ?case by simp
next
  case (Suc n)
  then show ?case using fmt_ok_dec_take [of FI bs] by simp
qed

lemma enc_dec_words: "4 * n = length bs \<Longrightarrow> enc_words (dec_words n bs) = bs"
proof (induction n arbitrary: bs)
  case 0
  then show ?case by simp
next
  case (Suc n)
  then have "enc_words (dec_words n (drop 4 bs)) = drop 4 bs" by simp
  moreover have "fmt_enc FI (fmt_dec FI (take 4 bs)) = take 4 bs"
    using fmt_enc_dec_take [of FI bs] Suc.prems by simp
  ultimately show ?case by simp
qed

lemma dec_words_split:
  "dec_words (a + b) bs = dec_words a bs @ dec_words b (drop (4 * a) bs)"
  by (induction a arbitrary: bs) (auto simp: add.commute)

lemma struct_pack_words: "words_ok ws \<Longrightarrow> n = length ws \<Longrightarrow> struct_pack (replicate n FI) ws = Inr (enc_words ws)"
  by (induction ws arbitrary: n) (auto simp del: fmt_ok.simps)

lemma struct_pack_words_iff:
  "struct_pack (replicate n FI) ws = Inr bs \<longleftrightarrow> words_ok ws \<and> n = length ws \<and> bs = enc_words ws"
proof (induction n arbitrary: ws bs)
  case 0
  show ?case by (cases ws) auto
next
  case (Suc n)
  show ?case by (cases ws) (auto simp: Suc simp del: fmt_ok.simps split: if_splits)
qed

end
