(* ===== verification/Crc32.thy ===== *)
theory Crc32
  imports Py_Base
begin

text \<open>
  \<open>zlib.crc32\<close> of Python's standard library, which both wire layers (frames and measurement
  payloads) use: the reflected CRC-32 with polynomial \<open>0xEDB88320\<close>, register preset and final
  complement \<open>0xFFFFFFFF\<close>, one bit at a time. The host masks the result with \<open>& 0xFFFFFFFF\<close>; here
  it is a 32-bit word to begin with, read as a Python int by \<open>crc32\<close>.

  The locale \<open>checksum\<close> says what the wire layers rely on: the value fits a \<open>struct\<close> field of
  format \<open>I\<close>, and two inputs that differ in exactly one byte have different values. The model's
  \<open>crc32\<close> is proved to satisfy it: each bit step is injective on the register.
\<close>

definition crc_bit :: "32 word \<Rightarrow> 32 word" where
  "crc_bit r = (if bit r 0 then drop_bit 1 r XOR 0xEDB88320 else drop_bit 1 r)"

fun crc_bits :: "nat \<Rightarrow> 32 word \<Rightarrow> 32 word" where
  "crc_bits 0 r = r"
| "crc_bits (Suc n) r = crc_bits n (crc_bit r)"

definition crc_byte :: "32 word \<Rightarrow> byte \<Rightarrow> 32 word" where
  "crc_byte r b = crc_bits 8 (r XOR ucast b)"

definition crc_run :: "32 word \<Rightarrow> bytes \<Rightarrow> 32 word" where
  "crc_run r bs = foldl crc_byte r bs"

definition crc32 :: "bytes \<Rightarrow> int" where
  "crc32 bs = uint (crc_run 0xFFFFFFFF bs XOR 0xFFFFFFFF)"

section \<open>What the wire layers rely on\<close>

locale checksum =
  fixes crc :: "bytes \<Rightarrow> int"
  assumes crc_range: "fmt_ok FI (crc bs)"
    and one_byte: "b \<noteq> b' \<Longrightarrow> crc (xs @ b # ys) \<noteq> crc (xs @ b' # ys)"
begin

lemma crc_bounds: "0 \<le> crc bs" "crc bs < 4294967296"
  using crc_range [of bs] by simp_all

lemma crc_trailer: "fmt_dec FI (fmt_enc FI (crc bs)) = crc bs"
  by (rule fmt_dec_enc) (rule crc_range)

text \<open>Two lists of one length that differ at exactly one index have different checksums.\<close>

lemma one_index:
  assumes "length a = length b" "i < length a" "a ! i \<noteq> b ! i" "\<And>j. j < length a \<Longrightarrow> j \<noteq> i \<Longrightarrow> a ! j = b ! j"
  shows "crc a \<noteq> crc b"
proof -
  have "take i a = take i b"
    by (rule nth_equalityI) (use assms in auto)
  moreover have "drop (Suc i) a = drop (Suc i) b"
    by (rule nth_equalityI) (use assms in auto)
  moreover have "a = take i a @ a ! i # drop (Suc i) a"
    using assms(2) by (rule id_take_nth_drop)
  moreover have "b = take i b @ b ! i # drop (Suc i) b"
    using assms(1,2) by (intro id_take_nth_drop) simp
  ultimately show ?thesis using one_byte [OF assms(3)] by metis
qed

end

section \<open>The model meets the contract\<close>

lemma inj_crc_bit: "crc_bit r = crc_bit s \<Longrightarrow> r = s"
proof -
  assume eq: "crc_bit r = crc_bit s"
  have top: "bit (crc_bit q) 31 = bit q 0" for q
    by (auto simp: crc_bit_def bit_simps dest: bit_imp_le_length)
  from eq have b0: "bit r 0 = bit s 0" using top by metis
  have "drop_bit 1 r = drop_bit 1 s"
  proof (cases "bit r 0")
    case True
    with eq b0 show ?thesis by (simp add: crc_bit_def)
  next
    case False
    with eq b0 show ?thesis by (simp add: crc_bit_def)
  qed
  then have up: "bit r (Suc n) = bit s (Suc n)" for n
    by (metis bit_drop_bit_eq comp_apply plus_1_eq_Suc)
  show ?thesis
  proof (rule bit_word_eqI)
    fix n
    show "bit r n = bit s n" using b0 up by (cases n) auto
  qed
qed

lemma inj_crc_bits: "crc_bits n r = crc_bits n s \<Longrightarrow> r = s"
  by (induction n arbitrary: r s) (auto dest: inj_crc_bit)

lemma crc_byte_reg: "crc_byte r b = crc_byte s b \<Longrightarrow> r = s"
  by (auto simp: crc_byte_def dest!: inj_crc_bits)

lemma crc_byte_data: "crc_byte r b = crc_byte r c \<Longrightarrow> b = c"
proof -
  assume "crc_byte r b = crc_byte r c"
  then have "(ucast b :: 32 word) = ucast c"
    unfolding crc_byte_def by (auto dest: inj_crc_bits)
  moreover have "take_bit 32 (uint d) = uint d" for d :: byte
    using order_less_trans [OF uint_byte_bounds(2), of "2 ^ 32" d] by (simp add: take_bit_eq_mod)
  ultimately show "b = c" by (simp add: word_uint_eq_iff unsigned_ucast_eq)
qed

lemma crc_run_simps [simp]:
  "crc_run r [] = r"
  "crc_run r (b # bs) = crc_run (crc_byte r b) bs"
  "crc_run r (xs @ ys) = crc_run (crc_run r xs) ys"
  by (simp_all add: crc_run_def)

lemma crc_run_reg: "crc_run r bs = crc_run s bs \<Longrightarrow> r = s"
  by (induction bs arbitrary: r s) (auto dest: crc_byte_reg)

interpretation zlib: checksum crc32
proof unfold_locales
  fix bs
  show "fmt_ok FI (crc32 bs)"
    using uint_bounded [of "crc_run 0xFFFFFFFF bs XOR 0xFFFFFFFF"] by (simp add: crc32_def)
next
  fix b b' :: byte and xs ys
  assume "b \<noteq> b'"
  then have "crc_run 0xFFFFFFFF (xs @ b # ys) \<noteq> crc_run 0xFFFFFFFF (xs @ b' # ys)"
    by (auto dest!: crc_run_reg crc_byte_data)
  then show "crc32 (xs @ b # ys) \<noteq> crc32 (xs @ b' # ys)"
    unfolding crc32_def by (metis word_uint_eqI word_xor_cancel(1))
qed

text \<open>The check value of CRC-32: the digits 1 to 9 in ASCII.\<close>

lemma crc32_check: "crc32 [49, 50, 51, 52, 53, 54, 55, 56, 57] = 0xCBF43926"
  by code_simp

end
