(* ===== verification/Stream_Interface.thy ===== *)
theory Stream_Interface
  imports Main
begin

text \<open>
  The contract between a parser that consumes a growing buffer and the reader that feeds it. The reader
  appends whatever one read of the serial line returned and asks the parser again until it answers that
  it needs more. The contract (\<open>stream_parser\<close>): a result shortens the buffer; waiting loses nothing
  (what the parser threw away could not have mattered); a result already determined by a prefix of
  the stream is not changed by what follows.

  \<open>emits p b fs l\<close>: from buffer \<open>b\<close> the parser yields the results \<open>fs\<close> and then waits with \<open>l\<close> left.
  \<open>feeds p b cs fs l\<close>: the same for the chunks \<open>cs\<close> read one after the other.
\<close>

inductive emits :: "('b list \<Rightarrow> 'f option \<times> 'b list) \<Rightarrow> 'b list \<Rightarrow> 'f list \<Rightarrow> 'b list \<Rightarrow> bool" for p where
  wait: "p b = (None, l) \<Longrightarrow> emits p b [] l"
| yield: "p b = (Some f, r) \<Longrightarrow> emits p r fs l \<Longrightarrow> emits p b (f # fs) l"

inductive feeds :: "('b list \<Rightarrow> 'f option \<times> 'b list) \<Rightarrow> 'b list \<Rightarrow> 'b list list \<Rightarrow> 'f list \<Rightarrow> 'b list \<Rightarrow> bool"
  for p where
  finish: "feeds p b [] [] b"
| chunk: "emits p (b @ c) fs l \<Longrightarrow> feeds p l cs gs m \<Longrightarrow> feeds p b (c # cs) (fs @ gs) m"

lemma emits_None: "p b = (None, l) \<Longrightarrow> emits p b gs m \<longleftrightarrow> gs = [] \<and> m = l"
  by (subst emits.simps) auto

lemma emits_Some: "p b = (Some f, r) \<Longrightarrow> emits p b gs m \<longleftrightarrow> (\<exists>hs. gs = f # hs \<and> emits p r hs m)"
  by (subst emits.simps) auto

lemma emits_same: "emits p x gs m \<Longrightarrow> p x = p y \<Longrightarrow> emits p y gs m"
  by (simp add: emits.simps [of p x] emits.simps [of p y])

inductive_cases feeds_Nil_elim: "feeds p b [] fs l"
inductive_cases feeds_Cons_elim: "feeds p b (c # cs) fs l"

locale stream_parser =
  fixes parse :: "'b list \<Rightarrow> 'f option \<times> 'b list"
  assumes shrink: "parse b = (Some f, r) \<Longrightarrow> length r < length b"
    and keeps: "parse a = (None, l) \<Longrightarrow> parse (a @ c) = parse (l @ c)"
    and commit: "parse a = (Some f, l) \<Longrightarrow> parse (a @ c) = (Some f, l @ c)"
    and empty: "parse [] = (None, [])"
begin

lemma emits_total: "\<exists>fs l. emits parse b fs l"
proof (induction b rule: length_induct)
  case (1 b)
  obtain r l where p: "parse b = (r, l)" by fastforce
  show ?case
  proof (cases r)
    case None
    with p show ?thesis by (blast intro: emits.wait)
  next
    case (Some f)
    with p shrink 1 obtain fs m where "emits parse l fs m" by blast
    with p Some show ?thesis by (blast intro: emits.yield)
  qed
qed

lemma emits_unique: "emits parse b fs l \<Longrightarrow> emits parse b gs m \<Longrightarrow> fs = gs \<and> l = m"
proof (induction arbitrary: gs m rule: emits.induct)
  case (wait b l)
  from emits_None [where p = parse, OF wait.hyps] wait.prems show ?case by simp
next
  case (yield b f r fs l)
  from emits_Some [where p = parse, OF yield.hyps(1)] yield.prems
  obtain hs where "gs = f # hs" "emits parse r hs m" by auto
  with yield.IH show ?case by simp
qed

lemma settled: "emits parse b fs l \<Longrightarrow> parse l = (None, l)"
proof (induction rule: emits.induct)
  case (wait b l)
  from keeps [OF wait, of "[]"] wait show ?case by simp
qed

lemma emits_more: "emits parse a fs l \<Longrightarrow> emits parse (l @ c) gs m \<Longrightarrow> emits parse (a @ c) (fs @ gs) m"
proof (induction rule: emits.induct)
  case (wait b l)
  from keeps [OF wait.hyps, of c] wait.prems show ?case
    by (auto intro: emits_same)
next
  case (yield b f r fs l)
  then show ?case using commit [OF yield.hyps(1), of c] by (auto intro: emits.yield)
qed

lemma feeds_concat: "feeds parse b cs fs l \<Longrightarrow> parse b = (None, b) \<Longrightarrow> emits parse (b @ concat cs) fs l"
proof (induction rule: feeds.induct)
  case (finish b)
  then show ?case by (simp add: emits.wait)
next
  case (chunk b c fs l cs gs m)
  with settled have "emits parse (l @ concat cs) gs m" by blast
  with emits_more [OF chunk.hyps(1)] show ?case by simp
qed

lemma feeds_total: "\<exists>fs l. feeds parse b cs fs l"
proof (induction cs arbitrary: b)
  case Nil
  show ?case by (blast intro: feeds.finish)
next
  case (Cons c cs)
  with emits_total [of "b @ c"] show ?case by (blast intro: feeds.chunk)
qed

text \<open>How the stream is cut into chunks does not matter.\<close>

lemma chunking:
  assumes "feeds parse [] cs fs l" "feeds parse [] ds gs m" "concat cs = concat ds"
  shows "fs = gs \<and> l = m"
  using feeds_concat [OF assms(1)] feeds_concat [OF assms(2)] assms(3) empty
  by (auto dest: emits_unique)

end

end
