(* ===== verification/Runner_Frame.thy ===== *)
theory Runner_Frame
  imports Crc32 Stream_Interface
begin

text \<open>
  The frame layer of \<open>host/lib/runner_proto.py\<close>: the constants, \<open>build_frame\<close>, and the receive path of
  \<open>RunnerLink\<close> (\<open>_harvest_text\<close> and \<open>_try_parse\<close>) over its buffer, its diagnostic text log and its
  resynchronisation counter (record \<open>rx\<close>, which \<open>Runner_Link\<close> extends to the whole link).

  \<open>examine\<close> is the part of the loop body of \<open>_try_parse\<close> that judges the candidate at the front of the
  buffer; \<open>try_parse\<close> is the loop. \<open>scan\<close> is the abstract specification: a scanner that moves one byte
  at a time. The locale \<open>stream_parser\<close> is the contract the link relies on: a parser whose result does
  not depend on how the stream is cut into reads.
\<close>

section \<open>Constants and frames\<close>

definition MAGIC :: int where "MAGIC = 0x3152554E"

definition MAGIC_BYTES :: bytes where "MAGIC_BYTES = fmt_enc FI MAGIC"

definition VERSION :: int where "VERSION = 1"

definition HEADER :: "fmt list" where "HEADER = [FI, FB, FB, FH, FI, FI]"

definition HEADER_LEN :: nat where "HEADER_LEN = calcsize HEADER"

definition MAX_PAYLOAD :: nat where "MAX_PAYLOAD = 4096"

record frame =
  fr_version :: int
  fr_command :: int
  fr_flags :: int
  fr_sequence :: int
  fr_payload :: bytes

text \<open>\<open>build_frame\<close>: the header, the payload, and the CRC of both. A value out of its field's range is
  the \<open>struct.error\<close> of the first \<open>struct.pack\<close>.\<close>

definition build_frame :: "int \<Rightarrow> int \<Rightarrow> bytes \<Rightarrow> int \<Rightarrow> exn + bytes" where
  "build_frame command sequence payload flags =
     bind_res (struct_pack HEADER [MAGIC, VERSION, command, flags, sequence, int (length payload)])
       (\<lambda>header. let body = header @ payload in
          bind_res (struct_pack [FI] [crc32 body]) (\<lambda>trailer. Inr (body @ trailer)))"

section \<open>The receive path\<close>

record rx =
  rx_buf :: bytes
  rx_text_log :: "nat list list"
  rx_resyncs :: int

text \<open>Text is kept as code points. \<open>decode("ascii", errors="replace")\<close> puts U+FFFD for a byte above 127.\<close>

definition ascii_replace :: "bytes \<Rightarrow> nat list" where
  "ascii_replace bs = map (\<lambda>b. if unat b < 128 then unat b else 0xFFFD) bs"

text \<open>\<open>str.split("\n")\<close>: one piece more than there are separators.\<close>

fun split_on :: "'a \<Rightarrow> 'a list \<Rightarrow> 'a list list" where
  "split_on c [] = [[]]"
| "split_on c (x # xs) =
     (if x = c then [] # split_on c xs
      else (case split_on c xs of [] \<Rightarrow> [[x]] | p # ps \<Rightarrow> (x # p) # ps))"

definition is_space :: "nat \<Rightarrow> bool" where
  "is_space c \<longleftrightarrow> 9 \<le> c \<and> c \<le> 13 \<or> 28 \<le> c \<and> c \<le> 32"

definition py_strip :: "nat list \<Rightarrow> nat list" where
  "py_strip xs = rev (dropWhile is_space (rev (dropWhile is_space xs)))"

definition harvest_lines :: "bytes \<Rightarrow> nat list list" where
  "harvest_lines chunk =
     filter (\<lambda>l. l \<noteq> []) (map py_strip (split_on 10 (filter (\<lambda>c. c \<noteq> 13) (ascii_replace chunk))))"

definition harvest_text :: "nat \<Rightarrow> 'a rx_scheme \<Rightarrow> 'a rx_scheme" where
  "harvest_text n s =
     (if n = 0 then s
      else s\<lparr>rx_text_log := rx_text_log s @ harvest_lines (take n (rx_buf s))\<rparr>)"

text \<open>\<open>_harvest_text(n); del self._buf[:n]\<close>, the pair every branch of the loop uses.\<close>

definition discard :: "nat \<Rightarrow> 'a rx_scheme \<Rightarrow> 'a rx_scheme" where
  "discard n s = (harvest_text n s)\<lparr>rx_buf := drop n (rx_buf s)\<rparr>"

definition resync :: "'a rx_scheme \<Rightarrow> 'a rx_scheme" where
  "resync s = discard 1 (s\<lparr>rx_resyncs := rx_resyncs s + 1\<rparr>)"

datatype candidate = Incomplete | Bogus | Accept frame nat

text \<open>The candidate at the front of \<open>b\<close>, which starts with the magic.\<close>

definition examine :: "bytes \<Rightarrow> candidate" where
  "examine b =
     (if length b < HEADER_LEN then Incomplete
      else let h = unpack_fields HEADER (take HEADER_LEN b);
               ver = h ! 1; cmd = h ! 2; flags = h ! 3; seq = h ! 4; plen = h ! 5 in
        if plen > int MAX_PAYLOAD then Bogus
        else let total = HEADER_LEN + nat plen + 4 in
          if length b < total then Incomplete
          else let payload = py_slice HEADER_LEN (HEADER_LEN + nat plen) b;
                   crc = fmt_dec FI (py_slice (HEADER_LEN + nat plen) total b) in
            if crc \<noteq> crc32 (take (HEADER_LEN + nat plen) b) then Bogus
            else Accept \<lparr>fr_version = ver, fr_command = cmd, fr_flags = flags, fr_sequence = seq,
                          fr_payload = payload\<rparr> total)"

lemma MAGIC_BYTES_eq: "MAGIC_BYTES = [0x4E, 0x55, 0x52, 0x31]"
  by (simp add: MAGIC_BYTES_def MAGIC_def fmt_enc_def numeral_eq_Suc word_of_int_eq_iff take_bit_eq_mod)

lemma rx_buf_discard [simp]: "rx_buf (discard n s) = drop n (rx_buf s)"
  by (simp add: discard_def)

lemma rx_buf_resync [simp]: "rx_buf (resync s) = drop 1 (rx_buf s)"
  by (simp add: resync_def)

lemma rx_resyncs_discard [simp]: "rx_resyncs (discard n s) = rx_resyncs s"
  by (simp add: discard_def harvest_text_def)

lemma rx_resyncs_resync [simp]: "rx_resyncs (resync s) = rx_resyncs s + 1"
  by (simp add: resync_def)

lemma find_magic_nonempty: "find_sub MAGIC_BYTES b = Some i \<Longrightarrow> i < length b"
proof -
  assume f: "find_sub MAGIC_BYTES b = Some i"
  from find_sub_Some [OF f] have "prefix MAGIC_BYTES (drop i b)" by blast
  from prefix_length_le [OF this] show "i < length b" by (simp add: MAGIC_BYTES_eq)
qed

function try_parse :: "'a rx_scheme \<Rightarrow> frame option \<times> 'a rx_scheme" where
  "try_parse s =
     (case find_sub MAGIC_BYTES (rx_buf s) of
        None \<Rightarrow> (None, if 3 < length (rx_buf s) then discard (length (rx_buf s) - 3) s else s)
      | Some idx \<Rightarrow>
          (let s1 = (if idx \<noteq> 0 then discard idx s else s) in
            (case examine (rx_buf s1) of
               Incomplete \<Rightarrow> (None, s1)
             | Bogus \<Rightarrow> try_parse (resync s1)
             | Accept f n \<Rightarrow> (Some f, s1\<lparr>rx_buf := drop n (rx_buf s1)\<rparr>))))"
  by pat_completeness auto
termination
  by (relation "measure (\<lambda>s. length (rx_buf s))") (auto dest: find_magic_nonempty split: if_splits)

declare try_parse.simps [simp del]

section \<open>The candidate\<close>

lemma HEADER_LEN_eq [simp]: "HEADER_LEN = 16"
  by (simp add: HEADER_LEN_def HEADER_def)

lemma calcsize_HEADER [simp]: "calcsize HEADER = 16"
  by (simp add: HEADER_def)

lemma examine_append: "examine b \<noteq> Incomplete \<Longrightarrow> examine (b @ c) = examine b"
proof -
  assume complete: "examine b \<noteq> Incomplete"
  let ?p = "nat (unpack_fields HEADER (take 16 b) ! 5)"
  from complete have l: "16 \<le> length b" by (auto simp: examine_def split: if_splits)
  show ?thesis
  proof (cases "unpack_fields HEADER (take 16 b) ! 5 > int MAX_PAYLOAD")
    case True
    with l show ?thesis by (simp add: examine_def)
  next
    case False
    with complete l have t: "16 + ?p + 4 \<le> length b"
      by (auto simp: examine_def Let_def split: if_splits)
    then have "py_slice 16 (16 + ?p) (b @ c) = py_slice 16 (16 + ?p) b"
      "py_slice (16 + ?p) (16 + ?p + 4) (b @ c) = py_slice (16 + ?p) (16 + ?p + 4) b"
      by (simp_all only: py_slice_append1)
    moreover have "take (16 + ?p) (b @ c) = take (16 + ?p) b" using t by simp
    moreover have "take 16 (b @ c) = take 16 b" using l by simp
    ultimately show ?thesis using False l t by (simp only: examine_def Let_def HEADER_LEN_eq) simp
  qed
qed

lemma examine_AcceptD:
  assumes "examine b = Accept f n"
  shows "n = 20 + length (fr_payload f)" "n \<le> length b" "length (fr_payload f) \<le> MAX_PAYLOAD"
    "unpack_fields HEADER (take 16 b)
       = [unpack_fields HEADER (take 16 b) ! 0, fr_version f, fr_command f, fr_flags f, fr_sequence f,
          int (length (fr_payload f))]"
    "take n b = take 16 b @ fr_payload f @ fmt_enc FI (crc32 (take 16 b @ fr_payload f))"
proof -
  let ?h = "unpack_fields HEADER (take 16 b)"
  have l: "16 \<le> length b" using assms by (auto simp: examine_def split: if_splits)
  have hd: "?h = [?h ! 0, ?h ! 1, ?h ! 2, ?h ! 3, ?h ! 4, ?h ! 5]"
    by (simp add: HEADER_def numeral_eq_Suc)
  have p0: "0 \<le> ?h ! 5"
    by (simp add: HEADER_def numeral_eq_Suc fmt_dec_def)
  let ?p = "nat (?h ! 5)"
  from assms l have e: "?h ! 5 \<le> int MAX_PAYLOAD" "20 + ?p \<le> length b"
    "fmt_dec FI (py_slice (16 + ?p) (20 + ?p) b) = crc32 (take (16 + ?p) b)"
    "n = 20 + ?p" "fr_payload f = py_slice 16 (16 + ?p) b" "fr_version f = ?h ! 1"
    "fr_command f = ?h ! 2" "fr_flags f = ?h ! 3" "fr_sequence f = ?h ! 4"
    unfolding examine_def Let_def by (auto split: if_splits simp: add.commute)
  from e(2,5) have lp: "length (fr_payload f) = ?p" by simp
  show "n = 20 + length (fr_payload f)" "n \<le> length b" using e lp by simp_all
  show "length (fr_payload f) \<le> MAX_PAYLOAD" using e(1) lp by simp
  show "?h = [?h ! 0, fr_version f, fr_command f, fr_flags f, fr_sequence f, int (length (fr_payload f))]"
    using hd e(6-9) lp p0 by simp
  have body: "take (16 + ?p) b = take 16 b @ fr_payload f"
    using e(5) by (simp add: py_slice_def take_add)
  have "fmt_enc FI (fmt_dec FI (py_slice (16 + ?p) (20 + ?p) b)) = py_slice (16 + ?p) (20 + ?p) b"
    using e(2) by (intro codec_I.enc_dec) simp
  then have "py_slice (16 + ?p) (20 + ?p) b = fmt_enc FI (crc32 (take 16 b @ fr_payload f))"
    using e(3) body by simp
  moreover have "take n b = take (16 + ?p) b @ py_slice (16 + ?p) (20 + ?p) b"
    using e(4) take_add [of "16 + ?p" 4 b] by (simp add: py_slice_def add.commute)
  ultimately show "take n b = take 16 b @ fr_payload f @ fmt_enc FI (crc32 (take 16 b @ fr_payload f))"
    using body by simp
qed

lemma examine_Incomplete: "examine b = Incomplete \<Longrightarrow> length b < 20 + MAX_PAYLOAD"
  by (auto simp: examine_def Let_def MAX_PAYLOAD_def split: if_splits)

lemma examine_AcceptI:
  assumes "take 16 b = hdr" "length hdr = 16" "unpack_fields HEADER hdr = [m, v, c, fl, q, int (length p)]"
    and "length p \<le> MAX_PAYLOAD" "b = hdr @ p @ fmt_enc FI (crc32 (hdr @ p)) @ rest"
  shows "examine b = Accept \<lparr>fr_version = v, fr_command = c, fr_flags = fl, fr_sequence = q, fr_payload = p\<rparr>
    (20 + length p)"
proof -
  have "py_slice 16 (16 + length p) b = p" using assms by (simp add: py_slice_def)
  moreover have "py_slice (16 + length p) (16 + length p + 4) b = fmt_enc FI (crc32 (hdr @ p))"
    using assms by (simp add: py_slice_def)
  moreover have "take (16 + length p) b = hdr @ p" "length b \<ge> 20 + length p"
    using assms by simp_all
  ultimately show ?thesis
    using assms(1-4) by (simp add: examine_def Let_def zlib.crc_trailer)
qed

lemma examine_take: "examine b = Accept f n \<Longrightarrow> examine (take n b) = Accept f n"
proof -
  assume a: "examine b = Accept f n"
  note acc = examine_AcceptD [OF a]
  have "examine (take n b) = Accept \<lparr>fr_version = fr_version f, fr_command = fr_command f,
      fr_flags = fr_flags f, fr_sequence = fr_sequence f, fr_payload = fr_payload f\<rparr>
      (20 + length (fr_payload f))"
    by (rule examine_AcceptI [where rest = "[]", OF _ _ acc(4) acc(3)])
      (use acc(1,2,5) in simp_all)
  then show ?thesis using acc(1) by simp
qed

section \<open>The abstract scanner\<close>

text \<open>The specification: look at one position after the other; keep three bytes, which a later read may
  complete to a magic; count a position whose candidate is refused.\<close>

function scan :: "bytes \<Rightarrow> frame option \<times> bytes \<times> int" where
  "scan b =
     (if length b < 4 then (None, b, 0)
      else if \<not> prefix MAGIC_BYTES b then scan (tl b)
      else (case examine b of
              Incomplete \<Rightarrow> (None, b, 0)
            | Bogus \<Rightarrow> (case scan (tl b) of (f, l, k) \<Rightarrow> (f, l, k + 1))
            | Accept f n \<Rightarrow> (Some f, drop n b, 0)))"
  by pat_completeness auto
termination
  by (relation "measure length") auto

declare scan.simps [simp del]

lemma scan_skip:
  "\<lbrakk>\<And>j. j < i \<Longrightarrow> \<not> prefix MAGIC_BYTES (drop j b); i + 3 \<le> length b\<rbrakk> \<Longrightarrow> scan b = scan (drop i b)"
proof (induction i)
  case 0
  then show ?case by simp
next
  case (Suc i)
  then have "scan b = scan (drop i b)" by simp
  also have "\<dots> = scan (tl (drop i b))"
    using Suc.prems by (subst scan.simps) auto
  finally show ?case by (simp add: tl_drop drop_Suc)
qed

lemma scan_short: "length b < 4 \<Longrightarrow> scan b = (None, b, 0)"
  by (subst scan.simps) simp

lemma prefix_MAGIC_length: "prefix MAGIC_BYTES b \<Longrightarrow> 4 \<le> length b"
  using prefix_length_le [of MAGIC_BYTES b] by (simp add: MAGIC_BYTES_eq)

lemma scan_at_magic:
  "prefix MAGIC_BYTES b \<Longrightarrow>
    scan b = (case examine b of
              Incomplete \<Rightarrow> (None, b, 0)
            | Bogus \<Rightarrow> (case scan (tl b) of (f, l, k) \<Rightarrow> (f, l, k + 1))
            | Accept f n \<Rightarrow> (Some f, drop n b, 0))"
  using prefix_MAGIC_length [of b] by (subst scan.simps) auto

lemma scan_found:
  "find_sub MAGIC_BYTES b = Some i \<Longrightarrow> scan b = scan (drop i b) \<and> prefix MAGIC_BYTES (drop i b)"
  using find_sub_Some [of MAGIC_BYTES b i] prefix_MAGIC_length [of "drop i b"]
  by (auto intro!: scan_skip)

lemma scan_not_found:
  "find_sub MAGIC_BYTES b = None \<Longrightarrow> scan b = (None, drop (length b - 3) b, 0)"
  using find_sub_None [of MAGIC_BYTES b] scan_skip [of "length b - 3" b] scan_short
  by (cases "length b < 4") auto

text \<open>The loop of the code computes the specification.\<close>

lemma try_parse_scan:
  "try_parse s = (r, s') \<Longrightarrow> scan (rx_buf s) = (r, rx_buf s', rx_resyncs s' - rx_resyncs s)"
proof (induction s arbitrary: r s' rule: try_parse.induct)
  case (1 s)
  show ?case
  proof (cases "find_sub MAGIC_BYTES (rx_buf s)")
    case None
    with "1.prems" scan_not_found [OF None] show ?thesis
      by (auto simp: try_parse.simps [of s] split: if_splits)
  next
    case (Some i)
    let ?s1 = "if i \<noteq> 0 then discard i s else s"
    have b: "rx_buf ?s1 = drop i (rx_buf s)" "rx_resyncs ?s1 = rx_resyncs s" by simp_all
    note sc = scan_found [OF Some]
    show ?thesis
    proof (cases "examine (rx_buf ?s1)")
      case Incomplete
      with "1.prems" Some sc b show ?thesis
        by (simp add: try_parse.simps [of s] Let_def scan_at_magic)
    next
      case Bogus
      from "1.prems" Some Bogus have "try_parse (resync ?s1) = (r, s')"
        by (simp add: try_parse.simps [of s] Let_def)
      from "1.IH" [OF Some refl Bogus this] Bogus sc b show ?thesis
        by (simp add: scan_at_magic drop_Suc tl_drop)
    next
      case (Accept f n)
      with "1.prems" Some sc b show ?thesis
        by (auto simp: try_parse.simps [of s] Let_def scan_at_magic)
    qed
  qed
qed

section \<open>Facts of the scanner\<close>

lemma prefix_append_long: "length p \<le> length a \<Longrightarrow> prefix p (a @ c) = prefix p a"
  using prefix_length_prefix [of p "a @ c" a] by (auto simp: prefix_prefix)

lemma scan_commit: "scan a = (Some f, l, k) \<Longrightarrow> scan (a @ c) = (Some f, l @ c, k)"
proof (induction a arbitrary: l k rule: scan.induct)
  case (1 a)
  from "1.prems" have len: "4 \<le> length a" by (auto simp: scan.simps [of a] split: if_splits)
  then have pre: "prefix MAGIC_BYTES (a @ c) = prefix MAGIC_BYTES a"
    by (intro prefix_append_long) (simp add: MAGIC_BYTES_eq)
  have tl: "tl (a @ c) = tl a @ c" using len by (cases a) auto
  show ?case
  proof (cases "prefix MAGIC_BYTES a")
    case False
    with "1.prems" len have "scan (tl a) = (Some f, l, k)" by (simp add: scan.simps [of a])
    with "1.IH"(1) False len pre tl show ?thesis by (simp add: scan.simps [of "a @ c"])
  next
    case True
    show ?thesis
    proof (cases "examine a")
      case Incomplete
      with "1.prems" True show ?thesis by (simp add: scan_at_magic)
    next
      case Bogus
      with "1.prems" True obtain k0 where "scan (tl a) = (Some f, l, k0)" "k = k0 + 1"
        by (auto simp: scan_at_magic split: prod.splits)
      with "1.IH"(2) len True Bogus pre tl examine_append [of a c] show ?thesis
        by (simp add: scan_at_magic)
    next
      case (Accept g n)
      with "1.prems" True have "g = f" "l = drop n a" "k = 0" by (auto simp: scan_at_magic)
      with Accept True pre examine_append [of a c] examine_AcceptD(2) [OF Accept] show ?thesis
        by (simp add: scan_at_magic)
    qed
  qed
qed

lemma scan_wait: "scan a = (None, l, k) \<Longrightarrow> scan (a @ c) = (case scan (l @ c) of (r, m, j) \<Rightarrow> (r, m, j + k))"
proof (induction a arbitrary: k rule: scan.induct)
  case (1 a)
  show ?case
  proof (cases "length a < 4")
    case True
    with "1.prems" show ?thesis by (simp add: scan_short)
  next
    case False
    then have pre: "prefix MAGIC_BYTES (a @ c) = prefix MAGIC_BYTES a"
      by (intro prefix_append_long) (simp add: MAGIC_BYTES_eq)
    have tl: "tl (a @ c) = tl a @ c" using False by (cases a) auto
    show ?thesis
    proof (cases "prefix MAGIC_BYTES a")
      case no: False
      with "1.prems" False have "scan (tl a) = (None, l, k)" by (simp add: scan.simps [of a])
      with "1.IH"(1) no False pre tl show ?thesis by (simp add: scan.simps [of "a @ c"])
    next
      case True
      show ?thesis
      proof (cases "examine a")
        case Incomplete
        with "1.prems" True show ?thesis by (simp add: scan_at_magic)
      next
        case Bogus
        with "1.prems" True obtain k0 where "scan (tl a) = (None, l, k0)" "k = k0 + 1"
          by (auto simp: scan_at_magic split: prod.splits)
        with "1.IH"(2) False True Bogus pre tl examine_append [of a c] show ?thesis
          by (simp add: scan_at_magic split: prod.splits)
      next
        case (Accept g n)
        with "1.prems" True show ?thesis by (simp add: scan_at_magic)
      qed
    qed
  qed
qed

text \<open>What a result says of the input: the frame's bytes stand in the buffer, checksum and all.\<close>

lemma scan_Some:
  "scan b = (Some f, l, k) \<Longrightarrow> \<exists>g w. b = g @ w @ l \<and> prefix MAGIC_BYTES w \<and> examine w = Accept f (length w)"
proof (induction b arbitrary: k rule: scan.induct)
  case (1 b)
  from "1.prems" have len: "\<not> length b < 4" by (auto simp: scan.simps [of b] split: if_splits)
  then have b: "b = hd b # tl b" by (cases b) auto
  show ?case
  proof (cases "prefix MAGIC_BYTES b")
    case False
    with "1.prems" len have "scan (tl b) = (Some f, l, k)" by (simp add: scan.simps [of b])
    from "1.IH"(1) [OF len False this] b show ?thesis by (metis append_Cons)
  next
    case True
    show ?thesis
    proof (cases "examine b")
      case Incomplete
      with "1.prems" True show ?thesis by (simp add: scan_at_magic)
    next
      case Bogus
      with "1.prems" True obtain k0 where "scan (tl b) = (Some f, l, k0)"
        by (auto simp: scan_at_magic split: prod.splits)
      from "1.IH"(2) [OF len _ Bogus this] True b show ?thesis by (metis append_Cons)
    next
      case (Accept g n)
      with "1.prems" True have e: "g = f" "l = drop n b" by (auto simp: scan_at_magic)
      note acc = examine_AcceptD [OF Accept]
      have "prefix MAGIC_BYTES (take n b)"
        using True acc(1,2) prefix_append_long [of MAGIC_BYTES "take n b" "drop n b"]
        by (simp add: MAGIC_BYTES_eq)
      moreover have "examine (take n b) = Accept f n"
        using Accept e examine_take [OF Accept] by simp
      ultimately show ?thesis using e acc(2) by (intro exI [of _ "[]"] exI [of _ "take n b"]) simp
    qed
  qed
qed

lemma scan_None:
  "scan b = (None, l, k) \<Longrightarrow> suffix l b \<and> length l < 20 + MAX_PAYLOAD"
proof (induction b arbitrary: k rule: scan.induct)
  case (1 b)
  show ?case
  proof (cases "length b < 4")
    case True
    with "1.prems" show ?thesis by (simp add: scan_short)
  next
    case False
    then have b: "b = hd b # tl b" by (cases b) auto
    then have suf: "suffix l (tl b) \<Longrightarrow> suffix l b" by (metis suffix_ConsI)
    show ?thesis
    proof (cases "prefix MAGIC_BYTES b")
      case no: False
      with "1.prems" False have "scan (tl b) = (None, l, k)" by (simp add: scan.simps [of b])
      from "1.IH"(1) [OF False no this] suf show ?thesis by simp
    next
      case True
      show ?thesis
      proof (cases "examine b")
        case Incomplete
        with "1.prems" True have "l = b" by (simp add: scan_at_magic)
        with examine_Incomplete [OF Incomplete] show ?thesis by simp
      next
        case Bogus
        with "1.prems" True obtain k0 where "scan (tl b) = (None, l, k0)"
          by (auto simp: scan_at_magic split: prod.splits)
        from "1.IH"(2) [OF False _ Bogus this] True suf show ?thesis by simp
      next
        case (Accept g n)
        with "1.prems" True show ?thesis by (simp add: scan_at_magic)
      qed
    qed
  qed
qed

section \<open>The receive path as a stream parser\<close>

definition parse_bytes :: "bytes \<Rightarrow> frame option \<times> bytes" where
  "parse_bytes b = (case try_parse \<lparr>rx_buf = b, rx_text_log = [], rx_resyncs = 0\<rparr> of (r, s) \<Rightarrow> (r, rx_buf s))"

lemma parse_bytes_scan: "parse_bytes b = (case scan b of (r, l, k) \<Rightarrow> (r, l))"
proof -
  obtain r s where t: "try_parse \<lparr>rx_buf = b, rx_text_log = [], rx_resyncs = 0\<rparr> = (r, s)"
    by fastforce
  from try_parse_scan [OF t] t show ?thesis by (simp add: parse_bytes_def)
qed

lemma try_parse_bytes: "try_parse s = (r, s') \<Longrightarrow> parse_bytes (rx_buf s) = (r, rx_buf s')"
  by (simp add: parse_bytes_scan try_parse_scan)

lemma scan_Some_length: "scan b = (Some f, l, k) \<Longrightarrow> length l + 20 \<le> length b"
  using scan_Some [of b f l k] by (auto dest: examine_AcceptD(1))

interpretation rxp: stream_parser parse_bytes
proof unfold_locales
  fix b f r
  assume "parse_bytes b = (Some f, r)"
  then show "length r < length b"
    by (auto simp: parse_bytes_scan dest: scan_Some_length split: prod.splits)
next
  fix a l c
  assume "parse_bytes a = (None, l)"
  then obtain k where "scan a = (None, l, k)" by (auto simp: parse_bytes_scan split: prod.splits)
  from scan_wait [OF this, of c] show "parse_bytes (a @ c) = parse_bytes (l @ c)"
    by (simp add: parse_bytes_scan split: prod.splits)
next
  fix a f l c
  assume "parse_bytes a = (Some f, l)"
  then obtain k where "scan a = (Some f, l, k)" by (auto simp: parse_bytes_scan split: prod.splits)
  from scan_commit [OF this, of c] show "parse_bytes (a @ c) = (Some f, l @ c)"
    by (simp add: parse_bytes_scan)
next
  show "parse_bytes [] = (None, [])" by (simp add: parse_bytes_scan scan_short)
qed

section \<open>Frames that were built\<close>

definition built_frame :: "int \<Rightarrow> int \<Rightarrow> bytes \<Rightarrow> int \<Rightarrow> frame" where
  "built_frame command sequence payload flags =
     \<lparr>fr_version = VERSION, fr_command = command, fr_flags = flags, fr_sequence = sequence, fr_payload = payload\<rparr>"

lemma build_frame_parts:
  assumes "build_frame c q p fl = Inr w"
  obtains hdr where "struct_pack HEADER [MAGIC, VERSION, c, fl, q, int (length p)] = Inr hdr"
    "length hdr = 16" "prefix MAGIC_BYTES hdr" "w = hdr @ p @ fmt_enc FI (crc32 (hdr @ p))"
proof -
  from assms obtain hdr where h: "struct_pack HEADER [MAGIC, VERSION, c, fl, q, int (length p)] = Inr hdr"
    and w: "w = hdr @ p @ fmt_enc FI (crc32 (hdr @ p))"
    by (auto simp: build_frame_def Let_def split: if_splits)
  have "prefix MAGIC_BYTES hdr"
    using h by (auto simp: HEADER_def MAGIC_BYTES_def split: if_splits)
  with h w struct_pack_length [OF h] show ?thesis by (intro that) simp_all
qed

lemma build_frame_examine:
  assumes "build_frame c q p fl = Inr w" "length p \<le> MAX_PAYLOAD"
  shows "examine (w @ rest) = Accept (built_frame c q p fl) (length w)" "prefix MAGIC_BYTES (w @ rest)"
    "length w = 20 + length p"
proof -
  from assms(1) obtain hdr where h: "struct_pack HEADER [MAGIC, VERSION, c, fl, q, int (length p)] = Inr hdr"
    "length hdr = 16" "prefix MAGIC_BYTES hdr" "w = hdr @ p @ fmt_enc FI (crc32 (hdr @ p))"
    by (rule build_frame_parts)
  from unpack_pack [OF h(1), of "[]"]
  have "unpack_fields HEADER hdr = [MAGIC, VERSION, c, fl, q, int (length p)]" by simp
  from examine_AcceptI [OF _ h(2) this assms(2), of "w @ rest" rest] h(2,4)
  show "examine (w @ rest) = Accept (built_frame c q p fl) (length w)"
    by (simp add: built_frame_def)
  from h(3,4) show "prefix MAGIC_BYTES (w @ rest)" by (simp add: prefix_prefix)
  from h(2,4) show "length w = 20 + length p" by simp
qed

lemma build_frame_ok_iff:
  "(\<exists>w. build_frame c q p fl = Inr w) \<longleftrightarrow>
     fmt_ok FB c \<and> fmt_ok FH fl \<and> fmt_ok FI q \<and> length p < 2 ^ 32"
  using zlib.crc_range
  by (simp add: build_frame_def HEADER_def MAGIC_def VERSION_def Let_def) linarith

section \<open>Corruption\<close>

lemma examine_Accept_crc:
  assumes "examine b = Accept f n"
  defines "p \<equiv> length (fr_payload f)"
  shows "n = 20 + p" "n \<le> length b" "fmt_dec FI (take 4 (drop 12 b)) = int p"
    "take 4 (drop (16 + p) b) = fmt_enc FI (crc32 (take (16 + p) b))"
proof -
  note acc = examine_AcceptD [OF assms(1)]
  show n: "n = 20 + p" and l: "n \<le> length b" using acc(1,2) by (simp_all add: p_def)
  have "unpack_fields HEADER (take 16 b) ! 5 = int p"
    using arg_cong [OF acc(4), of "\<lambda>h. h ! 5"] by (simp add: p_def)
  moreover have "unpack_fields HEADER (take 16 b) ! 5 = fmt_dec FI (take 4 (drop 12 b))"
    using n l by (simp add: HEADER_def numeral_eq_Suc drop_take)
  ultimately show "fmt_dec FI (take 4 (drop 12 b)) = int p" by simp
  have len: "length (take 16 b @ fr_payload f) = 16 + p" using n l by (simp add: p_def)
  have "take (16 + p) (take n b) = take 16 b @ fr_payload f"
    unfolding acc(5) append_assoc [symmetric] using len by simp
  then have body: "take (16 + p) b = take 16 b @ fr_payload f" using n by (simp add: min_def)
  have "drop (16 + p) (take n b) = fmt_enc FI (crc32 (take 16 b @ fr_payload f))"
    unfolding acc(5) append_assoc [symmetric] using len by simp
  then show "take 4 (drop (16 + p) b) = fmt_enc FI (crc32 (take (16 + p) b))"
    using n body by (simp add: drop_take)
qed

lemma take_one_index:
  assumes "length x = length y" "\<And>j. j < length x \<Longrightarrow> j \<noteq> i \<Longrightarrow> x ! j = y ! j" "i < a \<or> a + k \<le> i"
  shows "take k (drop a x) = take k (drop a y)"
  by (rule nth_equalityI) (use assms in auto)

lemma examine_one_byte:
  assumes acc: "examine x = Accept f n" and len: "length y = length x" and i: "i < n" "\<not> (12 \<le> i \<and> i < 16)"
    and diff: "x ! i \<noteq> y ! i" and same: "\<And>j. j < length x \<Longrightarrow> j \<noteq> i \<Longrightarrow> x ! j = y ! j"
  shows "examine y = Bogus"
proof -
  note ax = examine_Accept_crc [OF acc]
  have sub: "i < a \<or> a + k \<le> i \<Longrightarrow> take k (drop a x) = take k (drop a y)" for a k
    by (rule take_one_index [where i = i]) (use len same in auto)
  let ?p = "length (fr_payload f)"
  have plen: "fmt_dec FI (take 4 (drop 12 y)) = int ?p"
    using ax(3) sub [of 12 4] i by (auto simp: not_less not_le)
  show ?thesis
  proof (cases "examine y")
    case Bogus
    then show ?thesis .
  next
    case Incomplete
    have "unpack_fields HEADER (take 16 y) ! 5 = fmt_dec FI (take 4 (drop 12 y))"
      using ax(1,2) len by (simp add: HEADER_def numeral_eq_Suc drop_take)
    with Incomplete plen ax(1,2) len examine_AcceptD(3) [OF acc] show ?thesis
      by (auto simp: examine_def Let_def split: if_splits)
  next
    case (Accept g m)
    note ay = examine_Accept_crc [OF Accept]
    have p: "length (fr_payload g) = ?p" using ay(3) plen by simp
    show ?thesis
    proof (cases "i < 16 + ?p")
      case True
      then have "take 4 (drop (16 + ?p) x) = take 4 (drop (16 + ?p) y)" by (intro sub) simp
      then have "fmt_enc FI (crc32 (take (16 + ?p) x)) = fmt_enc FI (crc32 (take (16 + ?p) y))"
        using ax(4) ay(4) p by simp
      then have "crc32 (take (16 + ?p) x) = crc32 (take (16 + ?p) y)"
        by (metis zlib.crc_trailer)
      moreover have "crc32 (take (16 + ?p) x) \<noteq> crc32 (take (16 + ?p) y)"
        by (rule zlib.one_index [where i = i]) (use True len ax(1,2) diff same in auto)
      ultimately show ?thesis by blast
    next
      case False
      then have "take (16 + ?p) x = take (16 + ?p) y" using sub [of 0 "16 + ?p"] by simp
      with ax(4) ay(4) p have "take 4 (drop (16 + ?p) x) = take 4 (drop (16 + ?p) y)" by simp
      moreover have "take 4 (drop (16 + ?p) x) ! (i - (16 + ?p)) = x ! i"
        "take 4 (drop (16 + ?p) y) ! (i - (16 + ?p)) = y ! i"
        using False i(1) ax(1,2) len by simp_all
      ultimately show ?thesis using diff by simp
    qed
  qed
qed

lemma try_parse_at_magic:
  "prefix MAGIC_BYTES (rx_buf s) \<Longrightarrow>
    try_parse s = (case examine (rx_buf s) of Incomplete \<Rightarrow> (None, s) | Bogus \<Rightarrow> try_parse (resync s)
                   | Accept f n \<Rightarrow> (Some f, s\<lparr>rx_buf := drop n (rx_buf s)\<rparr>))"
  using find_sub_intro [of MAGIC_BYTES 0 "rx_buf s"]
  by (simp add: try_parse.simps [of s] Let_def split: candidate.split)

section \<open>Properties\<close>

lemma harvest_lines_Nil [simp]: "harvest_lines [] = []"
  by (simp add: harvest_lines_def ascii_replace_def py_strip_def)

text \<open>C1. A frame that \<open>build_frame\<close> produced, with a payload within the cap, is delivered with its
  command, sequence, flags and payload even when other output precedes it on the line: the parser
  returns it, keeps exactly what follows it, counts no resynchronisation, and moves the preceding
  bytes to the text log.\<close>

theorem frame_delivered:
  assumes "build_frame command sequence payload flags = Inr w" and "length payload \<le> MAX_PAYLOAD"
    and "rx_buf s = g @ w @ rest" and "find_sub MAGIC_BYTES (g @ w @ rest) = Some (length g)"
  shows "\<exists>s'. try_parse s = (Some (built_frame command sequence payload flags), s')
    \<and> rx_buf s' = rest \<and> rx_resyncs s' = rx_resyncs s
    \<and> rx_text_log s' = rx_text_log s @ harvest_lines g"
proof -
  note b = build_frame_examine [OF assms(1,2)]
  show ?thesis
    using assms(3,4) b(1) [of rest]
    by (simp add: try_parse.simps [of s] discard_def harvest_text_def)
qed

theorem frame_delivered_witness:
  "\<exists>w (s :: rx) s'. build_frame 0x81 7 [1, 2] 0 = Inr w \<and> rx_buf s = [72, 105, 10] @ w \<and>
     try_parse s = (Some (built_frame 0x81 7 [1, 2] 0), s') \<and> rx_text_log s' = [[72, 105]]"
proof -
  obtain w where w: "build_frame 0x81 7 [1, 2] 0 = Inr w"
    using build_frame_ok_iff [of "0x81" 7 "[1, 2]" 0] by auto
  have pre: "prefix MAGIC_BYTES w"
    using build_frame_examine(2) [OF w, of "[]"] by (simp add: MAX_PAYLOAD_def)
  let ?s = "\<lparr>rx_buf = [72, 105, 10] @ w @ [], rx_text_log = [], rx_resyncs = 0\<rparr>"
  have f: "find_sub MAGIC_BYTES ([72, 105, 10] @ w @ []) = Some (length [72, 105, 10 :: byte])"
    using pre by (cases w) (auto simp: MAGIC_BYTES_eq)
  have h: "harvest_lines [72, 105, 10] = [[72, 105]]"
    by (simp add: harvest_lines_def ascii_replace_def py_strip_def is_space_def)
  from frame_delivered [OF w _ _ f, of ?s] obtain s' where
    "try_parse ?s = (Some (built_frame 0x81 7 [1, 2] 0), s')"
    "rx_text_log s' = harvest_lines [72, 105, 10]"
    by (auto simp: MAX_PAYLOAD_def)
  with w h show ?thesis by (intro exI [of _ w] exI [of _ ?s] exI [of _ s']) simp
qed

text \<open>C2. The receive loop refines the byte-at-a-time scanner: same frame, same bytes kept for the next
  read, and the resynchronisation counter grows by the number of refused candidates.\<close>

theorem receive_refines_scanner:
  "scan (rx_buf s) = (fst (try_parse s), rx_buf (snd (try_parse s)), rx_resyncs (snd (try_parse s)) - rx_resyncs s)"
  by (cases "try_parse s") (simp add: try_parse_scan)

text \<open>C3. The frames the link delivers, and the bytes it keeps, depend on the received byte stream only,
  not on how the serial reads cut it into chunks.\<close>

theorem chunking_irrelevant:
  assumes "feeds parse_bytes [] cs fs l" and "feeds parse_bytes [] ds gs m" and "concat cs = concat ds"
  shows "fs = gs \<and> l = m"
  using assms by (rule rxp.chunking)

theorem chunking_irrelevant_witness:
  "\<exists>w fs l gs m. build_frame 0x81 7 [1, 2] 0 = Inr w
     \<and> feeds parse_bytes [] [take 5 w, drop 5 w] fs l \<and> feeds parse_bytes [] [w] gs m \<and> fs = gs \<and> l = m"
proof -
  obtain w where w: "build_frame 0x81 7 [1, 2] 0 = Inr w"
    using build_frame_ok_iff [of "0x81" 7 "[1, 2]" 0] by auto
  obtain fs l where a: "feeds parse_bytes [] [take 5 w, drop 5 w] fs l" using rxp.feeds_total by blast
  obtain gs m where b: "feeds parse_bytes [] [w] gs m" using rxp.feeds_total by blast
  from chunking_irrelevant [OF a b] w a b show ?thesis by auto
qed

text \<open>C4. Nothing is delivered that was not on the line: a delivered frame's bytes stand in the buffer,
  right before the bytes that are kept, with a payload within the cap; and a frame of the host's own
  protocol version is byte for byte what \<open>build_frame\<close> makes of its fields.\<close>

theorem delivered_frame_authentic:
  assumes "try_parse s = (Some f, s')"
  shows "\<exists>g w. rx_buf s = g @ w @ rx_buf s' \<and> length w = 20 + length (fr_payload f)
    \<and> length (fr_payload f) \<le> MAX_PAYLOAD
    \<and> (fr_version f = VERSION \<longrightarrow>
         build_frame (fr_command f) (fr_sequence f) (fr_payload f) (fr_flags f) = Inr w)"
proof -
  from scan_Some [OF try_parse_scan [OF assms]] obtain g w where
    b: "rx_buf s = g @ w @ rx_buf s'" and pre: "prefix MAGIC_BYTES w" and ex: "examine w = Accept f (length w)"
    by blast
  note acc = examine_AcceptD [OF ex]
  have "unpack_fields HEADER (take 16 w) ! 0 = fmt_dec FI (take 4 w)"
    using acc(1) by (simp add: HEADER_def)
  also have "take 4 w = MAGIC_BYTES"
    using pre by (auto simp: MAGIC_BYTES_eq prefix_def)
  finally have m: "unpack_fields HEADER (take 16 w) ! 0 = MAGIC"
    by (simp add: MAGIC_BYTES_def MAGIC_def fmt_dec_enc)
  have "struct_pack HEADER (unpack_fields HEADER (take 16 w)) = Inr (take 16 w)"
    using acc(1) by (intro pack_unpack) simp
  then have hdr: "struct_pack HEADER [MAGIC, fr_version f, fr_command f, fr_flags f, fr_sequence f,
      int (length (fr_payload f))] = Inr (take 16 w)"
    using acc(4) m by simp
  have "fr_version f = VERSION \<Longrightarrow>
      build_frame (fr_command f) (fr_sequence f) (fr_payload f) (fr_flags f) = Inr w"
    using hdr acc(5) zlib.crc_range by (simp add: build_frame_def Let_def)
  with b acc(1,3) show ?thesis by auto
qed

theorem delivered_frame_authentic_witness:
  "\<exists>g v s'. try_parse \<lparr>rx_buf = projr (build_frame 0x81 7 [1, 2] 0), rx_text_log = [], rx_resyncs = 0\<rparr>
        = (Some (built_frame 0x81 7 [1, 2] 0), s')
     \<and> projr (build_frame 0x81 7 [1, 2] 0) = g @ v @ rx_buf s' \<and> length v = 22"
proof -
  obtain w where w: "build_frame 0x81 7 [1, 2] 0 = Inr w"
    using build_frame_ok_iff [of "0x81" 7 "[1, 2]" 0] by auto
  let ?s = "\<lparr>rx_buf = w, rx_text_log = [], rx_resyncs = 0\<rparr>"
  have "try_parse ?s = (Some (built_frame 0x81 7 [1, 2] 0), ?s\<lparr>rx_buf := []\<rparr>)"
    using build_frame_examine(1,2) [OF w, of "[]"] build_frame_examine(3) [OF w] by (simp add: try_parse_at_magic MAX_PAYLOAD_def)
  from delivered_frame_authentic [OF this] this w show ?thesis
    by (auto simp: built_frame_def)
qed

text \<open>Between two reads the receive buffer is bounded: what the parser keeps while it waits is a suffix
  of what was there, shorter than the largest frame.\<close>

theorem receive_buffer_bounded:
  assumes "try_parse s = (None, s')"
  shows "suffix (rx_buf s') (rx_buf s) \<and> length (rx_buf s') < 4116"
  using scan_None [OF try_parse_scan [OF assms]] by (simp add: MAX_PAYLOAD_def)

theorem receive_buffer_bounded_witness:
  "\<exists>(s :: rx) s'. try_parse s = (None, s') \<and> rx_buf s = [1, 2, 3, 0x4E, 0x55] \<and> rx_buf s' = [3, 0x4E, 0x55]
     \<and> length (rx_buf s') < 4116"
proof -
  let ?s = "\<lparr>rx_buf = [1, 2, 3, 0x4E, 0x55], rx_text_log = [], rx_resyncs = 0\<rparr>"
  have t: "try_parse ?s = (None, discard 2 ?s)"
    by (simp add: try_parse.simps [of ?s] MAGIC_BYTES_eq) (simp add: numeral_2_eq_2)
  from receive_buffer_bounded [OF t] t show ?thesis
    by (intro exI [of _ ?s] exI [of _ "discard 2 ?s"]) simp
qed

text \<open>C5. A frame with one byte changed on the line (any byte but the magic and the length field) is never
  taken: the parser steps past its first byte and counts a resynchronisation.\<close>

theorem corrupted_frame_refused:
  assumes "build_frame command sequence payload flags = Inr w" and "length payload \<le> MAX_PAYLOAD"
    and "4 \<le> i" and "i < length w" and "\<not> (12 \<le> i \<and> i < 16)" and "b \<noteq> w ! i"
    and "rx_buf s = w[i := b] @ rest"
  shows "try_parse s = try_parse (resync s)"
proof -
  note e = build_frame_examine [OF assms(1,2)]
  have "examine (rx_buf s) = Bogus"
    by (rule examine_one_byte [OF e(1) [of rest], where i = i])
      (use assms(4-7) in \<open>auto simp: nth_append nth_list_update\<close>)
  moreover have "prefix MAGIC_BYTES (rx_buf s)"
  proof -
    have "take 4 (w[i := b]) = take 4 w" using assms(3) by simp
    moreover have "take 4 w = MAGIC_BYTES"
      using e(2) [of "[]"] by (auto simp: MAGIC_BYTES_eq prefix_def)
    ultimately show ?thesis
      using assms(7) by (metis append_prefixD take_is_prefix prefix_prefix)
  qed
  ultimately show ?thesis by (simp add: try_parse_at_magic)
qed

theorem corrupted_frame_refused_witness:
  "\<exists>w (s :: rx). build_frame 0x81 7 [1, 2] 0 = Inr w \<and> rx_buf s = w[16 := 9] \<and> w ! 16 = 1
     \<and> try_parse s = try_parse (resync s)"
proof -
  obtain w where w: "build_frame 0x81 7 [1, 2] 0 = Inr w"
    using build_frame_ok_iff [of "0x81" 7 "[1, 2]" 0] by auto
  from build_frame_parts [OF w] obtain hdr where hdr: "length hdr = 16"
    "w = hdr @ [1, 2] @ fmt_enc FI (crc32 (hdr @ [1, 2]))" by metis
  then have "w ! 16 = 1" "length w = 22" by (simp_all add: nth_append)
  let ?s = "\<lparr>rx_buf = w[16 := 9] @ [], rx_text_log = [], rx_resyncs = 0\<rparr>"
  from corrupted_frame_refused [OF w, of 16 9 ?s "[]"] \<open>w ! 16 = 1\<close> \<open>length w = 22\<close> w show ?thesis
    by (intro exI [of _ w] exI [of _ ?s]) (simp add: MAX_PAYLOAD_def)
qed

end
