(* ===== verification/Measurement.thy ===== *)
theory Measurement
  imports Crc32
begin

text \<open>
  The RUN_COMPLETE measurement record of \<open>host/lib/runner_proto.py\<close>: \<open>decode_pmu_block\<close>,
  \<open>measurement_payload_crc\<close>, \<open>parse_measurement_payload\<close> and \<open>Measurement.required_flags_ok\<close>.

  A payload is a run of 32-bit words. \<open>seal_payload\<close> writes the format down as the specification: it
  is what the parser is proved to accept, and the only thing.
\<close>

section \<open>Constants\<close>

definition RME_MAGIC :: int where "RME_MAGIC = 0x524D4531"

definition RME_ABI_VERSION :: int where "RME_ABI_VERSION = 1"

definition RME_HEADER_WORDS_V1 :: nat where "RME_HEADER_WORDS_V1 = 8"

definition RME_KNOWN_FIELDS_V1 :: nat where "RME_KNOWN_FIELDS_V1 = 47"

definition RME_MIN_WORDS_V1 :: nat where
  "RME_MIN_WORDS_V1 = RME_HEADER_WORDS_V1 + RME_KNOWN_FIELDS_V1"

definition RME_MAX_WORDS :: nat where "RME_MAX_WORDS = 4096 div 4"

definition RME_PMU_FIELDS_V1 :: nat where "RME_PMU_FIELDS_V1 = 55"

definition RME_PMU_TOTAL_WORDS :: nat where
  "RME_PMU_TOTAL_WORDS = RME_HEADER_WORDS_V1 + RME_KNOWN_FIELDS_V1 + RME_PMU_FIELDS_V1"

definition NPU_PMU_CYCLE_WIDTH_BITS :: nat where "NPU_PMU_CYCLE_WIDTH_BITS = 48"

definition NPU_PMU_ABI_EVENT_SLOTS :: nat where "NPU_PMU_ABI_EVENT_SLOTS = 8"

definition PMU_SCALARS_A :: "string list" where
  "PMU_SCALARS_A =
    [''record_schema_version'', ''instrumentation_mode_requested'',
     ''instrumentation_mode_applied'', ''event_set_id'', ''configuration_sequence'',
     ''npu_pmu_present'', ''pmu_probe_performed'', ''hw_event_counter_count'',
     ''expected_hw_event_counter_count'', ''abi_event_slot_count'',
     ''effective_event_slot_count'', ''requested_event_count'',
     ''applied_event_count'', ''event_valid_mask'', ''event_overflow_mask'']"

definition PMU_SCALARS_B :: "string list" where
  "PMU_SCALARS_B =
    [''npu_pmu_window_cycles_lo'', ''npu_pmu_window_cycles_hi'',
     ''npu_pmu_cycle_valid'', ''npu_pmu_cycle_overflow'',
     ''npu_pmu_cycle_read_retry_count'', ''pmu_sample_valid'',
     ''completion_wait_mode'', ''t_pmu_enable'', ''t_inference_call_enter'',
     ''t_inference_call_return'', ''t_pmu_disable'', ''t_pmu_programming'',
     ''cpu_call_window_cycles'', ''cpu_return_to_pmu_disable_cycles'',
     ''t_result_processing'', ''pmu_mmio_read_count_total'',
     ''pmu_mmio_write_count_total'', ''pmu_mmio_read_count_delta'',
     ''pmu_mmio_write_count_delta'', ''pmcr_at_disable'',
     ''cycle_counter_armed'', ''cycle_global_enable_verified'',
     ''cycle_read_stable'', ''cycle_progress_observed'']"

section \<open>The PMU block\<close>

text \<open>The dictionary \<open>decode_pmu_block\<close> returns: its integer entries by name, its list entries as fields.\<close>

record pmu_block =
  pm_scalars :: "string \<rightharpoonup> int"
  pm_event_codes :: "int option list"
  pm_event_values :: "int option list"
  pm_event_overflow :: "bool option list"
  pm_window_cycles_raw :: int
  pm_window_cycles :: "int option"

text \<open>The loops over the name lists fill the dictionary from the words before and after the two slot
  arrays. \<open>(mask >> n) & 1\<close> is \<open>drop_bit n mask AND 1\<close>.\<close>

definition slot_set :: "int \<Rightarrow> nat \<Rightarrow> bool" where
  "slot_set v n \<longleftrightarrow> drop_bit n v AND 1 \<noteq> 0"

definition decode_pmu_block :: "int list \<Rightarrow> exn + pmu_block" where
  "decode_pmu_block words =
     (if length words < RME_PMU_FIELDS_V1 then Inl (ProtocolError PmuBlockShort)
      else
        let i1 = length PMU_SCALARS_A;
            codes = take NPU_PMU_ABI_EVENT_SLOTS (drop i1 words);
            i2 = i1 + NPU_PMU_ABI_EVENT_SLOTS;
            evals = take NPU_PMU_ABI_EVENT_SLOTS (drop i2 words);
            i3 = i2 + NPU_PMU_ABI_EVENT_SLOTS;
            out = map_of (zip PMU_SCALARS_A words @ zip PMU_SCALARS_B (drop i3 words));
            vmask = the (out ''event_valid_mask'');
            ovf = the (out ''event_overflow_mask'');
            raw = (the (out ''npu_pmu_window_cycles_lo'')
                   OR push_bit 32 (the (out ''npu_pmu_window_cycles_hi'') AND 0xFFFF))
                  AND (push_bit NPU_PMU_CYCLE_WIDTH_BITS 1 - 1)
        in Inr \<lparr>pm_scalars = out,
                pm_event_codes = map (\<lambda>n. if slot_set vmask n then Some (codes ! n) else None)
                                     [0..<NPU_PMU_ABI_EVENT_SLOTS],
                pm_event_values = map (\<lambda>n. if slot_set vmask n then Some (evals ! n) else None)
                                      [0..<NPU_PMU_ABI_EVENT_SLOTS],
                pm_event_overflow = map (\<lambda>n. if slot_set vmask n then Some (slot_set ovf n) else None)
                                        [0..<NPU_PMU_ABI_EVENT_SLOTS],
                pm_window_cycles_raw = raw,
                pm_window_cycles = (if the (out ''npu_pmu_cycle_valid'') \<noteq> 0 then Some raw else None)\<rparr>)"

section \<open>The payload\<close>

definition RUN_VALID_REQUIRED_MASK :: int where
  "RUN_VALID_REQUIRED_MASK = ((0x01 OR 0x02) OR 0x04) OR 0x08"

definition measurement_payload_crc :: "bytes \<Rightarrow> int \<Rightarrow> exn + int" where
  "measurement_payload_crc payload total_words =
     (let total_bytes = total_words * 4 in
      if int (length payload) \<noteq> total_bytes
      then Inl (ProtocolError (LengthMismatch total_bytes (int (length payload))))
      else if total_bytes < int (RME_HEADER_WORDS_V1 * 4) then Inl (ProtocolError ShorterThanHeader)
      else Inr (crc32 (py_slice 16 28 payload @ py_slice 32 (nat total_bytes) payload)))"

record measurement =
  me_run_sequence :: int
  me_valid_flags :: int
  me_run_rc :: int
  me_fields :: "int list"
  me_trailing_words :: int
  me_pmu :: "pmu_block option"
  me_trailing :: "int list"

definition required_flags_ok :: "measurement \<Rightarrow> bool" where
  "required_flags_ok m \<longleftrightarrow> me_valid_flags m AND RUN_VALID_REQUIRED_MASK = RUN_VALID_REQUIRED_MASK"

definition parse_measurement_payload :: "bytes \<Rightarrow> exn + measurement" where
  "parse_measurement_payload payload =
     (if length payload < RME_HEADER_WORDS_V1 * 4 then Inl (ProtocolError TooShortForHeader)
      else bind_res (struct_unpack_from (replicate 8 FI) payload 0) (\<lambda>h.
        let magic = h ! 0; version = h ! 1; total_words = h ! 2; header_words = h ! 3;
            seq = h ! 4; flags = h ! 5; rc = h ! 6; crc = h ! 7 in
        if magic \<noteq> RME_MAGIC then Inl (ProtocolError (BadMagic magic))
        else if version \<noteq> RME_ABI_VERSION then Inl (ProtocolError (BadAbiVersion version))
        else if header_words \<noteq> int RME_HEADER_WORDS_V1 then Inl (ProtocolError (BadHeaderWords header_words))
        else if total_words < int RME_MIN_WORDS_V1 then Inl (ProtocolError (BelowMinimum total_words))
        else if total_words > int RME_MAX_WORDS then Inl (ProtocolError (ExceedsCap total_words))
        else if total_words * 4 \<noteq> int (length payload)
          then Inl (ProtocolError (DeclaredMismatch (total_words * 4) (int (length payload))))
        else bind_res (measurement_payload_crc payload total_words) (\<lambda>c.
          if c \<noteq> crc then Inl (ProtocolError CrcMismatch)
          else bind_res (struct_unpack_from (replicate (nat (total_words - header_words)) FI) payload
                           (nat header_words * 4)) (\<lambda>body.
            bind_res (if total_words \<ge> int RME_PMU_TOTAL_WORDS
                      then bind_res (decode_pmu_block (drop RME_KNOWN_FIELDS_V1 body)) (\<lambda>p. Inr (Some p))
                      else Inr None) (\<lambda>pmu.
              Inr \<lparr>me_run_sequence = seq, me_valid_flags = flags, me_run_rc = rc,
                   me_fields = take RME_KNOWN_FIELDS_V1 body,
                   me_trailing_words = int (length body) - int RME_KNOWN_FIELDS_V1,
                   me_pmu = pmu,
                   me_trailing = drop (RME_KNOWN_FIELDS_V1 + RME_PMU_FIELDS_V1) body\<rparr>)))))"

lemmas rme_defs [simp] =
  RME_HEADER_WORDS_V1_def RME_KNOWN_FIELDS_V1_def RME_MIN_WORDS_V1_def RME_MAX_WORDS_def
  RME_PMU_FIELDS_V1_def RME_PMU_TOTAL_WORDS_def NPU_PMU_ABI_EVENT_SLOTS_def RME_ABI_VERSION_def

section \<open>The specification of the payload\<close>

text \<open>The record as the firmware is to send it: eight header words, of which word 7 is the checksum of
  words 4 to 6 and of everything after the header; then the fields.\<close>

definition seal_payload :: "int \<Rightarrow> int \<Rightarrow> int \<Rightarrow> int list \<Rightarrow> bytes" where
  "seal_payload seq flags rc body =
     enc_words ([RME_MAGIC, 1, 8 + int (length body), 8, seq, flags, rc,
                 crc32 (enc_words [seq, flags, rc] @ enc_words body)] @ body)"

definition measurement_of :: "int \<Rightarrow> int \<Rightarrow> int \<Rightarrow> int list \<Rightarrow> measurement" where
  "measurement_of seq flags rc body =
     \<lparr>me_run_sequence = seq, me_valid_flags = flags, me_run_rc = rc,
      me_fields = take 47 body, me_trailing_words = int (length body) - 47,
      me_pmu = (if 102 \<le> length body then Some (projr (decode_pmu_block (drop 47 body))) else None),
      me_trailing = drop 102 body\<rparr>"

section \<open>The parser on words\<close>

lemma map_of_scalars:
  "length PMU_SCALARS_A = 15" "length PMU_SCALARS_B = 24" "distinct (PMU_SCALARS_A @ PMU_SCALARS_B)"
  by (simp_all add: PMU_SCALARS_A_def PMU_SCALARS_B_def)

lemma slot_set_bit: "slot_set v n \<longleftrightarrow> bit v n"
  by (simp add: slot_set_def bit_iff_odd_drop_bit and_one_eq odd_iff_mod_2_eq_one)

lemma decode_pmu_block_total: "55 \<le> length ws \<Longrightarrow> \<exists>p. decode_pmu_block ws = Inr p"
  by (simp add: decode_pmu_block_def Let_def)

lemma payload_crc_words:
  assumes "8 \<le> length ws"
  shows "measurement_payload_crc (enc_words ws) (int (length ws))
    = Inr (crc32 (enc_words (take 3 (drop 4 ws)) @ enc_words (drop 8 ws)))"
proof -
  have "py_slice 16 28 (enc_words ws) = enc_words (take 3 (drop 4 ws))"
    using py_slice_enc_words [of 4 7 ws] by simp
  moreover have "py_slice 32 (4 * length ws) (enc_words ws) = enc_words (drop 8 ws)"
    using py_slice_enc_words [of 8 "length ws" ws] by simp
  ultimately show ?thesis using assms
    by (simp add: measurement_payload_crc_def nat_mult_distrib mult.commute [of _ 4])
qed

text \<open>A parsed payload is a run of words that satisfies every check.\<close>

lemma parse_words:
  assumes ok: "words_ok ws" and len: "8 \<le> length ws"
  defines "body \<equiv> drop 8 ws"
  shows "parse_measurement_payload (enc_words ws) =
    (if ws ! 0 \<noteq> RME_MAGIC then Inl (ProtocolError (BadMagic (ws ! 0)))
     else if ws ! 1 \<noteq> 1 then Inl (ProtocolError (BadAbiVersion (ws ! 1)))
     else if ws ! 3 \<noteq> 8 then Inl (ProtocolError (BadHeaderWords (ws ! 3)))
     else if ws ! 2 < 55 then Inl (ProtocolError (BelowMinimum (ws ! 2)))
     else if ws ! 2 > 1024 then Inl (ProtocolError (ExceedsCap (ws ! 2)))
     else if ws ! 2 \<noteq> int (length ws) then Inl (ProtocolError (DeclaredMismatch (ws ! 2 * 4) (4 * int (length ws))))
     else if crc32 (enc_words (take 3 (drop 4 ws)) @ enc_words body) \<noteq> ws ! 7 then Inl (ProtocolError CrcMismatch)
     else Inr (measurement_of (ws ! 4) (ws ! 5) (ws ! 6) body))"
proof -
  have h: "dec_words 8 (enc_words ws) ! i = ws ! i" if "i < 8" for i
  proof -
    have "dec_words (8 + (length ws - 8)) (enc_words ws) = ws"
      using dec_enc_words [OF ok, of "length ws" "[]"] len by simp
    then have "dec_words 8 (enc_words ws) @ dec_words (length ws - 8) (drop (4 * 8) (enc_words ws)) = ws"
      by (simp only: dec_words_split)
    then show ?thesis using that by (metis length_replicate length_unpack_fields nth_append)
  qed
  have b: "dec_words (length ws - 8) (drop 32 (enc_words ws)) = body"
    using drop_enc_words [of 8 ws] dec_enc_words [of body "length ws - 8" "[]"] words_ok_take_drop(2) [OF ok]
    by (simp add: body_def)
  have pmu: "decode_pmu_block (drop 47 body) = Inr (projr (decode_pmu_block (drop 47 body)))"
    if "102 \<le> length body"
  proof -
    from that have "55 \<le> length (drop 47 body)" by simp
    with decode_pmu_block_total show ?thesis by (metis sum.sel(2))
  qed
  have lens: "32 + (length ws - 8) * 4 = 4 * length ws" "110 \<le> length ws \<longleftrightarrow> 102 \<le> length body"
    using len by (auto simp: body_def)
  show ?thesis
    unfolding parse_measurement_payload_def struct_unpack_from_def
    using len b pmu lens payload_crc_words [OF len]
    by (simp add: h Let_def body_def [symmetric] measurement_of_def nat_diff_distrib del: replicate.simps)
qed

lemma seal_payload_words:
  "seal_payload seq flags rc body = enc_words ([RME_MAGIC, 1, int (8 + length body), 8, seq, flags, rc,
     crc32 (enc_words [seq, flags, rc] @ enc_words body)] @ body)"
  by (simp add: seal_payload_def)

lemma parse_seal:
  assumes "words_ok ([seq, flags, rc] @ body)" "47 \<le> length body" "length body \<le> 1016"
  shows "parse_measurement_payload (seal_payload seq flags rc body) = Inr (measurement_of seq flags rc body)"
proof -
  let ?c = "crc32 (enc_words [seq, flags, rc] @ enc_words body)"
  let ?ws = "[RME_MAGIC, 1, int (8 + length body), 8, seq, flags, rc, ?c] @ body"
  have "words_ok ?ws"
    using assms zlib.crc_range [of "enc_words [seq, flags, rc] @ enc_words body"] by (simp add: RME_MAGIC_def)
  from parse_words [OF this] assms(2,3) show ?thesis
    unfolding seal_payload_words by (simp del: enc_words_simps add: numeral_eq_Suc)
qed

lemma split8:
  "8 \<le> length ws \<Longrightarrow> ws = [ws ! 0, ws ! 1, ws ! 2, ws ! 3, ws ! 4, ws ! 5, ws ! 6, ws ! 7] @ drop 8 ws"
  by (auto simp: numeral_eq_Suc Suc_le_length_iff)

lemma mid3: "8 \<le> length ws \<Longrightarrow> take 3 (drop 4 ws) = [ws ! 4, ws ! 5, ws ! 6]"
  by (auto simp: numeral_eq_Suc Suc_le_length_iff)

lemma parse_InrD:
  assumes "parse_measurement_payload p = Inr m"
  obtains seq flags rc body where "words_ok ([seq, flags, rc] @ body)" "47 \<le> length body"
    "length body \<le> 1016" "p = seal_payload seq flags rc body" "m = measurement_of seq flags rc body"
proof -
  from assms have l8: "32 \<le> length p" and "\<exists>t. t * 4 = int (length p)"
    by (auto simp: parse_measurement_payload_def Let_def split: if_splits)
  then obtain t where "t * 4 = int (length p)" by blast
  then have "4 * nat t = length p" by linarith
  then obtain n where n: "4 * n = length p" by blast
  define ws where "ws = dec_words n p"
  have ws: "words_ok ws" "enc_words ws = p" "length ws = n" "8 \<le> length ws"
    using n l8 dec_words_ok [of n p] enc_dec_words [of n p] by (simp_all add: ws_def)
  from parse_words [OF ws(1,4)] assms ws(2)
  have c: "ws ! 0 = RME_MAGIC" "ws ! 1 = 1" "ws ! 3 = 8" "55 \<le> ws ! 2" "ws ! 2 \<le> 1024"
    "ws ! 2 = int (length ws)"
    "crc32 (enc_words (take 3 (drop 4 ws)) @ enc_words (drop 8 ws)) = ws ! 7"
    "m = measurement_of (ws ! 4) (ws ! 5) (ws ! 6) (drop 8 ws)"
    by (auto split: if_splits)
  have split: "ws = [ws ! 0, ws ! 1, ws ! 2, ws ! 3, ws ! 4, ws ! 5, ws ! 6, ws ! 7] @ drop 8 ws"
    using ws(4) by (rule split8)
  have mid: "take 3 (drop 4 ws) = [ws ! 4, ws ! 5, ws ! 6]"
    using ws(4) by (rule mid3)
  have "words_ok ([ws ! 4, ws ! 5, ws ! 6] @ drop 8 ws)"
    using ws(1) split by (metis words_ok_simps(2,3))
  moreover have "p = seal_payload (ws ! 4) (ws ! 5) (ws ! 6) (drop 8 ws)"
    unfolding seal_payload_words ws(2) [symmetric] using split c ws(4) mid
    by (metis (no_types, lifting) add_diff_inverse_nat length_drop not_less)
  ultimately show ?thesis using c by (intro that) simp_all
qed

lemma parse_Inl_ProtocolError:
  "parse_measurement_payload p = Inl e \<Longrightarrow> \<exists>pe. e = ProtocolError pe"
  by (auto simp: parse_measurement_payload_def measurement_payload_crc_def struct_unpack_from_def
        Let_def bind_res_eq_Inl decode_pmu_block_def split: if_splits)

text \<open>The bytes of an accepted payload: the fixed words, the data of the checksum in two pieces with the
  checksum between them.\<close>

definition sealed :: "bytes \<Rightarrow> bool" where
  "sealed p \<longleftrightarrow> (\<exists>n d1 d2. length d1 = 12 \<and> length p = 32 + length d2 \<and> int (length p) = n * 4 \<and>
     p = enc_words [RME_MAGIC, 1, n, 8] @ d1 @ enc_words [crc32 (d1 @ d2)] @ d2)"

lemma parse_sealed:
  assumes "parse_measurement_payload p = Inr m"
  shows "sealed p"
proof -
  from assms obtain seq flags rc body where p: "p = seal_payload seq flags rc body"
    by (rule parse_InrD)
  then show ?thesis unfolding sealed_def
    by (intro exI [of _ "8 + int (length body)"] exI [of _ "enc_words [seq, flags, rc]"]
        exI [of _ "enc_words body"]) (simp add: seal_payload_def)
qed

lemma enc_word_inj:
  "0 \<le> x \<Longrightarrow> x < 4294967296 \<Longrightarrow> 0 \<le> y \<Longrightarrow> y < 4294967296 \<Longrightarrow> enc_words [x] = enc_words [y] \<Longrightarrow> x = y"
  using dec_enc_words [of "[x]" 1 "[]"] dec_enc_words [of "[y]" 1 "[]"] by simp

lemma crc_word_inj: "enc_words [crc32 a] = enc_words [crc32 b] \<Longrightarrow> crc32 a = crc32 b"
  using zlib.crc_range [of a] zlib.crc_range [of b] by (intro enc_word_inj) simp_all

lemma sealed_update:
  assumes s: "sealed p" and s': "sealed (p[i := b])" and i: "i < length p"
  shows "b = p ! i"
proof -
  from s obtain n d1 d2 where d: "length d1 = 12" "length p = 32 + length d2" "int (length p) = n * 4"
    "p = enc_words [RME_MAGIC, 1, n, 8] @ d1 @ enc_words [crc32 (d1 @ d2)] @ d2"
    unfolding sealed_def by blast
  from s' obtain n' e1 e2 where e: "length e1 = 12" "length p = 32 + length e2" "int (length p) = n' * 4"
    "p[i := b] = enc_words [RME_MAGIC, 1, n', 8] @ e1 @ enc_words [crc32 (e1 @ e2)] @ e2"
    unfolding sealed_def by auto
  from d(3) e(3) have n: "n' = n" by simp
  define h where "h = enc_words [RME_MAGIC, 1, n, 8]"
  define c where "c = enc_words [crc32 (d1 @ d2)]"
  define c' where "c' = enc_words [crc32 (e1 @ e2)]"
  have l: "length h = 16" "length c = 4" "length c' = 4" "length e2 = length d2"
    using d(2) e(2) by (simp_all add: h_def c_def c'_def)
  have p: "p = h @ d1 @ c @ d2" and p': "p[i := b] = h @ e1 @ c' @ e2"
    using d(4) e(4) n by (simp_all only: h_def c_def c'_def)
  have one: "xs[j := b] = ys \<Longrightarrow> j < length xs \<Longrightarrow> crc32 (us @ xs @ vs) = crc32 (us @ ys @ vs)
      \<Longrightarrow> b = xs ! j" for xs ys us vs j
    using zlib.one_byte [of "xs ! j" b "us @ take j xs" "drop (Suc j) xs @ vs"]
    by (metis append.assoc append_Cons id_take_nth_drop upd_conv_take_nth_drop)
  have lc: "c = c' \<Longrightarrow> crc32 (d1 @ d2) = crc32 (e1 @ e2)"
    unfolding c_def c'_def by (rule crc_word_inj)
  consider "i < 16" | "16 \<le> i" "i < 28" | "28 \<le> i" "i < 32" | "32 \<le> i" by linarith
  then show ?thesis
  proof cases
    case 1
    then have "h[i := b] = h"
      using p' l d(1) e(1) unfolding p by (simp add: list_update_append)
    then show ?thesis using 1 l p by (metis nth_append nth_list_update_eq)
  next
    case 2
    then have ar: "i - 16 < 12" by linarith
    with 2 have "d1[i - 16 := b] = e1 \<and> c = c' \<and> d2 = e2"
      using p' l d(1) e(1) unfolding p by (simp add: list_update_append)
    then have "b = d1 ! (i - 16)"
      using one [of d1 "i - 16" e1 "[]" d2] lc 2 d(1) by simp
    then show ?thesis using 2 ar l d(1) p by (simp add: nth_append)
  next
    case 3
    then have ar: "\<not> i - 16 < 12" "i - 16 - 12 < 4" "i - 16 - 12 = i - 28" by linarith+
    with ar 3 have "c[i - 28 := b] = c' \<and> d1 = e1 \<and> d2 = e2"
      using p' l d(1) e(1) unfolding p by (simp add: list_update_append)
    then have "c[i - 28 := b] = c" unfolding c_def c'_def by metis
    then have "b = c ! (i - 28)" using ar l by (metis nth_list_update_eq)
    then show ?thesis using 3 ar l d(1) p by (simp add: nth_append)
  next
    case 4
    then have ar: "\<not> i - 16 < 12" "\<not> i - 16 - 12 < 4" "i - 16 - 12 - 4 = i - 32" by linarith+
    with ar 4 have "d2[i - 32 := b] = e2 \<and> d1 = e1 \<and> c = c'"
      using p' l d(1) e(1) unfolding p by (simp add: list_update_append)
    then have "b = d2 ! (i - 32)"
      using one [of d2 "i - 32" e2 d1 "[]"] lc 4 d(2) i by simp
    then show ?thesis using 4 ar l d(1) p by (simp add: nth_append)
  qed
qed

section \<open>The PMU block\<close>

lemma scalar_A_nth:
  assumes "i < 15" "55 \<le> length ws"
  shows "map_of (zip PMU_SCALARS_A ws @ zip PMU_SCALARS_B (drop 31 ws)) (PMU_SCALARS_A ! i) = Some (ws ! i)"
proof -
  have "distinct (map fst (zip PMU_SCALARS_A ws @ zip PMU_SCALARS_B (drop 31 ws)))"
    using map_of_scalars(3) assms(2) by (simp add: map_of_scalars(1,2) map_fst_zip_take)
  then show ?thesis
    by (rule map_of_is_SomeI) (use assms in \<open>auto simp: in_set_zip map_of_scalars(1) intro!: exI [of _ i]\<close>)
qed

lemma scalar_B_nth:
  assumes "i < 24" "55 \<le> length ws"
  shows "map_of (zip PMU_SCALARS_A ws @ zip PMU_SCALARS_B (drop 31 ws)) (PMU_SCALARS_B ! i) = Some (ws ! (31 + i))"
proof -
  have "distinct (map fst (zip PMU_SCALARS_A ws @ zip PMU_SCALARS_B (drop 31 ws)))"
    using map_of_scalars(3) assms(2) by (simp add: map_of_scalars(1,2) map_fst_zip_take)
  moreover have "(PMU_SCALARS_B ! i, ws ! (31 + i)) \<in> set (zip PMU_SCALARS_B (drop 31 ws))"
    using assms by (auto simp: in_set_zip map_of_scalars(2) intro!: exI [of _ i])
  ultimately show ?thesis by (intro map_of_is_SomeI) simp_all
qed

lemma scalar_names:
  "PMU_SCALARS_A ! 13 = ''event_valid_mask''" "PMU_SCALARS_A ! 14 = ''event_overflow_mask''"
  "PMU_SCALARS_B ! 0 = ''npu_pmu_window_cycles_lo''" "PMU_SCALARS_B ! 1 = ''npu_pmu_window_cycles_hi''"
  "PMU_SCALARS_B ! 2 = ''npu_pmu_cycle_valid''"
  by (simp_all add: PMU_SCALARS_A_def PMU_SCALARS_B_def)

lemma window_raw:
  fixes lo hi :: int
  assumes "0 \<le> lo" "lo < 2 ^ 32"
  shows "(lo OR push_bit 32 (hi AND 0xFFFF)) AND (push_bit 48 1 - 1) = lo + 2 ^ 32 * (hi mod 2 ^ 16)"
proof -
  have hi: "hi AND 0xFFFF = hi mod 2 ^ 16"
    using take_bit_eq_mask [of 16 hi] by (simp add: take_bit_eq_mod mask_eq_exp_minus_1)
  have disj: "lo AND push_bit 32 (hi mod 2 ^ 16) = 0"
  proof (rule bit_eqI)
    fix n
    have "bit lo n \<Longrightarrow> n < 32"
      using assms by (metis bit_take_bit_iff mod_pos_pos_trivial take_bit_eq_mod)
    then show "bit (lo AND push_bit 32 (hi mod 2 ^ 16)) n = bit 0 n"
      by (auto simp: bit_simps)
  qed
  have "(lo OR push_bit 32 (hi mod 2 ^ 16)) = lo + 2 ^ 32 * (hi mod 2 ^ 16)"
    using disj by (simp add: disjunctive_add [symmetric] bit_eq_iff bit_and_iff push_bit_eq_mult mult.commute)
  moreover have "lo + 2 ^ 32 * (hi mod 2 ^ 16) < 2 ^ 48"
    using assms(2) pos_mod_bound [of "2 ^ 16" hi] by simp
  moreover have "0 \<le> lo + 2 ^ 32 * (hi mod 2 ^ 16)" using assms(1) by simp
  moreover have "x AND (push_bit 48 1 - 1) = x mod 2 ^ 48" for x :: int
    using take_bit_eq_mask [of 48 x] by (simp add: take_bit_eq_mod mask_eq_exp_minus_1 push_bit_eq_mult)
  ultimately show ?thesis by (simp only: hi mod_pos_pos_trivial)
qed

section \<open>Properties\<close>

text \<open>C6. \<open>parse_measurement_payload\<close> accepts exactly the sealed records of 47 to 1016 words, and decodes
  one into exactly the fields that were sealed.\<close>

theorem measurement_accepted_iff:
  "parse_measurement_payload p = Inr m \<longleftrightarrow>
     (\<exists>seq flags rc body. words_ok ([seq, flags, rc] @ body) \<and> 47 \<le> length body \<and> length body \<le> 1016
        \<and> p = seal_payload seq flags rc body \<and> m = measurement_of seq flags rc body)"
proof
  assume "parse_measurement_payload p = Inr m"
  then show "\<exists>seq flags rc body. words_ok ([seq, flags, rc] @ body) \<and> 47 \<le> length body \<and>
    length body \<le> 1016 \<and> p = seal_payload seq flags rc body \<and> m = measurement_of seq flags rc body"
    by (rule parse_InrD) blast
next
  assume "\<exists>seq flags rc body. words_ok ([seq, flags, rc] @ body) \<and> 47 \<le> length body \<and>
    length body \<le> 1016 \<and> p = seal_payload seq flags rc body \<and> m = measurement_of seq flags rc body"
  then show "parse_measurement_payload p = Inr m"
    using parse_seal by blast
qed

text \<open>C7. Changing any one byte of an accepted payload, the checksum word included, makes
  \<open>parse_measurement_payload\<close> refuse it, with a \<open>ProtocolError\<close>.\<close>

theorem measurement_tamper_refused:
  assumes "parse_measurement_payload p = Inr m" "i < length p" "b \<noteq> p ! i"
  shows "\<exists>pe. parse_measurement_payload (p[i := b]) = Inl (ProtocolError pe)"
proof (cases "parse_measurement_payload (p[i := b])")
  case (Inl e)
  then show ?thesis using parse_Inl_ProtocolError by blast
next
  case (Inr m')
  then show ?thesis
    using sealed_update [OF parse_sealed [OF assms(1)] parse_sealed [OF Inr] assms(2)] assms(3) by simp
qed

lemma measurement_tamper_refused_witness:
  "\<exists>pe. parse_measurement_payload
          ((seal_payload 7 15 0 (replicate 47 0))[30 := seal_payload 7 15 0 (replicate 47 0) ! 30 + 1])
        = Inl (ProtocolError pe)"
  by (rule measurement_tamper_refused [OF parse_seal])
    (simp_all add: words_ok_def seal_payload_def list_all_iff del: replicate.simps)

text \<open>Whatever bytes arrive, \<open>parse_measurement_payload\<close> raises nothing but \<open>ProtocolError\<close>: no
  \<open>struct.error\<close> and no \<open>IndexError\<close> escapes to the callers that catch \<open>ProtocolError\<close>.\<close>

theorem measurement_errors_typed:
  assumes "parse_measurement_payload p = Inl e"
  shows "is_protocol_error e"
  using parse_Inl_ProtocolError [OF assms] by (auto simp: is_protocol_error_def)

lemma measurement_errors_typed_witness:
  "parse_measurement_payload [] = Inl (ProtocolError TooShortForHeader)
     \<and> is_protocol_error (ProtocolError TooShortForHeader)"
proof -
  have "parse_measurement_payload [] = Inl (ProtocolError TooShortForHeader)"
    by (simp add: parse_measurement_payload_def)
  with measurement_errors_typed show ?thesis by blast
qed

text \<open>In a decoded PMU block every scalar has the word of its position, an event slot carries a
  value exactly when its bit of \<open>event_valid_mask\<close> is set (never a default zero), and the 48-bit window
  count is the low word with 16 bits of the high word, reported only when \<open>npu_pmu_cycle_valid\<close>.\<close>

theorem pmu_block_decoded:
  assumes "decode_pmu_block ws = Inr pm" "words_ok ws"
  shows "55 \<le> length ws
    \<and> (\<forall>i<15. pm_scalars pm (PMU_SCALARS_A ! i) = Some (ws ! i))
    \<and> (\<forall>i<24. pm_scalars pm (PMU_SCALARS_B ! i) = Some (ws ! (31 + i)))
    \<and> pm_event_codes pm = map (\<lambda>n. if bit (ws ! 13) n then Some (ws ! (15 + n)) else None) [0..<8]
    \<and> pm_event_values pm = map (\<lambda>n. if bit (ws ! 13) n then Some (ws ! (23 + n)) else None) [0..<8]
    \<and> pm_event_overflow pm = map (\<lambda>n. if bit (ws ! 13) n then Some (bit (ws ! 14) n) else None) [0..<8]
    \<and> pm_window_cycles_raw pm = ws ! 31 + 2 ^ 32 * (ws ! 32 mod 2 ^ 16)
    \<and> pm_window_cycles_raw pm < 2 ^ 48
    \<and> pm_window_cycles pm = (if ws ! 33 \<noteq> 0 then Some (pm_window_cycles_raw pm) else None)"
proof -
  define out where "out = map_of (zip PMU_SCALARS_A ws @ zip PMU_SCALARS_B (drop 31 ws))"
  from assms(1) have len: "55 \<le> length ws"
    by (simp add: decode_pmu_block_def split: if_splits)
  have A: "out (PMU_SCALARS_A ! i) = Some (ws ! i)" if "i < 15" for i
    unfolding out_def using that len by (rule scalar_A_nth)
  have B: "out (PMU_SCALARS_B ! i) = Some (ws ! (31 + i))" if "i < 24" for i
    unfolding out_def using that len by (rule scalar_B_nth)
  have named: "out ''event_valid_mask'' = Some (ws ! 13)" "out ''event_overflow_mask'' = Some (ws ! 14)"
    "out ''npu_pmu_window_cycles_lo'' = Some (ws ! 31)" "out ''npu_pmu_window_cycles_hi'' = Some (ws ! 32)"
    "out ''npu_pmu_cycle_valid'' = Some (ws ! 33)"
    using A [of 13] A [of 14] B [of 0] B [of 1] B [of 2] by (simp_all add: scalar_names [simplified])
  have lo: "0 \<le> ws ! 31" "ws ! 31 < 2 ^ 32"
    using words_ok_nth [OF assms(2), of 31] len by simp_all
  note raw = window_raw [OF lo, of "ws ! 32"]
  have bound: "ws ! 31 + 2 ^ 32 * (ws ! 32 mod 2 ^ 16) < 2 ^ 48"
    using lo(2) pos_mod_bound [of "2 ^ 16" "ws ! 32"] by simp
  have offs: "(15::nat) + 8 = 23" "(23::nat) + 8 = 31" by simp_all
  have slots: "map (\<lambda>n. if P n then Some (take 8 (drop k ws) ! n) else None) [0..<8]
      = map (\<lambda>n. if P n then Some (ws ! (k + n)) else None) [0..<8]" if "k \<le> 23" for P k
    using len that by (intro map_cong) simp_all
  let ?pm = "\<lambda>raw. \<lparr>pm_scalars = out,
     pm_event_codes = map (\<lambda>n. if bit (ws ! 13) n then Some (ws ! (15 + n)) else None) [0..<8],
     pm_event_values = map (\<lambda>n. if bit (ws ! 13) n then Some (ws ! (23 + n)) else None) [0..<8],
     pm_event_overflow = map (\<lambda>n. if bit (ws ! 13) n then Some (bit (ws ! 14) n) else None) [0..<8],
     pm_window_cycles_raw = raw, pm_window_cycles = (if ws ! 33 \<noteq> 0 then Some raw else None)\<rparr>"
  have "decode_pmu_block ws = Inr (?pm (ws ! 31 + 2 ^ 32 * (ws ! 32 mod 2 ^ 16)))"
    unfolding decode_pmu_block_def Let_def map_of_scalars rme_defs NPU_PMU_CYCLE_WIDTH_BITS_def offs
      out_def [symmetric] named option.sel slot_set_bit raw slots [OF order_refl]
      slots [of 15, simplified]
    using len by simp
  with assms(1) have "pm = ?pm (ws ! 31 + 2 ^ 32 * (ws ! 32 mod 2 ^ 16))" by simp
  with A B len bound show ?thesis by simp
qed

lemma pmu_block_decoded_witness:
  "\<exists>pm. decode_pmu_block ([1, 1, 1, 0, 1, 1, 1, 8, 8, 8, 8, 1, 1, 2, 0] @ [0, 33] @ replicate 6 0
          @ [0, 5] @ replicate 6 0 @ [100, 1, 1] @ replicate 21 0) = Inr pm
     \<and> pm_event_values pm = [None, Some 5, None, None, None, None, None, None]
     \<and> pm_window_cycles pm = Some 4294967396"
proof -
  let ?ws = "[1, 1, 1, 0, 1, 1, 1, 8, 8, 8, 8, 1, 1, 2, 0] @ [0, 33] @ replicate 6 0
    @ [0, 5] @ replicate 6 0 @ [100, 1, 1] @ replicate 21 (0 :: int)"
  have "55 \<le> length ?ws" by simp
  then obtain pm where pm: "decode_pmu_block ?ws = Inr pm" using decode_pmu_block_total by blast
  moreover have "words_ok ?ws" by (simp add: words_ok_def list_all_iff)
  ultimately show ?thesis using pmu_block_decoded [OF pm]
    by (auto simp: upt_rec numeral_eq_Suc bit_simps)
qed

end
