(* ===== verification/Runner_Link.thy ===== *)
theory Runner_Link
  imports Runner_Frame Measurement Complex_Main
begin

text \<open>
  The \<open>RunnerLink\<close> of \<open>host/lib/runner_proto.py\<close>: request/response exchanges and commands over the
  serial line. The serial port (pyserial) and the clock are the parameter \<open>'w world\<close>: functions on a
  state \<open>'w\<close> of the outside. A method is a state transformer that may raise and, where it loops, may
  fail to return: \<open>None\<close> is a call that never returns. Times are rationals.
\<close>

section \<open>Methods\<close>

type_synonym ('s, 'a) prog = "'s \<Rightarrow> ((exn + 'a) \<times> 's) option"

definition returns :: "'a \<Rightarrow> ('s, 'a) prog" where
  "returns x = (\<lambda>s. Some (Inr x, s))"

definition raises :: "exn \<Rightarrow> ('s, 'a) prog" where
  "raises e = (\<lambda>s. Some (Inl e, s))"

definition lift_res :: "exn + 'a \<Rightarrow> ('s, 'a) prog" where
  "lift_res r = (\<lambda>s. Some (r, s))"

definition modify :: "('s \<Rightarrow> 's) \<Rightarrow> ('s, unit) prog" where
  "modify f = (\<lambda>s. Some (Inr (), f s))"

definition andthen :: "('s, 'a) prog \<Rightarrow> ('a \<Rightarrow> ('s, 'b) prog) \<Rightarrow> ('s, 'b) prog" where
  "andthen m f = (\<lambda>s. case m s of None \<Rightarrow> None
     | Some (Inl e, s') \<Rightarrow> Some (Inl e, s')
     | Some (Inr x, s') \<Rightarrow> f x s')"

lemma prog_simps [simp]:
  "returns x s = Some (Inr x, s)"
  "raises e s = Some (Inl e, s)"
  "lift_res r s = Some (r, s)"
  "modify f s = Some (Inr (), f s)"
  by (simp_all add: returns_def raises_def lift_res_def modify_def)

lemma andthen_simps [simp]:
  "m s = None \<Longrightarrow> andthen m f s = None"
  "m s = Some (Inl e, s') \<Longrightarrow> andthen m f s = Some (Inl e, s')"
  "m s = Some (Inr x, s') \<Longrightarrow> andthen m f s = f x s'"
  by (simp_all add: andthen_def)

lemma andthen_Some:
  "andthen m f s = Some (r, s') \<longleftrightarrow>
    (\<exists>e. m s = Some (Inl e, s') \<and> r = Inl e) \<or> (\<exists>x t. m s = Some (Inr x, t) \<and> f x t = Some (r, s'))"
  by (auto simp: andthen_def split: option.splits sum.splits)

lemma andthen_mono [partial_function_mono]:
  fixes m :: "('g \<Rightarrow> 'h option) \<Rightarrow> ('s, 'a) prog" and f :: "'a \<Rightarrow> ('g \<Rightarrow> 'h option) \<Rightarrow> ('s, 'b) prog"
  assumes "\<And>s. mono_option (\<lambda>g. m g s)" "\<And>x s. mono_option (\<lambda>g. f x g s)"
  shows "mono_option (\<lambda>g. andthen (m g) (\<lambda>x. f x g) s)"
proof (rule monotoneI)
  fix g h :: "'g \<Rightarrow> 'h option"
  assume le: "option.le_fun g h"
  have m: "option_ord (m g t) (m h t)" for t 
    using assms(1) [of t] le by (simp add: monotone_on_def)
  have f: "option_ord (f x g t) (f x h t)" for x t 
    using assms(2) [of x t] le by (simp add: monotone_on_def)
  show "option_ord (andthen (m g) (\<lambda>x. f x g) s) (andthen (m h) (\<lambda>x. f x h) s)"
  proof (cases "m g s")
    case None
    then show ?thesis by (simp add: flat_ord_def)
  next
    case (Some p)
    with m [of s] have "m h s = Some p" by (simp add: flat_ord_def)
    with Some f show ?thesis by (cases p; cases "fst p") (auto simp: andthen_def flat_ord_def)
  qed
qed

lemma if_app_mono [partial_function_mono]:
  fixes m :: "('g \<Rightarrow> 'h option) \<Rightarrow> ('s, 'a) prog" and m' :: "('g \<Rightarrow> 'h option) \<Rightarrow> ('s, 'a) prog"
  assumes "mono_option (\<lambda>g. m g s)" "mono_option (\<lambda>g. m' g s)"
  shows "mono_option (\<lambda>g. (if c then m g else m' g) s)"
  using assms by (cases c) simp_all

lemma case_option_app_mono [partial_function_mono]:
  fixes m :: "('g \<Rightarrow> 'h option) \<Rightarrow> ('s, 'a) prog" and m' :: "'b \<Rightarrow> ('g \<Rightarrow> 'h option) \<Rightarrow> ('s, 'a) prog"
  assumes "mono_option (\<lambda>g. m g s)" "\<And>x. mono_option (\<lambda>g. m' x g s)"
  shows "mono_option (\<lambda>g. (case v of None \<Rightarrow> m g | Some x \<Rightarrow> m' x g) s)"
  using assms by (cases v) simp_all

section \<open>The world and the link\<close>

text \<open>\<open>time.time()\<close>, and the four calls of the serial port: \<open>read(n)\<close>, \<open>write\<close>, \<open>flush\<close> and the
  constructor. A serial call may raise.\<close>

record 'w world =
  w_time :: "'w \<Rightarrow> rat \<times> 'w"
  w_read :: "nat \<Rightarrow> 'w \<Rightarrow> (exn + bytes) \<times> 'w"
  w_write :: "bytes \<Rightarrow> 'w \<Rightarrow> (exn + unit) \<times> 'w"
  w_flush :: "'w \<Rightarrow> (exn + unit) \<times> 'w"

definition CMD_PING :: int where "CMD_PING = 0x01"
definition CMD_LOAD_MODEL_BEGIN :: int where "CMD_LOAD_MODEL_BEGIN = 0x10"
definition CMD_LOAD_MODEL_CHUNK :: int where "CMD_LOAD_MODEL_CHUNK = 0x11"
definition CMD_LOAD_MODEL_END :: int where "CMD_LOAD_MODEL_END = 0x12"
definition CMD_LOAD_INPUT :: int where "CMD_LOAD_INPUT = 0x20"
definition CMD_RUN :: int where "CMD_RUN = 0x30"
definition CMD_RUN_COMPLETE :: int where "CMD_RUN_COMPLETE = 0x31"
definition CMD_GET_RESULT :: int where "CMD_GET_RESULT = 0x40"
definition CMD_RESET_RUNNER :: int where "CMD_RESET_RUNNER = 0x50"
definition CMD_SET_INSTRUMENTATION_MODE :: int where "CMD_SET_INSTRUMENTATION_MODE = 0x05"
definition NACK :: int where "NACK = 0xFF"

lemmas cmd_defs = CMD_PING_def CMD_LOAD_MODEL_BEGIN_def CMD_LOAD_MODEL_CHUNK_def CMD_LOAD_MODEL_END_def
  CMD_LOAD_INPUT_def CMD_RUN_def CMD_RUN_COMPLETE_def CMD_GET_RESULT_def CMD_RESET_RUNNER_def
  CMD_SET_INSTRUMENTATION_MODE_def NACK_def

definition PROTO_FUNCTIONAL_V1 :: string where "PROTO_FUNCTIONAL_V1 = ''functional-v1''"
definition PROTO_MEASURE_V2 :: string where "PROTO_MEASURE_V2 = ''measure-v2''"
definition PROTOCOLS :: "string list" where "PROTOCOLS = [PROTO_FUNCTIONAL_V1, PROTO_MEASURE_V2]"

text \<open>The object: the receive state of \<open>rx\<close>, extended.\<close>

record 'w link = rx +
  ln_protocol :: string
  ln_late_frames :: int
  ln_last_measurement :: "measurement option"
  ln_seq :: int
  ln_ser :: 'w

type_synonym ('w, 'a) meth = "('w link, 'a) prog"

text \<open>The constructor; \<open>open_port\<close> stands for \<open>serial.Serial(port, baud, ...)\<close>.\<close>

definition link_init :: "(string \<Rightarrow> int \<Rightarrow> exn + 'w) \<Rightarrow> string \<Rightarrow> int \<Rightarrow> string \<Rightarrow> exn + 'w link" where
  "link_init open_port port baud protocol =
     (if protocol \<notin> set PROTOCOLS then Inl (ValueError ''protocol'')
      else bind_res (open_port port baud) (\<lambda>ser.
        Inr \<lparr>rx_buf = [], rx_text_log = [], rx_resyncs = 0, ln_protocol = protocol, ln_late_frames = 0,
             ln_last_measurement = None, ln_seq = 0, ln_ser = ser\<rparr>))"

definition now_time :: "'w world \<Rightarrow> ('w, rat) meth" where
  "now_time W = (\<lambda>s. case w_time W (ln_ser s) of (t, w) \<Rightarrow> Some (Inr t, s\<lparr>ln_ser := w\<rparr>))"

definition ser_read :: "'w world \<Rightarrow> nat \<Rightarrow> ('w, bytes) meth" where
  "ser_read W n = (\<lambda>s. case w_read W n (ln_ser s) of (r, w) \<Rightarrow> Some (r, s\<lparr>ln_ser := w\<rparr>))"

definition parse_step :: "('w, frame option) meth" where
  "parse_step = (\<lambda>s. case try_parse s of (r, t) \<Rightarrow> Some (Inr r, t))"

definition send_raw :: "'w world \<Rightarrow> bytes \<Rightarrow> ('w, unit) meth" where
  "send_raw W blob = (\<lambda>s. case w_write W blob (ln_ser s) of
       (Inl e, w) \<Rightarrow> Some (Inl e, s\<lparr>ln_ser := w\<rparr>)
     | (Inr _, w) \<Rightarrow> (case w_flush W w of (r, v) \<Rightarrow> Some (r, s\<lparr>ln_ser := v\<rparr>)))"

partial_function (option) read_loop :: "'w world \<Rightarrow> rat \<Rightarrow> 'w link \<Rightarrow> ((exn + frame) \<times> 'w link) option" where
  "read_loop W deadline s =
     andthen (now_time W) (\<lambda>t.
       if \<not> t < deadline then raises (ProtocolError TimedOut)
       else andthen parse_step (\<lambda>fo. case fo of
           Some f \<Rightarrow> returns f
         | None \<Rightarrow> andthen (ser_read W 1024) (\<lambda>chunk.
             andthen (modify (\<lambda>s. s\<lparr>rx_buf := rx_buf s @ chunk\<rparr>)) (\<lambda>_ s. read_loop W deadline s)))) s"

definition read_frame :: "'w world \<Rightarrow> rat \<Rightarrow> ('w, frame) meth" where
  "read_frame W timeout = andthen (now_time W) (\<lambda>t. read_loop W (t + timeout))"

text \<open>\<open>NACK\<close>: the two payload bytes are read before the exception is built.\<close>

definition nack_of :: "frame \<Rightarrow> exn" where
  "nack_of f = (case fr_payload f of
       o1 # st # _ \<Rightarrow> Nack (fr_flags f) (uint o1) (uint st)
     | _ \<Rightarrow> IndexError)"

partial_function (option) reply_loop ::
    "'w world \<Rightarrow> int \<Rightarrow> int \<Rightarrow> rat \<Rightarrow> 'w link \<Rightarrow> ((exn + frame) \<times> 'w link) option" where
  "reply_loop W command seq timeout s =
     andthen (read_frame W timeout) (\<lambda>f.
       if fr_sequence f \<noteq> seq then (\<lambda>s. reply_loop W command seq timeout s)
       else if fr_command f = NACK then raises (nack_of f)
       else if fr_command f \<noteq> command OR 0x80
         then raises (ProtocolError (UnexpectedResponse (fr_command f) command))
       else returns f) s"

definition next_seq :: "('w, int) meth" where
  "next_seq = (\<lambda>s. let q = (ln_seq s + 1) AND 0xFFFFFFFF in Some (Inr q, s\<lparr>ln_seq := q\<rparr>))"

definition request :: "'w world \<Rightarrow> int \<Rightarrow> bytes \<Rightarrow> rat \<Rightarrow> ('w, frame) meth" where
  "request W command payload timeout =
     andthen next_seq (\<lambda>seq.
       andthen (lift_res (build_frame command seq payload 0)) (\<lambda>blob.
         andthen (send_raw W blob) (\<lambda>_. reply_loop W command seq timeout)))"

section \<open>Commands\<close>

record counters =
  ct_state :: int
  ct_version :: int
  ct_rx_bytes :: int
  ct_tx_bytes :: int
  ct_rx_overrun :: int
  ct_bad_magic :: int
  ct_bad_version :: int
  ct_bad_crc :: int
  ct_length_error :: int
  ct_sequence_error :: int
  ct_parser_resync :: int

text \<open>\<open>struct.unpack(fmt, f.payload[:n])\<close> on the reply of a request.\<close>

definition reply_fields :: "fmt list \<Rightarrow> frame \<Rightarrow> ('w, int list) meth" where
  "reply_fields fs f = lift_res (struct_unpack fs (take (calcsize fs) (fr_payload f)))"

definition ping :: "'w world \<Rightarrow> ('w, counters) meth" where
  "ping W = andthen (request W CMD_PING [] 5) (\<lambda>f.
     andthen (reply_fields ([FB, FB, FH] @ replicate 9 FI) f) (\<lambda>v.
       returns \<lparr>ct_state = v ! 0, ct_version = v ! 1, ct_rx_bytes = v ! 3, ct_tx_bytes = v ! 4,
                ct_rx_overrun = v ! 5, ct_bad_magic = v ! 6, ct_bad_version = v ! 7, ct_bad_crc = v ! 8,
                ct_length_error = v ! 9, ct_sequence_error = v ! 10, ct_parser_resync = v ! 11\<rparr>))"

definition load_model_begin :: "'w world \<Rightarrow> int \<Rightarrow> int \<Rightarrow> ('w, int list) meth" where
  "load_model_begin W total_len total_crc =
     andthen (lift_res (struct_pack [FI, FI] [total_len, total_crc])) (\<lambda>p.
       andthen (request W CMD_LOAD_MODEL_BEGIN p 5) (reply_fields [FI, FI, FI]))"

definition load_model_chunk :: "'w world \<Rightarrow> int \<Rightarrow> bytes \<Rightarrow> ('w, int list) meth" where
  "load_model_chunk W offset data =
     andthen (lift_res (struct_pack [FI] [offset])) (\<lambda>p.
       andthen (request W CMD_LOAD_MODEL_CHUNK (p @ data) 5) (reply_fields [FI, FI, FI]))"

definition LOAD_END_TIMEOUT_S :: rat where "LOAD_END_TIMEOUT_S = 10"
definition LOAD_END_S_PER_MIB :: rat where "LOAD_END_S_PER_MIB = 4"

definition load_end_timeout :: "int \<Rightarrow> rat" where
  "load_end_timeout total_len = max LOAD_END_TIMEOUT_S (LOAD_END_S_PER_MIB * of_int total_len / of_int (push_bit 20 1))"

definition load_model_end :: "'w world \<Rightarrow> rat \<Rightarrow> ('w, int list) meth" where
  "load_model_end W timeout =
     andthen (request W CMD_LOAD_MODEL_END [] timeout) (reply_fields [FI, FI, FI])"

definition load_input :: "'w world \<Rightarrow> bytes \<Rightarrow> ('w, int) meth" where
  "load_input W data = andthen (request W CMD_LOAD_INPUT data 5) (\<lambda>f.
     andthen (reply_fields [FI] f) (\<lambda>v. returns (v ! 0)))"

definition get_result :: "'w world \<Rightarrow> int \<Rightarrow> int \<Rightarrow> int option \<Rightarrow> ('w, int list) meth" where
  "get_result W base len run_sequence = (\<lambda>s.
     andthen (lift_res
         (if ln_protocol s = PROTO_MEASURE_V2 then
            (case run_sequence of
               None \<Rightarrow> Inl (ProtocolError SequenceRequired)
             | Some q \<Rightarrow> struct_pack [FI, FI, FI] [base, len, q])
          else struct_pack [FI, FI] [base, len])) (\<lambda>p.
       andthen (request W CMD_GET_RESULT p 10) (reply_fields [Fi, FI, FI, FI])) s)"

definition set_instrumentation_mode :: "'w world \<Rightarrow> int \<Rightarrow> int list \<Rightarrow> int \<Rightarrow> ('w, int list) meth" where
  "set_instrumentation_mode W mode event_codes event_set_id =
     andthen (lift_res
         (if length event_codes > NPU_PMU_ABI_EVENT_SLOTS then Inl (ProtocolError TooManyEventCodes)
          else bind_res (struct_pack [FI, FI, FI] [mode, event_set_id, int (length event_codes)]) (\<lambda>h.
            bind_res (struct_pack (replicate (length event_codes) FI) event_codes) (\<lambda>c.
              Inr (h @ c @ replicate (4 * (NPU_PMU_ABI_EVENT_SLOTS - length event_codes)) 0))))) (\<lambda>p.
       andthen (request W CMD_SET_INSTRUMENTATION_MODE p 5) (reply_fields [FI, FI, FI, FI]))"

definition reset_runner :: "'w world \<Rightarrow> ('w, unit) meth" where
  "reset_runner W = andthen (request W CMD_RESET_RUNNER [] 5) (\<lambda>_. returns ())"

section \<open>The run exchange\<close>

text \<open>\<open>try: ... except ProtocolError: break\<close>: \<open>None\<close> where the handler runs.\<close>

definition catch_protocol :: "('s, 'a) prog \<Rightarrow> ('s, 'a option) prog" where
  "catch_protocol m = (\<lambda>s. case m s of None \<Rightarrow> None
     | Some (Inr x, s') \<Rightarrow> Some (Inr (Some x), s')
     | Some (Inl e, s') \<Rightarrow> Some (if is_protocol_error e then Inr None else Inl e, s'))"

definition count_late :: "('w, unit) meth" where
  "count_late = modify (\<lambda>s. s\<lparr>ln_late_frames := ln_late_frames s + 1\<rparr>)"

text \<open>The loop carries \<open>acked\<close> and \<open>completed\<close>; it ends with them and \<open>rc\<close>.\<close>

partial_function (option) run_loop ::
    "'w world \<Rightarrow> int \<Rightarrow> rat \<Rightarrow> bool \<Rightarrow> bool \<Rightarrow> 'w link \<Rightarrow>
     ((exn + bool \<times> bool \<times> int option) \<times> 'w link) option" where
  "run_loop W seq deadline acked completed s =
     andthen (now_time W) (\<lambda>t.
       if \<not> t < deadline then returns (acked, completed, None)
       else andthen (now_time W) (\<lambda>t'.
         andthen (catch_protocol (read_frame W (min 5 (max (1/2) (deadline - t'))))) (\<lambda>fo. case fo of
             None \<Rightarrow> returns (acked, completed, None)
           | Some f \<Rightarrow>
               if fr_sequence f \<noteq> seq \<and> fr_command f \<noteq> CMD_RUN_COMPLETE then
                 andthen count_late (\<lambda>_ s. run_loop W seq deadline acked completed s)
               else if fr_command f = NACK then raises (nack_of f)
               else if fr_command f = CMD_RUN OR 0x80 then
                 if acked then raises (RunSequenceError DuplicateAck)
                 else (\<lambda>s. run_loop W seq deadline True completed s)
               else if fr_command f = CMD_RUN_COMPLETE then
                 if \<not> acked then raises (RunSequenceError CompleteBeforeAck)
                 else if completed then raises (RunSequenceError DuplicateComplete)
                 else andthen (lift_res (parse_measurement_payload (fr_payload f))) (\<lambda>m.
                   andthen (modify (\<lambda>s. s\<lparr>ln_last_measurement := Some m\<rparr>)) (\<lambda>_.
                     returns (acked, True, Some (me_run_rc m))))
               else if \<not> acked then raises (RunSequenceError (ResultBeforeAck (fr_command f)))
               else andthen count_late (\<lambda>_ s. run_loop W seq deadline acked completed s)))) s"

definition run_measured :: "'w world \<Rightarrow> rat \<Rightarrow> ('w, int) meth" where
  "run_measured W timeout =
     andthen next_seq (\<lambda>seq.
       andthen (lift_res (build_frame CMD_RUN seq [] 0)) (\<lambda>blob.
         andthen (send_raw W blob) (\<lambda>_.
           andthen (now_time W) (\<lambda>t.
             andthen (run_loop W seq (t + timeout) False False) (\<lambda>(acked, completed, rc).
               if \<not> acked then raises (RunSequenceError NoAck)
               else if \<not> completed then raises (RunSequenceError NoComplete)
               else returns (case rc of None \<Rightarrow> 0 | Some r \<Rightarrow> r))))))"

definition run :: "'w world \<Rightarrow> rat \<Rightarrow> ('w, int) meth" where
  "run W timeout = (\<lambda>s.
     if ln_protocol s = PROTO_FUNCTIONAL_V1 then
       andthen (request W CMD_RUN [] timeout) (\<lambda>f.
         andthen (reply_fields [Fi] f) (\<lambda>v. returns (v ! 0))) s
     else run_measured W timeout s)"

end
