(* ===== verification/Runner_Exchange.thy ===== *)
theory Runner_Exchange
  imports Runner_Link
begin

text \<open>
  What the exchanges of \<open>Runner_Link\<close> guarantee: they return when the clock of the world advances with
  every read (locale \<open>uart\<close>); a reply answers the request that was sent; a measured run follows the
  ordering automaton \<open>observe\<close>. The port on which the contract is met is in \<open>Runner_Session\<close>.
\<close>

section \<open>The receive state inside the link\<close>

lemma more_discard [simp]: "rx.more (discard n s) = rx.more s"
  by (simp add: discard_def harvest_text_def)

lemma more_resync [simp]: "rx.more (resync s) = rx.more s"
  by (simp add: resync_def)

lemma more_try_parse: "try_parse s = (r, s') \<Longrightarrow> rx.more s' = rx.more s"
proof (induction s arbitrary: r s' rule: try_parse.induct)
  case (1 s)
  show ?case
  proof (cases "find_sub MAGIC_BYTES (rx_buf s)")
    case None
    with "1.prems" show ?thesis by (auto simp: try_parse.simps [of s] split: if_splits)
  next
    case (Some i)
    let ?s1 = "if i \<noteq> 0 then discard i s else s"
    have m: "rx.more ?s1 = rx.more s" by simp
    show ?thesis
    proof (cases "examine (rx_buf ?s1)")
      case Bogus
      with "1.prems" Some have "try_parse (resync ?s1) = (r, s')"
        by (simp add: try_parse.simps [of s] Let_def)
      from "1.IH" [OF Some refl Bogus this] m show ?thesis by simp
    qed (use "1.prems" Some m in \<open>auto simp: try_parse.simps [of s] Let_def\<close>)
  qed
qed

lemma link_more:
  fixes s t :: "'w link"
  assumes "rx.more s = rx.more t"
  shows "ln_protocol s = ln_protocol t" "ln_late_frames s = ln_late_frames t"
    "ln_last_measurement s = ln_last_measurement t" "ln_seq s = ln_seq t" "ln_ser s = ln_ser t"
  using assms by (cases s; cases t; simp)+

lemmas link_try_parse = link_more [OF more_try_parse]

section \<open>Small steps of the methods\<close>

lemma now_time_eq: "now_time W s = Some (Inr (fst (w_time W (ln_ser s))), s\<lparr>ln_ser := snd (w_time W (ln_ser s))\<rparr>)"
  by (simp add: now_time_def split: prod.split)

lemma ser_read_eq: "ser_read W n s = Some (fst (w_read W n (ln_ser s)), s\<lparr>ln_ser := snd (w_read W n (ln_ser s))\<rparr>)"
  by (simp add: ser_read_def split: prod.split)

lemma parse_step_eq: "parse_step s = Some (Inr (fst (try_parse s)), snd (try_parse s))"
  by (simp add: parse_step_def split: prod.split)

lemma next_seq_eq: "next_seq s = Some (Inr ((ln_seq s + 1) mod 2 ^ 32), s\<lparr>ln_seq := (ln_seq s + 1) mod 2 ^ 32\<rparr>)"
  using take_bit_eq_mask [of 32 "ln_seq s + 1"]
  by (simp add: next_seq_def Let_def take_bit_eq_mod mask_eq_exp_minus_1)

lemma andthen_apply:
  "andthen m f s = (case m s of None \<Rightarrow> None | Some (Inl e, s') \<Rightarrow> Some (Inl e, s') | Some (Inr x, s') \<Rightarrow> f x s')"
  by (simp add: andthen_def)

section \<open>Termination\<close>

text \<open>The contract of a serial port with a timeout on a clock: time does not go back, a read costs at
  least \<open>tick\<close>. It is documented behaviour of a port opened with \<open>timeout=0.2\<close>: a read either waits that
  long or has received 1024 bytes, which take time on the line.\<close>

locale uart =
  fixes W :: "'w world" and now :: "'w \<Rightarrow> rat" and tick :: rat
  assumes tick_pos: "0 < tick"
    and time_now: "now w \<le> fst (w_time W w)" "fst (w_time W w) \<le> now (snd (w_time W w))"
    and read_costs: "now w + tick \<le> now (snd (w_read W n w))"
    and write_now: "now w \<le> now (snd (w_write W bs w))" "now w \<le> now (snd (w_flush W w))"
begin

abbreviation clk :: "'w link \<Rightarrow> rat" where "clk s \<equiv> now (ln_ser s)"

lemma time_mono: "now w \<le> now (snd (w_time W w))"
  using time_now by (rule order_trans)

lemma read_loop_returns:
  "deadline - clk s \<le> of_nat k * tick \<Longrightarrow>
    \<exists>r s'. read_loop W deadline s = Some (r, s') \<and> clk s \<le> clk s'
      \<and> (\<forall>f. r = Inr f \<longrightarrow> clk s + tick \<le> clk s' \<or> length (rx_buf s') < length (rx_buf s))"
proof (induction k arbitrary: s)
  case 0
  then have "\<not> fst (w_time W (ln_ser s)) < deadline"
    using time_now(1) [of "ln_ser s"] by simp
  then show ?case
    using time_mono [of "ln_ser s"] by (subst read_loop.simps) (simp add: andthen_apply now_time_eq)
next
  case (Suc k)
  let ?w = "snd (w_time W (ln_ser s))"
  obtain fo u where u: "try_parse (s\<lparr>ln_ser := ?w\<rparr>) = (fo, u)" by fastforce
  have su: "ln_ser u = ?w" using link_try_parse(5) [OF u] by simp
  have lu: "length (rx_buf u) < length (rx_buf s)" if "fo = Some f" for f
    using scan_Some_length [of "rx_buf s" f "rx_buf u"] try_parse_scan [OF u] that by simp
  obtain r v where r: "w_read W 1024 ?w = (r, v)" by fastforce
  have v: "clk s + tick \<le> now v"
    using read_costs [of ?w 1024] time_mono [of "ln_ser s"] r by simp
  show ?case
  proof (cases "\<not> fst (w_time W (ln_ser s)) < deadline \<or> (\<exists>f. fo = Some f) \<or> (\<exists>e. r = Inl e)")
    case True
    then show ?thesis
      using u su lu r v tick_pos time_mono [of "ln_ser s"]
      by (subst read_loop.simps)
        (auto simp: andthen_apply now_time_eq parse_step_eq ser_read_eq split: option.split sum.split)
  next
    case False
    then obtain chunk where chunk: "r = Inr chunk" and fo: "fo = None" by (cases r; cases fo) auto
    let ?t = "u\<lparr>ln_ser := v, rx_buf := rx_buf u @ chunk\<rparr>"
    have "deadline - clk ?t \<le> of_nat k * tick"
      using Suc.prems v by (simp add: algebra_simps)
    from Suc.IH [OF this] obtain r' s' where
      IH: "read_loop W deadline ?t = Some (r', s')" "clk ?t \<le> clk s'" by blast
    have "read_loop W deadline s = Some (r', s')"
      using False u su r chunk fo IH(1)
      by (subst read_loop.simps) (simp add: andthen_apply now_time_eq parse_step_eq ser_read_eq)
    with IH(2) v tick_pos show ?thesis by auto
  qed
qed

lemma steps_enough: "\<exists>k. (x :: rat) \<le> of_nat k * tick"
  using reals_Archimedean3 [OF tick_pos] by (metis less_imp_le)

lemma read_frame_returns:
  "\<exists>r s'. read_frame W timeout s = Some (r, s') \<and> clk s \<le> clk s'
      \<and> (\<forall>f. r = Inr f \<longrightarrow> clk s + tick \<le> clk s' \<or> length (rx_buf s') < length (rx_buf s))"
proof -
  let ?s = "s\<lparr>ln_ser := snd (w_time W (ln_ser s))\<rparr>"
  let ?d = "fst (w_time W (ln_ser s)) + timeout"
  obtain k where "?d - clk ?s \<le> of_nat k * tick" using steps_enough by blast
  from read_loop_returns [OF this] time_mono [of "ln_ser s"] show ?thesis
    by (fastforce simp: read_frame_def andthen_apply now_time_eq)
qed

text \<open>A run loop iteration that goes on has used time, or has used bytes of the buffer and no time.\<close>

lemma run_loop_returns:
  "deadline - clk s \<le> of_nat k * tick \<Longrightarrow> \<exists>r s'. run_loop W seq deadline acked completed s = Some (r, s')"
proof (induction "(k, length (rx_buf s))" arbitrary: k s acked
    rule: wf_induct_rule [OF wf_lex_prod [OF wf_less_than wf_less_than]])
  case (1 k s)
  let ?w1 = "snd (w_time W (ln_ser s))"
  let ?s2 = "s\<lparr>ln_ser := snd (w_time W ?w1)\<rparr>"
  let ?tm = "min 5 (max (1/2) (deadline - fst (w_time W ?w1)))"
  show ?case
  proof (cases "fst (w_time W (ln_ser s)) < deadline")
    case False
    then show ?thesis by (subst run_loop.simps) (simp add: andthen_apply now_time_eq)
  next
    case True
    obtain r u where u: "read_frame W ?tm ?s2 = Some (r, u)" "clk ?s2 \<le> clk u"
      "\<And>f. r = Inr f \<Longrightarrow> clk ?s2 + tick \<le> clk u \<or> length (rx_buf u) < length (rx_buf s)"
      using read_frame_returns [of ?tm ?s2] by auto
    have c2: "clk s \<le> clk ?s2"
      using time_mono [of "ln_ser s"] time_mono [of ?w1] by simp
    have pos: "0 < deadline - clk s" using True time_now(1) [of "ln_ser s"] by simp
    have go: "\<exists>r s'. run_loop W seq deadline acked' completed t = Some (r, s')"
      if "r = Inr f" "ln_ser t = ln_ser u" "rx_buf t = rx_buf u" for f t acked'
    proof (cases "clk ?s2 + tick \<le> clk u")
      case True
      obtain j where k: "k = Suc j" using pos 1(2) by (cases k) auto
      have "deadline - clk t \<le> of_nat j * tick"
        using 1(2) k True c2 that(2) by (simp add: algebra_simps)
      then show ?thesis by (intro 1(1)) (simp_all add: k)
    next
      case False
      then have "length (rx_buf t) < length (rx_buf s)" using u(3) that by auto
      moreover have "deadline - clk t \<le> of_nat k * tick" using 1(2) c2 u(2) by (simp add: that(2))
      ultimately show ?thesis by (intro 1(1)) simp_all
    qed
    show ?thesis
    proof (cases r)
      case (Inl e)
      then show ?thesis using True u(1)
        by (subst run_loop.simps) (simp add: andthen_apply now_time_eq catch_protocol_def)
    next
      case (Inr f)
      note g = go [OF Inr]
      have "\<exists>r s'. run_loop W seq deadline acked completed (u\<lparr>ln_late_frames := ln_late_frames u + 1\<rparr>) = Some (r, s')"
        "\<exists>r s'. run_loop W seq deadline True completed u = Some (r, s')"
        by (rule g; simp)+
      then show ?thesis using True u(1) Inr
        by (subst run_loop.simps)
          (auto simp: andthen_apply now_time_eq catch_protocol_def count_late_def split: sum.split)
    qed
  qed
qed

lemma run_measured_returns: "\<exists>r s'. run_measured W timeout s = Some (r, s')"
proof -
  have "\<exists>r s'. run_loop W seq deadline acked completed t = Some (r, s')" for seq deadline acked completed t
    using steps_enough [of "deadline - clk t"] run_loop_returns by blast
  then show ?thesis
    unfolding run_measured_def
    by (auto simp: andthen_apply next_seq_eq send_raw_def now_time_eq
        split: option.split sum.split prod.split) (metis option.distinct(1))+
qed

end

lemmas read_loop_induct = read_loop.raw_induct [rotated, consumes 1, case_names loop]
lemmas reply_loop_induct = reply_loop.raw_induct [rotated, consumes 1, case_names loop]
lemmas run_loop_induct = run_loop.raw_induct [rotated, consumes 1, case_names loop]

section \<open>What was heard on the line\<close>

text \<open>\<open>heard W s fs s'\<close>: between the states \<open>s\<close> and \<open>s'\<close> the frames that \<open>read_frame\<close> returned are \<open>fs\<close>.
  The other steps read the clock, wait in vain, or keep the books.\<close>

inductive heard :: "'w world \<Rightarrow> 'w link \<Rightarrow> frame list \<Rightarrow> 'w link \<Rightarrow> bool" for W where
  hush: "heard W s [] s"
| tick: "heard W (s\<lparr>ln_ser := snd (w_time W (ln_ser s))\<rparr>) fs s' \<Longrightarrow> heard W s fs s'"
| silence: "read_frame W timeout s = Some (Inl e, t) \<Longrightarrow> heard W t fs s' \<Longrightarrow> heard W s fs s'"
| reply: "read_frame W timeout s = Some (Inr f, t) \<Longrightarrow> heard W t fs s' \<Longrightarrow> heard W s (f # fs) s'"
| count: "heard W (s\<lparr>ln_late_frames := k\<rparr>) fs s' \<Longrightarrow> heard W s fs s'"
| store: "heard W (s\<lparr>ln_last_measurement := v\<rparr>) fs s' \<Longrightarrow> heard W s fs s'"

text \<open>A port whose calls do not raise.\<close>

definition port_ok :: "'w world \<Rightarrow> bool" where
  "port_ok W \<longleftrightarrow> (\<forall>n w e. fst (w_read W n w) \<noteq> Inl e) \<and> (\<forall>b w e. fst (w_write W b w) \<noteq> Inl e)
     \<and> (\<forall>w e. fst (w_flush W w) \<noteq> Inl e)"

lemma read_loop_link:
  "read_loop W deadline s = Some (r, s') \<Longrightarrow>
    ln_seq s' = ln_seq s \<and> ln_protocol s' = ln_protocol s \<and> ln_late_frames s' = ln_late_frames s
    \<and> ln_last_measurement s' = ln_last_measurement s
    \<and> (port_ok W \<longrightarrow> (\<forall>e. r = Inl e \<longrightarrow> e = ProtocolError TimedOut))"
proof (induction W deadline s "(r, s')" arbitrary: r s' rule: read_loop_induct)
  case (loop loop W deadline s)
  let ?s1 = "s\<lparr>ln_ser := snd (w_time W (ln_ser s))\<rparr>"
  obtain fo u where u: "try_parse ?s1 = (fo, u)" by fastforce
  note keep = link_try_parse [OF u]
  show ?case
  proof (cases "fst (w_time W (ln_ser s)) < deadline \<and> fo = None")
    case False
    with loop.hyps(2) u keep show ?thesis
      by (auto simp: andthen_apply now_time_eq parse_step_eq split: if_splits option.splits)
  next
    case True
    obtain b v where b: "w_read W 1024 (ln_ser u) = (b, v)" by fastforce
    show ?thesis
    proof (cases b)
      case (Inl e)
      with loop.hyps(2) True u keep b show ?thesis
        by (auto simp: andthen_apply now_time_eq parse_step_eq ser_read_eq port_ok_def) (metis fst_conv)+
    next
      case (Inr chunk)
      with loop.hyps(2) True u b
      have "loop W deadline (u\<lparr>ln_ser := v, rx_buf := rx_buf u @ chunk\<rparr>) = Some (r, s')"
        by (simp add: andthen_apply now_time_eq parse_step_eq ser_read_eq)
      from loop.hyps(1) [OF this] keep show ?thesis by simp
    qed
  qed
qed

lemma read_frame_link:
  assumes "read_frame W timeout s = Some (r, s')"
  shows "ln_seq s' = ln_seq s" "ln_protocol s' = ln_protocol s" "ln_late_frames s' = ln_late_frames s"
    "ln_last_measurement s' = ln_last_measurement s"
    "port_ok W \<Longrightarrow> r = Inl e \<Longrightarrow> e = ProtocolError TimedOut"
  using assms read_loop_link
  by (fastforce simp: read_frame_def andthen_apply now_time_eq)+

section \<open>The exchange automaton\<close>

datatype exchange = Waiting | Acked | Done measurement | Broken exn

definition stale :: "int \<Rightarrow> frame \<Rightarrow> bool" where
  "stale seq f \<longleftrightarrow> fr_sequence f \<noteq> seq \<and> fr_command f \<noteq> CMD_RUN_COMPLETE"

definition is_open :: "exchange \<Rightarrow> bool" where
  "is_open st \<longleftrightarrow> st = Waiting \<or> st = Acked"

text \<open>The specification of a measured run: which frame moves the exchange where. The number counts the
  frames that were set aside. \<open>Done\<close> and \<open>Broken\<close> are final.\<close>

inductive exch :: "int \<Rightarrow> exchange \<times> int \<Rightarrow> frame \<Rightarrow> exchange \<times> int \<Rightarrow> bool" for seq where
  straggler: "stale seq f \<Longrightarrow> is_open st \<Longrightarrow> exch seq (st, k) f (st, k + 1)"
| refused: "\<not> stale seq f \<Longrightarrow> fr_command f = NACK \<Longrightarrow> is_open st \<Longrightarrow> exch seq (st, k) f (Broken (nack_of f), k)"
| ack: "fr_sequence f = seq \<Longrightarrow> fr_command f = CMD_RUN OR 0x80 \<Longrightarrow> exch seq (Waiting, k) f (Acked, k)"
| ack_again: "fr_sequence f = seq \<Longrightarrow> fr_command f = CMD_RUN OR 0x80 \<Longrightarrow>
    exch seq (Acked, k) f (Broken (RunSequenceError DuplicateAck), k)"
| early: "fr_command f = CMD_RUN_COMPLETE \<Longrightarrow>
    exch seq (Waiting, k) f (Broken (RunSequenceError CompleteBeforeAck), k)"
| complete: "fr_command f = CMD_RUN_COMPLETE \<Longrightarrow> parse_measurement_payload (fr_payload f) = Inr m \<Longrightarrow>
    exch seq (Acked, k) f (Done m, k)"
| garbled: "fr_command f = CMD_RUN_COMPLETE \<Longrightarrow> parse_measurement_payload (fr_payload f) = Inl e \<Longrightarrow>
    exch seq (Acked, k) f (Broken e, k)"
| unasked: "fr_sequence f = seq \<Longrightarrow> fr_command f \<notin> {NACK, CMD_RUN OR 0x80, CMD_RUN_COMPLETE} \<Longrightarrow>
    exch seq (Waiting, k) f (Broken (RunSequenceError (ResultBeforeAck (fr_command f))), k)"
| aside: "fr_sequence f = seq \<Longrightarrow> fr_command f \<notin> {NACK, CMD_RUN OR 0x80, CMD_RUN_COMPLETE} \<Longrightarrow>
    exch seq (Acked, k) f (Acked, k + 1)"

inductive exch_trace :: "int \<Rightarrow> exchange \<times> int \<Rightarrow> frame list \<Rightarrow> exchange \<times> int \<Rightarrow> bool" for seq where
  stop: "exch_trace seq c [] c"
| move: "exch seq c f d \<Longrightarrow> exch_trace seq d fs e \<Longrightarrow> exch_trace seq c (f # fs) e"

inductive_simps exch_trace_Nil: "exch_trace seq c [] d"
inductive_simps exch_trace_Cons: "exch_trace seq c (f # fs) d"
inductive_simps exch_Done: "exch seq (Done m, k) f c"
inductive_simps exch_Broken: "exch seq (Broken e, k) f c"
inductive_simps exch_Waiting: "exch seq (Waiting, k) f c"
inductive_simps exch_Acked: "exch seq (Acked, k) f c"

fun verdict :: "exchange \<Rightarrow> exn + int" where
  "verdict Waiting = Inl (RunSequenceError NoAck)"
| "verdict Acked = Inl (RunSequenceError NoComplete)"
| "verdict (Done m) = Inr (me_run_rc m)"
| "verdict (Broken e) = Inl e"

text \<open>What the loop returns in each state.\<close>

fun loop_result :: "exchange \<Rightarrow> exn + bool \<times> bool \<times> int option" where
  "loop_result Waiting = Inr (False, False, None)"
| "loop_result Acked = Inr (True, False, None)"
| "loop_result (Done m) = Inr (True, True, Some (me_run_rc m))"
| "loop_result (Broken e) = Inl e"

lemma run_loop_follows:
  "run_loop W seq deadline acked completed s = Some (r, s') \<Longrightarrow> port_ok W \<Longrightarrow> \<not> completed \<Longrightarrow>
    \<exists>fs st. heard W s fs s'
      \<and> exch_trace seq (if acked then Acked else Waiting, ln_late_frames s) fs (st, ln_late_frames s')
      \<and> r = loop_result st \<and> (\<forall>m. st = Done m \<longrightarrow> ln_last_measurement s' = Some m)"
proof (induction W seq deadline acked completed s "(r, s')" arbitrary: r s' rule: run_loop_induct)
  case (loop loop W seq deadline acked completed s)
  let ?w1 = "snd (w_time W (ln_ser s))"
  let ?s2 = "s\<lparr>ln_ser := snd (w_time W ?w1)\<rparr>"
  let ?tm = "min 5 (max (1/2) (deadline - fst (w_time W ?w1)))"
  let ?st = "if acked then Acked else Waiting"
  have heard2: "heard W s fs t" if "heard W ?s2 fs t" for fs t
    using that by (intro heard.tick [of W s] heard.tick [of W "s\<lparr>ln_ser := ?w1\<rparr>"]) simp
  have idle: ?case if "heard W s [] s'" "ln_late_frames s' = ln_late_frames s" "r = Inr (acked, completed, None)"
    using that loop.prems(2)
    by (intro exI [of _ "[]"] exI [of _ ?st]) (auto intro: exch_trace.stop)
  show ?case
  proof (cases "fst (w_time W (ln_ser s)) < deadline")
    case False
    with loop.hyps(2) have "s' = s\<lparr>ln_ser := ?w1\<rparr>" "r = Inr (acked, completed, None)"
      by (simp_all add: andthen_apply now_time_eq)
    then show ?thesis by (intro idle) (auto intro: heard.tick heard.hush)
  next
    case True
    show ?thesis
    proof (cases "read_frame W ?tm ?s2")
      case None
      with loop.hyps(2) True show ?thesis by (simp add: andthen_apply now_time_eq catch_protocol_def)
    next
      case (Some p)
      obtain x u where p: "p = (x, u)" by fastforce
      note rf = Some [unfolded p]
      have late: "ln_late_frames u = ln_late_frames s" using read_frame_link(3) [OF rf] by simp
      show ?thesis
      proof (cases x)
        case (Inl e)
        with read_frame_link(5) [OF rf loop.prems(1)] have "is_protocol_error e"
          by (simp add: is_protocol_error_def)
        with loop.hyps(2) True rf Inl have "s' = u" "r = Inr (acked, completed, None)"
          by (simp_all add: andthen_apply now_time_eq catch_protocol_def)
        with rf Inl late show ?thesis by (intro idle) (auto intro: heard2 heard.silence heard.hush)
      next
        case (Inr f)
        have ends: ?thesis if "exch seq (?st, ln_late_frames s) f (st, ln_late_frames s')" "r = loop_result st"
            "heard W u [] s'" "\<forall>m. st = Done m \<longrightarrow> ln_last_measurement s' = Some m" for st
          using that rf Inr
          by (intro exI [of _ "[f]"] exI [of _ st])
            (auto intro: heard2 heard.reply exch_trace.intros)
        have go: ?thesis if l: "loop W seq deadline acked' completed t = Some (r, s')"
          and x: "exch seq (?st, ln_late_frames s) f (if acked' then Acked else Waiting, ln_late_frames t)"
          and h: "\<And>fs. heard W t fs s' \<Longrightarrow> heard W u fs s'" for acked' t
        proof -
          from loop.hyps(1) [OF l loop.prems] obtain fs st where IH: "heard W t fs s'"
            "exch_trace seq (if acked' then Acked else Waiting, ln_late_frames t) fs (st, ln_late_frames s')"
            "r = loop_result st" "\<forall>m. st = Done m \<longrightarrow> ln_last_measurement s' = Some m" by blast
          then show ?thesis using x h rf Inr
            by (intro exI [of _ "f # fs"] exI [of _ st])
              (auto intro: heard2 heard.reply exch_trace.intros)
        qed
        let ?late = "u\<lparr>ln_late_frames := ln_late_frames u + 1\<rparr>"
        have cont: "heard W ?late fs s' \<Longrightarrow> heard W u fs s'" for fs by (rule heard.count)
        note body = loop.hyps(2) rf Inr True
        note run_simps = andthen_apply now_time_eq catch_protocol_def count_late_def
        consider (old) "stale seq f" | (nack) "\<not> stale seq f" "fr_command f = NACK"
          | (ack) "\<not> stale seq f" "fr_command f = CMD_RUN OR 0x80"
          | (complete) "\<not> stale seq f" "fr_command f = CMD_RUN_COMPLETE"
          | (other) "\<not> stale seq f" "fr_command f \<notin> {NACK, CMD_RUN OR 0x80, CMD_RUN_COMPLETE}" by blast
        then show ?thesis
        proof cases
          case old
          with body have "loop W seq deadline acked completed ?late = Some (r, s')"
            by (simp add: run_simps stale_def)
          from go [OF this _ cont] exch.straggler [OF old, of ?st] late show ?thesis
            by (simp add: is_open_def)
        next
          case nack
          with body have "r = Inl (nack_of f)" "s' = u"
            by (auto simp: run_simps stale_def split: if_splits)
          with ends [of "Broken (nack_of f)"] exch.refused [OF nack, of ?st] late show ?thesis
            by (simp add: is_open_def heard.hush)
        next
          case ack
          then have q: "fr_sequence f = seq" by (simp add: stale_def cmd_defs)
          show ?thesis
          proof (cases acked)
            case True
            with body ack have "r = Inl (RunSequenceError DuplicateAck)" "s' = u"
              by (simp_all add: run_simps stale_def cmd_defs)
            with ends [of "Broken (RunSequenceError DuplicateAck)"] exch.ack_again [OF q ack(2)] late True
            show ?thesis by (simp add: heard.hush)
          next
            case False
            with body ack have "loop W seq deadline True completed u = Some (r, s')"
              by (simp add: run_simps stale_def cmd_defs)
            from go [OF this] exch.ack [OF q ack(2)] late False show ?thesis by simp
          qed
        next
          case complete
          show ?thesis
          proof (cases acked)
            case True
            note ac = this
            show ?thesis
            proof (cases "parse_measurement_payload (fr_payload f)")
              case (Inl e)
              with body complete ac loop.prems(2) have "r = Inl e" "s' = u"
                by (simp_all add: run_simps stale_def cmd_defs)
              with ends [of "Broken e"] exch.garbled [OF complete(2) Inl] late ac show ?thesis
                by (simp add: heard.hush)
            next
              case (Inr m)
              with body complete ac loop.prems(2)
              have "r = Inr (True, True, Some (me_run_rc m))" "s' = u\<lparr>ln_last_measurement := Some m\<rparr>"
                by (simp_all add: run_simps stale_def cmd_defs)
              with ends [of "Done m"] exch.complete [OF complete(2) Inr] late ac
                heard.store [OF heard.hush, of W u "Some m"] show ?thesis by simp
            qed
          next
            case False
            with body complete have "r = Inl (RunSequenceError CompleteBeforeAck)" "s' = u"
              by (simp_all add: run_simps stale_def cmd_defs)
            with ends [of "Broken (RunSequenceError CompleteBeforeAck)"] exch.early [OF complete(2)] late False
            show ?thesis by (simp add: heard.hush)
          qed
        next
          case other
          then have q: "fr_sequence f = seq" by (simp add: stale_def)
          show ?thesis
          proof (cases acked)
            case True
            with body other have "loop W seq deadline acked completed ?late = Some (r, s')"
              by (simp add: run_simps stale_def)
            from go [OF this _ cont] exch.aside [OF q other(2)] late True show ?thesis by simp
          next
            case False
            with body other have "r = Inl (RunSequenceError (ResultBeforeAck (fr_command f)))" "s' = u"
              by (simp_all add: run_simps stale_def)
            with ends [of "Broken (RunSequenceError (ResultBeforeAck (fr_command f)))"]
              exch.unasked [OF q other(2)] late False
            show ?thesis by (simp add: heard.hush)
          qed
        qed
      qed
    qed
  qed
qed

lemma send_raw_ok:
  assumes "port_ok W"
  shows "\<exists>w. send_raw W blob s = Some (Inr (), s\<lparr>ln_ser := w\<rparr>)"
proof -
  obtain x w where w: "w_write W blob (ln_ser s) = (x, w)" by fastforce
  obtain y v where v: "w_flush W w = (y, v)" by fastforce
  have "x = Inr () \<and> y = Inr ()"
    using assms w v unfolding port_ok_def by (metis fst_conv old.unit.exhaust sum.exhaust)
  with w v show ?thesis by (auto simp: send_raw_def)
qed

lemma run_measured_follows:
  assumes "run_measured W timeout s = Some (r, s')" "port_ok W"
  defines "q \<equiv> (ln_seq s + 1) mod 2 ^ 32"
  shows "\<exists>blob s1 fs st. build_frame CMD_RUN q [] 0 = Inr blob
    \<and> send_raw W blob (s\<lparr>ln_seq := q\<rparr>) = Some (Inr (), s1) \<and> heard W s1 fs s'
    \<and> exch_trace q (Waiting, ln_late_frames s) fs (st, ln_late_frames s')
    \<and> r = verdict st \<and> (\<forall>m. st = Done m \<longrightarrow> ln_last_measurement s' = Some m)"
proof -
  obtain blob where blob: "build_frame CMD_RUN q [] 0 = Inr blob"
    using build_frame_ok_iff [of CMD_RUN q "[]" 0] by (auto simp: q_def CMD_RUN_def)
  obtain s1 where s1: "send_raw W blob (s\<lparr>ln_seq := q\<rparr>) = Some (Inr (), s1)" "ln_late_frames s1 = ln_late_frames s"
    using send_raw_ok [OF assms(2), of blob "s\<lparr>ln_seq := q\<rparr>"] by auto
  let ?s2 = "s1\<lparr>ln_ser := snd (w_time W (ln_ser s1))\<rparr>"
  let ?d = "fst (w_time W (ln_ser s1)) + timeout"
  obtain x u where x: "run_loop W q ?d False False ?s2 = Some (x, u)"
    using assms(1) blob s1(1)
    by (fastforce simp: run_measured_def andthen_apply next_seq_eq now_time_eq q_def split: option.splits)
  from run_loop_follows [OF x assms(2)] obtain fs st where st: "heard W ?s2 fs u"
    "exch_trace q (Waiting, ln_late_frames s) fs (st, ln_late_frames u)" "x = loop_result st"
    "\<forall>m. st = Done m \<longrightarrow> ln_last_measurement u = Some m"
    using s1(2) by auto
  have "s' = u \<and> r = verdict st"
    using assms(1) blob s1(1) x st(3)
    by (cases st) (simp_all add: run_measured_def andthen_apply next_seq_eq now_time_eq q_def)
  with blob s1(1) st heard.tick [OF st(1)] show ?thesis by blast
qed

text \<open>The words of the automaton that end in \<open>Done\<close>.\<close>

definition set_aside :: "int \<Rightarrow> frame \<Rightarrow> bool" where
  "set_aside seq f \<longleftrightarrow> stale seq f \<or> fr_sequence f = seq \<and> fr_command f \<notin> {NACK, CMD_RUN OR 0x80, CMD_RUN_COMPLETE}"

lemma exch_final: "\<not> exch seq (Done m, k) f c" "\<not> exch seq (Broken e, k) f c"
  by (simp_all add: exch_Done exch_Broken is_open_def)

lemma exch_trace_final:
  "exch_trace seq (Done m, k) fs c \<Longrightarrow> fs = [] \<and> c = (Done m, k)"
  "exch_trace seq (Broken e, k) fs c \<Longrightarrow> fs = [] \<and> c = (Broken e, k)"
  by (cases fs; simp add: exch_trace_Nil exch_trace_Cons exch_final)+

lemma exch_trace_Acked_Done:
  "exch_trace seq (Acked, k) fs (Done m, k') \<Longrightarrow>
    \<exists>mid c. fs = mid @ [c] \<and> (\<forall>f\<in>set mid. set_aside seq f) \<and> fr_command c = CMD_RUN_COMPLETE
      \<and> parse_measurement_payload (fr_payload c) = Inr m \<and> k' = k + int (length mid)"
proof (induction fs arbitrary: k)
  case Nil
  then show ?case by (simp add: exch_trace_Nil)
next
  case (Cons f fs)
  from Cons.prems obtain d where d: "exch seq (Acked, k) f d" "exch_trace seq d fs (Done m, k')"
    by (auto simp: exch_trace_Cons)
  then consider (aside) "set_aside seq f" "d = (Acked, k + 1)"
    | (final) "fr_command f = CMD_RUN_COMPLETE" "parse_measurement_payload (fr_payload f) = Inr m" "fs = []" "k' = k"
    by (auto simp: exch_Acked set_aside_def dest: exch_trace_final)
  then show ?case
  proof cases
    case aside
    with d(2) Cons.IH obtain mid c where "fs = mid @ [c]" "\<forall>f\<in>set mid. set_aside seq f"
      "fr_command c = CMD_RUN_COMPLETE" "parse_measurement_payload (fr_payload c) = Inr m"
      "k' = k + 1 + int (length mid)" by blast
    with aside show ?thesis by (intro exI [of _ "f # mid"] exI [of _ c]) simp
  next
    case final
    then show ?thesis by (intro exI [of _ "[]"] exI [of _ f]) simp
  qed
qed

lemma exch_trace_Waiting_Done:
  "exch_trace seq (Waiting, k) fs (Done m, k') \<Longrightarrow>
    \<exists>pre a mid c. fs = pre @ a # mid @ [c] \<and> (\<forall>f\<in>set pre. stale seq f)
      \<and> fr_sequence a = seq \<and> fr_command a = CMD_RUN OR 0x80
      \<and> (\<forall>f\<in>set mid. set_aside seq f) \<and> fr_command c = CMD_RUN_COMPLETE
      \<and> parse_measurement_payload (fr_payload c) = Inr m \<and> k' = k + int (length pre) + int (length mid)"
proof (induction fs arbitrary: k)
  case Nil
  then show ?case by (simp add: exch_trace_Nil)
next
  case (Cons f fs)
  from Cons.prems obtain d where d: "exch seq (Waiting, k) f d" "exch_trace seq d fs (Done m, k')"
    by (auto simp: exch_trace_Cons)
  then consider (old) "stale seq f" "d = (Waiting, k + 1)"
    | (ack) "fr_sequence f = seq" "fr_command f = CMD_RUN OR 0x80" "d = (Acked, k)"
    by (auto simp: exch_Waiting dest: exch_trace_final)
  then show ?case
  proof cases
    case old
    with d(2) Cons.IH obtain pre a mid c where "fs = pre @ a # mid @ [c]" "\<forall>f\<in>set pre. stale seq f"
      "fr_sequence a = seq" "fr_command a = CMD_RUN OR 0x80" "\<forall>f\<in>set mid. set_aside seq f"
      "fr_command c = CMD_RUN_COMPLETE" "parse_measurement_payload (fr_payload c) = Inr m"
      "k' = k + 1 + int (length pre) + int (length mid)" by blast
    with old show ?thesis
      by (intro exI [of _ "f # pre"] exI [of _ a] exI [of _ mid] exI [of _ c]) simp
  next
    case ack
    with d(2) exch_trace_Acked_Done obtain mid c where "fs = mid @ [c]" "\<forall>f\<in>set mid. set_aside seq f"
      "fr_command c = CMD_RUN_COMPLETE" "parse_measurement_payload (fr_payload c) = Inr m"
      "k' = k + int (length mid)" by blast
    with ack show ?thesis
      by (intro exI [of _ "[]"] exI [of _ f] exI [of _ mid] exI [of _ c]) simp
  qed
qed

section \<open>Requests\<close>

definition answer :: "int \<Rightarrow> frame \<Rightarrow> exn + frame" where
  "answer command f =
     (if fr_command f = NACK then Inl (nack_of f)
      else if fr_command f \<noteq> command OR 0x80
        then Inl (ProtocolError (UnexpectedResponse (fr_command f) command))
      else Inr f)"

lemma reply_loop_outcome:
  "reply_loop W command q timeout s = Some (r, s') \<Longrightarrow> port_ok W \<Longrightarrow>
    ln_seq s' = ln_seq s \<and>
    ((\<exists>olds f. heard W s (olds @ [f]) s' \<and> (\<forall>g\<in>set olds. fr_sequence g \<noteq> q) \<and> fr_sequence f = q
        \<and> r = answer command f)
     \<or> (\<exists>olds. heard W s olds s' \<and> (\<forall>g\<in>set olds. fr_sequence g \<noteq> q) \<and> r = Inl (ProtocolError TimedOut)))"
proof (induction W command q timeout s "(r, s')" arbitrary: r s' rule: reply_loop_induct)
  case (loop loop W command q timeout s)
  show ?case
  proof (cases "read_frame W timeout s")
    case None
    with loop.hyps(2) show ?thesis by (simp add: andthen_apply)
  next
    case (Some p)
    obtain x u where "p = (x, u)" by fastforce
    with Some have rf: "read_frame W timeout s = Some (x, u)" by simp
    note keep = read_frame_link [OF rf]
    show ?thesis
    proof (cases x)
      case (Inl e)
      with keep(5) loop.prems have "e = ProtocolError TimedOut" by blast
      with loop.hyps(2) rf Inl have "r = Inl (ProtocolError TimedOut)" "s' = u"
        by (simp_all add: andthen_apply)
      moreover have "heard W s [] u" using rf Inl by (auto intro: heard.silence heard.hush)
      ultimately show ?thesis using keep(1) by (intro conjI disjI2 exI [of _ "[]"]) simp_all
    next
      case (Inr f)
      note hr = heard.reply [OF rf [unfolded Inr]]
      show ?thesis
      proof (cases "fr_sequence f = q")
        case True
        with loop.hyps(2) rf Inr have "r = answer command f" "s' = u"
          by (auto simp: andthen_apply answer_def split: if_splits)
        with True hr [OF heard.hush] keep(1) show ?thesis
          by (intro conjI disjI1 exI [of _ "[]"] exI [of _ f]) simp_all
      next
        case False
        with loop.hyps(2) rf Inr have "loop W command q timeout u = Some (r, s')"
          by (simp add: andthen_apply)
        from loop.hyps(1) [OF this loop.prems] keep(1) False hr show ?thesis
          by (auto intro: exI [of _ "f # _"]) (metis append_Cons set_ConsD)+
      qed
    qed
  qed
qed

end
