(* ===== verification/Port_Delivery.thy ===== *)
theory Port_Delivery
  imports Runner_Exchange
begin

text \<open>
  What the host gets when the line does deliver: locale \<open>delivery\<close> extends the contract \<open>uart\<close> of a serial
  port by the bytes that are still to come (\<open>ahead\<close>) and a time by which reading has handed them over
  (\<open>due\<close>), however they are cut into reads and whatever the waits between them. In it a frame that stands
  in the buffer and on the line is read, a request gets its answer and a measured run its verdict. The
  ports that meet the contract are in \<open>Runner_Session\<close>.
\<close>

section \<open>Frames on a line\<close>

text \<open>\<open>yields b fs l\<close>: the bytes \<open>b\<close> carry the frames \<open>fs\<close> in this order, and then \<open>l\<close>.\<close>

inductive yields :: "bytes \<Rightarrow> frame list \<Rightarrow> bytes \<Rightarrow> bool" where
  none: "yields b [] b"
| one: "scan b = (Some f, r, n) \<Longrightarrow> yields r fs l \<Longrightarrow> yields b (f # fs) l"

inductive_simps yields_Nil: "yields b [] l"
inductive_simps yields_Cons: "yields b (f # fs) l"

lemma yields_built:
  assumes "build_frame c q p fl = Inr w" "length p \<le> MAX_PAYLOAD"
  shows "yields (w @ rest) [built_frame c q p fl] rest"
proof -
  note b = build_frame_examine(1,2) [OF assms, of rest]
  have "scan (w @ rest) = (Some (built_frame c q p fl), rest, 0)"
    using b by (simp add: scan_at_magic)
  then show ?thesis by (auto simp: yields_Cons yields_Nil)
qed

lemma yields_append: "yields b fs r \<Longrightarrow> yields r gs l \<Longrightarrow> yields b (fs @ gs) l"
  by (induction rule: yields.induct) (auto intro: yields.one)

lemma built_frame_sel [simp]:
  "fr_sequence (built_frame c q p fl) = q" "fr_command (built_frame c q p fl) = c"
  "fr_payload (built_frame c q p fl) = p" "fr_flags (built_frame c q p fl) = fl"
  by (simp_all add: built_frame_def)

section \<open>One turn of the run loop\<close>

abbreviation phase :: "bool \<Rightarrow> exchange" where "phase acked \<equiv> if acked then Acked else Waiting"

text \<open>One turn of the loop on a frame that keeps the exchange open, or ends it.\<close>

lemma run_loop_turn:
  assumes "w_time W (ln_ser s) = (t, ln_ser s)" "t < deadline"
    and "read_frame W (min 5 (max (1/2) (deadline - t))) s = Some (Inr f, u)"
    and "ln_late_frames u = ln_late_frames s" "exch q (phase acked, ln_late_frames s) f (st, k)"
  shows "run_loop W q deadline acked False s =
    (if is_open st then run_loop W q deadline (st = Acked) False (u\<lparr>ln_late_frames := k\<rparr>)
     else Some (loop_result st, case st of Done m \<Rightarrow> u\<lparr>ln_last_measurement := Some m\<rparr> | _ \<Rightarrow> u))
    \<and> (\<not> is_open st \<longrightarrow> k = ln_late_frames s)"
proof -
  note unf = run_loop.simps [of W q deadline acked False s]
  note run_simps = andthen_apply now_time_eq catch_protocol_def count_late_def stale_def is_open_def
  have same: "u\<lparr>ln_late_frames := ln_late_frames s\<rparr> = u" using assms(4) by (cases u) simp
  show ?thesis
    using assms(5)
  proof (cases rule: exch.cases)
    case straggler
    then show ?thesis using assms(1-4)
      by (subst unf) (auto simp: run_simps)
  next
    case refused
    then show ?thesis using assms(1-3)
      by (subst unf) (auto simp: run_simps)
  next
    case ack
    then show ?thesis using assms(1-3) same
      by (subst unf) (auto simp: run_simps cmd_defs split: if_splits)
  next
    case ack_again
    then show ?thesis using assms(1-3)
      by (subst unf) (auto simp: run_simps cmd_defs split: if_splits)
  next
    case early
    then show ?thesis using assms(1-3)
      by (subst unf) (auto simp: run_simps cmd_defs split: if_splits)
  next
    case complete
    then show ?thesis using assms(1-3)
      by (subst unf) (auto simp: run_simps cmd_defs split: if_splits)
  next
    case garbled
    then show ?thesis using assms(1-3)
      by (subst unf) (auto simp: run_simps cmd_defs split: if_splits)
  next
    case unasked
    then show ?thesis using assms(1-3)
      by (subst unf) (auto simp: run_simps split: if_splits)
  next
    case aside
    then show ?thesis using assms(1-4)
      by (subst unf) (auto simp: run_simps split: if_splits)
  qed
qed

section \<open>The contract of a line that delivers\<close>

text \<open>Time passes in the reads. A read gives the next bytes, possibly none; while bytes are still to come
  it is over by \<open>due\<close>. What is written is sent.\<close>

locale delivery = uart W now tick for W :: "'w world" and now :: "'w \<Rightarrow> rat" and tick :: rat +
  fixes ahead :: "'w \<Rightarrow> bytes" and due :: "'w \<Rightarrow> rat" and sent :: "'w \<Rightarrow> bytes"
  assumes clock_read: "w_time W w = (now w, w)"
    and hands_over: "\<exists>c v. w_read W 1024 w = (Inr c, v) \<and> ahead w = c @ ahead v \<and> sent v = sent w
      \<and> (ahead w = [] \<or> now v \<le> due w \<and> due v \<le> due w)"
    and write_sends: "sent (snd (w_write W bs w)) = sent w @ bs"
    and flush_sends: "sent (snd (w_flush W w)) = sent w"
begin

text \<open>The bytes the link has before it, and what it keeps besides them.\<close>

abbreviation pending :: "'w link \<Rightarrow> bytes" where "pending s \<equiv> rx_buf s @ ahead (ln_ser s)"

abbreviation books :: "'w link \<Rightarrow> int \<times> string \<times> int \<times> measurement option \<times> bytes" where
  "books s \<equiv> (ln_seq s, ln_protocol s, ln_late_frames s, ln_last_measurement s, sent (ln_ser s))"

abbreviation due_at :: "'w link \<Rightarrow> rat" where "due_at s \<equiv> due (ln_ser s)"

text \<open>What reading a frame does to the link: it took the frame, in time.\<close>

abbreviation took :: "'w link \<Rightarrow> bytes \<Rightarrow> 'w link \<Rightarrow> bool" where
  "took s l s' \<equiv> pending s' = l \<and> clk s \<le> clk s' \<and> clk s' \<le> max (clk s) (due_at s)
     \<and> due_at s' \<le> due_at s \<and> books s' = books s"

lemma read_loop_delivers:
  "scan (pending s) = (Some f, l, n) \<Longrightarrow> deadline - clk s \<le> of_nat k * tick \<Longrightarrow> clk s < deadline \<Longrightarrow>
    due_at s < deadline \<Longrightarrow> \<exists>s'. read_loop W deadline s = Some (Inr f, s') \<and> took s l s'"
proof (induction k arbitrary: s n)
  case 0
  then show ?case by simp
next
  case (Suc k)
  obtain fo u where u: "try_parse s = (fo, u)" by fastforce
  note keep = link_try_parse [OF u]
  show ?case
  proof (cases fo)
    case (Some g)
    with try_parse_scan [OF u] have
      "scan (pending s) = (Some g, rx_buf u @ ahead (ln_ser s), rx_resyncs u - rx_resyncs s)"
      using scan_commit by blast
    with Suc.prems(1) have "g = f" "rx_buf u @ ahead (ln_ser s) = l" by simp_all
    with Some u keep Suc.prems(3) show ?thesis
      by (subst read_loop.simps) (simp add: andthen_apply now_time_eq parse_step_eq clock_read)
  next
    case None
    from hands_over [of "ln_ser s"] obtain c v where v: "w_read W 1024 (ln_ser s) = (Inr c, v)"
      "ahead (ln_ser s) = c @ ahead v" "sent v = sent (ln_ser s)"
      "ahead (ln_ser s) = [] \<or> now v \<le> due_at s \<and> due v \<le> due_at s" by blast
    let ?t = "u\<lparr>ln_ser := v, rx_buf := rx_buf u @ c\<rparr>"
    from try_parse_scan [OF u] None have
      none: "scan (rx_buf s) = (None, rx_buf u, rx_resyncs u - rx_resyncs s)" by simp
    from scan_wait [OF this, of "ahead (ln_ser s)"] Suc.prems(1) obtain j where
      "scan (rx_buf u @ ahead (ln_ser s)) = (Some f, l, j)" by (auto split: prod.splits)
    then have sc: "scan (pending ?t) = (Some f, l, j)" by (simp add: v(2))
    have "ahead (ln_ser s) \<noteq> []" using none Suc.prems(1) by auto
    with v(4) have nv: "now v \<le> due_at s" "due v \<le> due_at s" by simp_all
    have tick: "clk s + tick \<le> now v" using read_costs [of "ln_ser s" 1024] v(1) by simp
    have "deadline - clk ?t \<le> of_nat k * tick" "clk ?t < deadline" "due_at ?t < deadline"
      using Suc.prems(2-4) tick nv by (simp_all add: algebra_simps)
    from Suc.IH [OF sc this] obtain s' where s': "read_loop W deadline ?t = Some (Inr f, s')" "took ?t l s'"
      by blast
    have "read_loop W deadline s = Some (Inr f, s')"
      using None u keep Suc.prems(3) v(1) s'(1)
      by (subst read_loop.simps) (simp add: andthen_apply now_time_eq parse_step_eq ser_read_eq clock_read)
    moreover have "took s l s'"
      using s'(2) keep tick tick_pos nv v(3) by auto
    ultimately show ?thesis by blast
  qed
qed

lemma read_frame_delivers:
  assumes "scan (pending s) = (Some f, l, n)" "0 < timeout" "due_at s < clk s + timeout"
  shows "\<exists>s'. read_frame W timeout s = Some (Inr f, s') \<and> took s l s'"
proof -
  obtain k where "clk s + timeout - clk s \<le> of_nat k * tick" using steps_enough by blast
  from read_loop_delivers [OF assms(1) this] assms(2,3) show ?thesis
    by (simp add: read_frame_def andthen_apply now_time_eq clock_read)
qed

lemma reply_loop_delivers:
  "yields (pending s) (olds @ [f]) l \<Longrightarrow> 0 < timeout \<Longrightarrow> due_at s < clk s + timeout \<Longrightarrow>
    \<forall>g\<in>set olds. fr_sequence g \<noteq> q \<Longrightarrow> fr_sequence f = q \<Longrightarrow>
    \<exists>s'. reply_loop W command q timeout s = Some (answer command f, s') \<and> pending s' = l \<and> books s' = books s"
proof (induction olds arbitrary: s)
  case Nil
  then obtain n where "scan (pending s) = (Some f, l, n)" by (auto simp: yields_Cons yields_Nil)
  from read_frame_delivers [OF this Nil.prems(2,3)] Nil.prems(5) show ?case
    by (subst reply_loop.simps) (auto simp: andthen_apply answer_def)
next
  case (Cons g olds)
  then obtain r n where r: "scan (pending s) = (Some g, r, n)" "yields r (olds @ [f]) l"
    by (auto simp: yields_Cons)
  from read_frame_delivers [OF r(1) Cons.prems(2,3)] obtain u where
    u: "read_frame W timeout s = Some (Inr g, u)" "took s r u" by blast
  have "yields (pending u) (olds @ [f]) l" "due_at u < clk u + timeout"
    using u(2) r(2) Cons.prems(3) by auto
  from Cons.IH [OF this(1) Cons.prems(2) this(2)] Cons.prems(4,5) obtain s' where
    "reply_loop W command q timeout u = Some (answer command f, s')" "pending s' = l" "books s' = books u"
    by auto
  with u Cons.prems(4) show ?case
    by (subst reply_loop.simps) (auto simp: andthen_apply)
qed

lemma send_raw_sends:
  assumes "send_raw W blob s = Some (Inr (), s1)"
  shows "sent (ln_ser s1) = sent (ln_ser s) @ blob" "rx_buf s1 = rx_buf s" "ln_seq s1 = ln_seq s"
    "ln_protocol s1 = ln_protocol s" "ln_late_frames s1 = ln_late_frames s"
proof -
  obtain w v where "w_write W blob (ln_ser s) = (Inr (), w)" "w_flush W w = (Inr (), v)" "s1 = s\<lparr>ln_ser := v\<rparr>"
    using assms by (auto simp: send_raw_def split: prod.splits sum.splits)
  moreover from this have "sent v = sent (ln_ser s) @ blob"
    using write_sends [of blob "ln_ser s"] flush_sends [of w] by simp
  ultimately show "sent (ln_ser s1) = sent (ln_ser s) @ blob" "rx_buf s1 = rx_buf s" "ln_seq s1 = ln_seq s"
    "ln_protocol s1 = ln_protocol s" "ln_late_frames s1 = ln_late_frames s" by simp_all
qed

lemma request_delivers:
  assumes "build_frame command q payload 0 = Inr blob" "q = (ln_seq s + 1) mod 2 ^ 32"
    and "send_raw W blob (s\<lparr>ln_seq := q\<rparr>) = Some (Inr (), s1)"
    and "yields (pending s1) (olds @ [f]) l" "\<forall>g\<in>set olds. fr_sequence g \<noteq> q" "fr_sequence f = q"
    and "0 < timeout" "due_at s1 < clk s1 + timeout"
  shows "\<exists>s'. request W command payload timeout s = Some (answer command f, s') \<and> pending s' = l
    \<and> sent (ln_ser s') = sent (ln_ser s) @ blob \<and> ln_seq s' = q"
proof -
  from reply_loop_delivers [OF assms(4,7,8,5,6)] obtain s' where
    "reply_loop W command q timeout s1 = Some (answer command f, s')" "pending s' = l" "books s' = books s1"
    by blast
  with assms(1-3) send_raw_sends [OF assms(3)] show ?thesis
    by (simp add: request_def andthen_apply next_seq_eq)
qed

lemma command_delivers:
  assumes "build_frame c q p 0 = Inr blob" "q = (ln_seq s + 1) mod 2 ^ 32" "c OR 0x80 \<noteq> NACK"
    and "send_raw W blob (s\<lparr>ln_seq := q\<rparr>) = Some (Inr (), s1)"
    and "struct_pack fs vals = Inr ans" "length (ans @ extra) \<le> MAX_PAYLOAD"
    and "build_frame (c OR 0x80) q (ans @ extra) fl = Inr w" "pending s1 = w @ rest"
    and "0 < timeout" "due_at s1 < clk s1 + timeout"
  shows "\<exists>f s'. request W c p timeout s = Some (Inr f, s') \<and> reply_fields fs f s' = Some (Inr vals, s')
    \<and> pending s' = rest \<and> sent (ln_ser s') = sent (ln_ser s) @ blob \<and> ln_seq s' = q"
proof -
  let ?f = "built_frame (c OR 0x80) q (ans @ extra) fl"
  have y: "yields (pending s1) ([] @ [?f]) rest"
    using yields_built [OF assms(7,6)] assms(8) by simp
  have "reply_fields fs ?f s' = Some (Inr vals, s')" for s' :: "'w link"
    using struct_pack_length [OF assms(5)] struct_roundtrip [OF assms(5)] by (simp add: reply_fields_def)
  moreover have "answer c ?f = Inr ?f" using assms(3) by (simp add: answer_def)
  ultimately show ?thesis
    using request_delivers [OF assms(1,2,4) y _ _ assms(9,10)] by fastforce
qed

lemma run_loop_delivers:
  "exch_trace q (phase acked, ln_late_frames s) fs (st, k') \<Longrightarrow> \<not> is_open st \<Longrightarrow> yields (pending s) fs l \<Longrightarrow>
    clk s < deadline \<Longrightarrow> due_at s < deadline \<Longrightarrow> due_at s < clk s + 5 \<Longrightarrow>
    \<exists>s'. run_loop W q deadline acked False s = Some (loop_result st, s') \<and> pending s' = l
      \<and> ln_late_frames s' = k' \<and> sent (ln_ser s') = sent (ln_ser s) \<and> ln_seq s' = ln_seq s
      \<and> (\<forall>m. st = Done m \<longrightarrow> ln_last_measurement s' = Some m)"
proof (induction fs arbitrary: s acked)
  case Nil
  then show ?case by (auto simp: exch_trace_Nil is_open_def split: if_splits)
next
  case (Cons f fs)
  from Cons.prems(1) obtain st1 k1 where step: "exch q (phase acked, ln_late_frames s) f (st1, k1)"
    and rest: "exch_trace q (st1, k1) fs (st, k')" by (auto simp: exch_trace_Cons)
  from Cons.prems(3) obtain r n where r: "scan (pending s) = (Some f, r, n)" "yields r fs l"
    by (auto simp: yields_Cons)
  let ?tm = "min 5 (max (1/2) (deadline - clk s))"
  have "0 < ?tm" "due_at s < clk s + ?tm"
    using Cons.prems(5,6) by (auto simp: min_def max_def)
  from read_frame_delivers [OF r(1) this] obtain u where
    u: "read_frame W ?tm s = Some (Inr f, u)" "took s r u" by blast
  have late: "ln_late_frames u = ln_late_frames s" using u(2) by simp
  note turn = run_loop_turn [OF clock_read Cons.prems(4) u(1) late step]
  show ?case
  proof (cases "is_open st1")
    case True
    let ?t = "u\<lparr>ln_late_frames := k1\<rparr>"
    have "exch_trace q (phase (st1 = Acked), ln_late_frames ?t) fs (st, k')"
      using rest True by (auto simp: is_open_def)
    moreover have "yields (pending ?t) fs l" "clk ?t < deadline" "due_at ?t < deadline" "due_at ?t < clk ?t + 5"
      using r(2) u(2) Cons.prems(4-6) by auto
    ultimately obtain s' where
      "run_loop W q deadline (st1 = Acked) False ?t = Some (loop_result st, s')" "pending s' = l"
      "ln_late_frames s' = k'" "sent (ln_ser s') = sent (ln_ser ?t)" "ln_seq s' = ln_seq ?t"
      "\<forall>m. st = Done m \<longrightarrow> ln_last_measurement s' = Some m"
      using Cons.IH [of "st1 = Acked" ?t] Cons.prems(2) by blast
    with turn True u(2) show ?thesis by auto
  next
    case False
    then have "fs = [] \<and> st = st1 \<and> k' = k1"
      using rest exch_trace_final by (cases st1) (auto simp: is_open_def)
    with turn False r(2) u(2) show ?thesis
      by (cases st1) (auto simp: yields_Nil is_open_def)
  qed
qed

lemma run_measured_delivers:
  assumes "exch_trace q (Waiting, ln_late_frames s) fs (st, k')" "\<not> is_open st"
    and "q = (ln_seq s + 1) mod 2 ^ 32" "build_frame CMD_RUN q [] 0 = Inr blob"
    and "send_raw W blob (s\<lparr>ln_seq := q\<rparr>) = Some (Inr (), s1)" "yields (pending s1) fs l"
    and "0 < timeout" "due_at s1 < clk s1 + min 5 timeout"
  shows "\<exists>s'. run_measured W timeout s = Some (verdict st, s') \<and> pending s' = l
      \<and> ln_late_frames s' = k' \<and> sent (ln_ser s') = sent (ln_ser s) @ blob
      \<and> (\<forall>m. st = Done m \<longrightarrow> ln_last_measurement s' = Some m)"
proof -
  note sends = send_raw_sends [OF assms(5)]
  have a: "exch_trace q (phase False, ln_late_frames s1) fs (st, k')" "clk s1 < clk s1 + timeout"
    "due_at s1 < clk s1 + timeout" "due_at s1 < clk s1 + 5"
    using assms(1,7,8) sends by auto
  from run_loop_delivers [OF a(1) assms(2,6) a(2-4)] obtain s' where
    s': "run_loop W q (clk s1 + timeout) False False s1 = Some (loop_result st, s')" "pending s' = l"
    "ln_late_frames s' = k'" "sent (ln_ser s') = sent (ln_ser s1)"
    "\<forall>m. st = Done m \<longrightarrow> ln_last_measurement s' = Some m" by blast
  have "run_measured W timeout s = Some (verdict st, s')"
    using assms(2-5) s'(1)
    by (cases st) (simp_all add: run_measured_def andthen_apply next_seq_eq now_time_eq clock_read is_open_def)
  with s' sends(1) show ?thesis by simp
qed

end

end
