(* ===== verification/Runner_Session.thy ===== *)
theory Runner_Session
  imports Port_Delivery
begin

text \<open>
  Sessions on the link: two scripted ports with a clock that meet the contracts \<open>uart\<close> and \<open>delivery\<close>, and
  the properties of the exchanges and of the commands. \<open>fake_world\<close> gives its script 1024 bytes at a time,
  like \<open>FakeSerial\<close> of \<open>host/tests/test_proto_unit.py\<close>, on a clock that a read advances by the port's
  timeout; \<open>timed_world\<close> gives the pieces of a list, each after a wait of its own.
\<close>

section \<open>The scripted ports\<close>

record fake =
  fk_now :: rat
  fk_script :: bytes
  fk_written :: bytes

definition fake_read :: "nat \<Rightarrow> fake \<Rightarrow> (exn + bytes) \<times> fake" where
  "fake_read n w = (Inr (take n (fk_script w)), w\<lparr>fk_script := drop n (fk_script w), fk_now := fk_now w + 1/5\<rparr>)"

definition fake_write :: "bytes \<Rightarrow> fake \<Rightarrow> (exn + unit) \<times> fake" where
  "fake_write data w = (Inr (), w\<lparr>fk_written := fk_written w @ data\<rparr>)"

definition fake_world :: "fake world" where
  "fake_world = \<lparr>w_time = (\<lambda>w. (fk_now w, w)), w_read = fake_read, w_write = fake_write,
                 w_flush = (\<lambda>w. (Inr (), w))\<rparr>"

lemma fake_world_simps [simp]:
  "w_time fake_world w = (fk_now w, w)"
  "w_read fake_world n w = (Inr (take n (fk_script w)), w\<lparr>fk_script := drop n (fk_script w), fk_now := fk_now w + 1/5\<rparr>)"
  "w_write fake_world data w = (Inr (), w\<lparr>fk_written := fk_written w @ data\<rparr>)"
  "w_flush fake_world w = (Inr (), w)"
  by (simp_all add: fake_world_def fake_read_def fake_write_def)

text \<open>One read per 1024 bytes is enough.\<close>

definition fake_due :: "fake \<Rightarrow> rat" where
  "fake_due w = fk_now w + of_nat ((length (fk_script w) + 1023) div 1024) / 5"

interpretation fakes: uart fake_world fk_now "1/5"
  by unfold_locales simp_all

lemma reads_left:
  assumes "0 < n"
  shows "(n + 1023) div 1024 = Suc ((n - 1024 + 1023) div (1024 :: nat))"
proof (cases "1024 \<le> n")
  case True
  then have "n - 1024 + 1023 = n + 1023 - 1024" by simp
  then show ?thesis using le_div_geq [of 1024 "n + 1023"] by simp
next
  case False
  then have "(n + 1023 - 1024) div 1024 = 0" "(n - 1024 + 1023) div 1024 = 0" by simp_all
  then show ?thesis using assms le_div_geq [of 1024 "n + 1023"] by simp
qed

lemma fake_due_short: "length (fk_script w) \<le> 1024 \<Longrightarrow> fake_due w \<le> fk_now w + 1/5"
proof -
  assume "length (fk_script w) \<le> 1024"
  then have "(length (fk_script w) + 1023) div 1024 \<le> 1" by simp
  then have "of_nat ((length (fk_script w) + 1023) div 1024) \<le> (of_nat 1 :: rat)" by (rule of_nat_mono)
  then show ?thesis by (simp add: fake_due_def)
qed

lemma fake_sends: "send_raw fake_world blob s
    = Some (Inr (), s\<lparr>ln_ser := (ln_ser s)\<lparr>fk_written := fk_written (ln_ser s) @ blob\<rparr>\<rparr>)"
  by (simp add: send_raw_def)

interpretation fake_line: delivery fake_world fk_now "1/5" fk_script fake_due fk_written
proof unfold_locales
  fix w :: fake
  let ?v = "w\<lparr>fk_script := drop 1024 (fk_script w), fk_now := fk_now w + 1/5\<rparr>"
  have "fake_due ?v = fake_due w" if "fk_script w \<noteq> []"
  proof -
    have "fake_due w = fk_now w + of_nat (Suc ((length (fk_script w) - 1024 + 1023) div 1024)) / 5"
      unfolding fake_due_def using that by (subst reads_left) simp_all
    also have "\<dots> = fake_due ?v" by (simp add: fake_due_def add_divide_distrib)
    finally show ?thesis by (rule sym)
  qed
  moreover have "fk_now ?v \<le> fake_due ?v" by (simp add: fake_due_def)
  ultimately have "fk_script w = [] \<or> fk_now ?v \<le> fake_due w \<and> fake_due ?v \<le> fake_due w"
    by fastforce
  then show "\<exists>c v. w_read fake_world 1024 w = (Inr c, v) \<and> fk_script w = c @ fk_script v
      \<and> fk_written v = fk_written w \<and> (fk_script w = [] \<or> fk_now v \<le> fake_due w \<and> fake_due v \<le> fake_due w)"
    by (intro exI [of _ "take 1024 (fk_script w)"] exI [of _ ?v]) simp
qed simp_all

lemma fake_port_ok: "port_ok fake_world"
  by (simp add: port_ok_def)

text \<open>The pieces, each with the milliseconds that are waited for it, less one. A piece may be empty: a read
  that timed out. What a read leaves of a piece comes with the next one.\<close>

record timed =
  tm_now :: rat
  tm_reads :: "(nat \<times> bytes) list"
  tm_written :: bytes

fun timed_read :: "nat \<Rightarrow> timed \<Rightarrow> (exn + bytes) \<times> timed" where
  "timed_read n w = (case tm_reads w of
       [] \<Rightarrow> (Inr [], w\<lparr>tm_now := tm_now w + 1/5\<rparr>)
     | (d, c) # rs \<Rightarrow> (Inr (take n c), w\<lparr>tm_now := tm_now w + (of_nat d + 1) / 1000,
           tm_reads := (if length c \<le> n then rs else (0, drop n c) # rs)\<rparr>))"

definition timed_world :: "timed world" where
  "timed_world = \<lparr>w_time = (\<lambda>w. (tm_now w, w)), w_read = timed_read,
     w_write = (\<lambda>data w. (Inr (), w\<lparr>tm_written := tm_written w @ data\<rparr>)), w_flush = (\<lambda>w. (Inr (), w))\<rparr>"

lemma timed_world_simps [simp]:
  "w_time timed_world w = (tm_now w, w)" "w_read timed_world n w = timed_read n w"
  "w_write timed_world data w = (Inr (), w\<lparr>tm_written := tm_written w @ data\<rparr>)"
  "w_flush timed_world w = (Inr (), w)"
  by (simp_all add: timed_world_def)

fun waits :: "(nat \<times> bytes) list \<Rightarrow> nat" where
  "waits [] = 0"
| "waits ((d, c) # rs) = d + 1 + (length c - 1) div 1024 + waits rs"

abbreviation timed_ahead :: "timed \<Rightarrow> bytes" where "timed_ahead w \<equiv> concat (map snd (tm_reads w))"

definition timed_due :: "timed \<Rightarrow> rat" where
  "timed_due w = tm_now w + of_nat (waits (tm_reads w)) / 1000"

interpretation timed_line: delivery timed_world tm_now "1/1000" timed_ahead timed_due tm_written
proof unfold_locales
  fix w :: timed
  show "\<exists>c v. w_read timed_world 1024 w = (Inr c, v) \<and> timed_ahead w = c @ timed_ahead v
      \<and> tm_written v = tm_written w \<and> (timed_ahead w = [] \<or> tm_now v \<le> timed_due w \<and> timed_due v \<le> timed_due w)"
  proof (cases "tm_reads w")
    case (Cons r rs)
    obtain d c where r: "r = (d, c)" by fastforce
    have "(length c - 1) div 1024 = 1 + (length (drop 1024 c) - 1) div 1024" if "1024 < length c"
      using that by (simp add: div_if [of "length c - 1"])
    then show ?thesis
      by (cases "length c \<le> 1024") (simp_all add: Cons r timed_due_def field_simps)
  qed simp
qed (auto split: list.split)

lemma timed_sends: "send_raw timed_world blob s
    = Some (Inr (), s\<lparr>ln_ser := (ln_ser s)\<lparr>tm_written := tm_written (ln_ser s) @ blob\<rparr>\<rparr>)"
  by (simp add: send_raw_def)

lemma run_eq_measured: "ln_protocol s = PROTO_MEASURE_V2 \<Longrightarrow> run W timeout s = run_measured W timeout s"
  by (simp add: run_def PROTO_MEASURE_V2_def PROTO_FUNCTIONAL_V1_def)

text \<open>A session for the examples: the board acknowledges and completes run 7.\<close>

definition idle_link :: "bytes \<Rightarrow> fake link" where
  "idle_link script = \<lparr>rx_buf = [], rx_text_log = [], rx_resyncs = 0, ln_protocol = PROTO_MEASURE_V2,
     ln_late_frames = 0, ln_last_measurement = None, ln_seq = 0,
     ln_ser = \<lparr>fk_now = 0, fk_script = script, fk_written = []\<rparr>\<rparr>"

lemma idle_link_simps [simp]:
  "rx_buf (idle_link b) = []" "ln_protocol (idle_link b) = PROTO_MEASURE_V2" "ln_late_frames (idle_link b) = 0"
  "ln_seq (idle_link b) = 0" "ln_ser (idle_link b) = \<lparr>fk_now = 0, fk_script = b, fk_written = []\<rparr>"
  by (simp_all add: idle_link_def)

abbreviation sample_record :: bytes where "sample_record \<equiv> seal_payload 7 15 0 (replicate 47 0)"

lemma sample_record:
  "parse_measurement_payload sample_record = Inr (measurement_of 7 15 0 (replicate 47 0))"
  "length sample_record = 220"
  by (rule parse_seal) (simp_all add: words_ok_def list_all_iff seal_payload_def del: replicate.simps)

lemma sample_session:
  obtains script where
    "yields script [built_frame 0xB0 1 [] 0, built_frame 0x31 1 sample_record 0] []" "length script \<le> 1024"
    "exch_trace 1 (Waiting, 0) [built_frame 0xB0 1 [] 0, built_frame 0x31 1 sample_record 0]
       (Done (measurement_of 7 15 0 (replicate 47 0)), 0)"
proof -
  obtain wa where wa: "build_frame 0xB0 1 [] 0 = Inr wa"
    using build_frame_ok_iff [of "0xB0" 1 "[]" 0] by auto
  obtain wc where wc: "build_frame 0x31 1 sample_record 0 = Inr wc"
    using build_frame_ok_iff [of "0x31" 1 sample_record 0] sample_record(2) by auto
  have l: "length wa = 20" "length wc = 240"
    using build_frame_examine(3) [OF wa] build_frame_examine(3) [OF wc] sample_record(2)
    by (simp_all add: MAX_PAYLOAD_def)
  have "yields (wa @ wc) [built_frame 0xB0 1 [] 0] wc" "yields (wc @ []) [built_frame 0x31 1 sample_record 0] []"
    using yields_built [OF wa, of wc] yields_built [OF wc, of "[]"] sample_record(2)
    by (simp_all add: MAX_PAYLOAD_def)
  then have y: "yields (wa @ wc) [built_frame 0xB0 1 [] 0, built_frame 0x31 1 sample_record 0] []"
    using yields_append by fastforce
  have "exch_trace 1 (Waiting, 0) [built_frame 0xB0 1 [] 0, built_frame 0x31 1 sample_record 0]
       (Done (measurement_of 7 15 0 (replicate 47 0)), 0)"
    by (rule exch_trace.move [OF exch.ack exch_trace.move [OF exch.complete exch_trace.stop]])
      (use sample_record(1) in \<open>simp_all add: cmd_defs\<close>)
  with y l show ?thesis by (intro that [of "wa @ wc"]) simp_all
qed

section \<open>Properties\<close>

text \<open>\<open>read_frame\<close> always returns, with a frame or an exception, on a port whose reads take time.\<close>

theorem read_frame_terminates:
  assumes "uart W now tick"
  shows "\<exists>r s'. read_frame W timeout s = Some (r, s')"
  using uart.read_frame_returns [OF assms] by blast

lemma read_frame_terminates_witness: "\<exists>r s'. read_frame fake_world 5 (idle_link [78, 85]) = Some (r, s')"
  by (rule read_frame_terminates [OF fakes.uart_axioms])

text \<open>C8. A measured \<open>run\<close> always returns on a port whose reads take time, whatever the board sends: the
  overall deadline also bounds a flood of straggling frames.\<close>

theorem measured_run_terminates:
  assumes "uart W now tick" "ln_protocol s = PROTO_MEASURE_V2"
  shows "\<exists>r s'. run W timeout s = Some (r, s')"
  using uart.run_measured_returns [OF assms(1)] by (simp add: run_eq_measured [OF assms(2)])

lemma measured_run_terminates_witness: "\<exists>r s'. run fake_world 30 (idle_link [78, 85]) = Some (r, s')"
  by (rule measured_run_terminates [OF fakes.uart_axioms]) simp

text \<open>C9. A measured \<open>run\<close> refines the exchange automaton: it sends one \<open>CMD_RUN\<close> frame with the next
  sequence number, and what it returns or raises, and how many frames it counts as late, is the verdict of
  the automaton on the frames it then reads; after a success \<open>last_measurement\<close> is the record received.\<close>

theorem run_refines_exchange:
  assumes "run W timeout s = Some (r, s')" "ln_protocol s = PROTO_MEASURE_V2" "port_ok W"
    and "q = (ln_seq s + 1) mod 2 ^ 32"
  shows "\<exists>blob s1 fs st. build_frame CMD_RUN q [] 0 = Inr blob
    \<and> send_raw W blob (s\<lparr>ln_seq := q\<rparr>) = Some (Inr (), s1) \<and> heard W s1 fs s'
    \<and> exch_trace q (Waiting, ln_late_frames s) fs (st, ln_late_frames s')
    \<and> r = verdict st \<and> (\<forall>m. st = Done m \<longrightarrow> ln_last_measurement s' = Some m)"
  using run_measured_follows [of W timeout s r s'] assms by (simp add: run_eq_measured)

lemma run_refines_exchange_witness:
  "\<exists>r s' fs st. run fake_world 30 (idle_link [78, 85]) = Some (r, s')
     \<and> exch_trace 1 (Waiting, 0) fs (st, ln_late_frames s') \<and> r = verdict st"
proof -
  obtain r s' where "run fake_world 30 (idle_link [78, 85]) = Some (r, s')"
    using fakes.run_measured_returns [of 30 "idle_link [78, 85]"] by (auto simp: run_eq_measured)
  with run_refines_exchange [OF this _ fake_port_ok, of 1] show ?thesis by auto
qed

text \<open>C10. \<open>run\<close> under measure-v2 returns a result code only after the whole exchange in order. From the
  state after its one \<open>CMD_RUN\<close> frame was written it heard: stragglers
  of other sequence numbers, then one ACK of this run, then frames that were set aside (no second ACK, no
  NACK of this run), then a \<open>RUN_COMPLETE\<close> whose record parses and carries that code.\<close>

theorem run_success_order:
  assumes "run W timeout s = Some (Inr rc, s')" "ln_protocol s = PROTO_MEASURE_V2" "port_ok W"
    and "q = (ln_seq s + 1) mod 2 ^ 32"
  shows "\<exists>blob s1 pre ack mid fin m. build_frame CMD_RUN q [] 0 = Inr blob
    \<and> send_raw W blob (s\<lparr>ln_seq := q\<rparr>) = Some (Inr (), s1) \<and> heard W s1 (pre @ ack # mid @ [fin]) s'
    \<and> (\<forall>f\<in>set pre. fr_sequence f \<noteq> q \<and> fr_command f \<noteq> CMD_RUN_COMPLETE)
    \<and> fr_sequence ack = q \<and> fr_command ack = CMD_RUN OR 0x80
    \<and> (\<forall>f\<in>set mid. fr_command f \<noteq> CMD_RUN_COMPLETE
          \<and> (fr_sequence f = q \<longrightarrow> fr_command f \<noteq> NACK \<and> fr_command f \<noteq> CMD_RUN OR 0x80))
    \<and> fr_command fin = CMD_RUN_COMPLETE \<and> parse_measurement_payload (fr_payload fin) = Inr m
    \<and> rc = me_run_rc m \<and> ln_last_measurement s' = Some m
    \<and> ln_late_frames s' = ln_late_frames s + int (length pre) + int (length mid)"
proof -
  from run_measured_follows [of W timeout s "Inr rc" s'] assms obtain blob s1 fs st where
    b: "build_frame CMD_RUN q [] 0 = Inr blob" "send_raw W blob (s\<lparr>ln_seq := q\<rparr>) = Some (Inr (), s1)"
    and h: "heard W s1 fs s'" and tr: "exch_trace q (Waiting, ln_late_frames s) fs (st, ln_late_frames s')"
    and v: "Inr rc = verdict st" "\<forall>m. st = Done m \<longrightarrow> ln_last_measurement s' = Some m"
    by (auto simp: run_eq_measured)
  from v obtain m where m: "st = Done m" "rc = me_run_rc m" "ln_last_measurement s' = Some m"
    by (cases st) auto
  from exch_trace_Waiting_Done [OF tr [unfolded m(1)]] obtain pre ack mid fin where
    "fs = pre @ ack # mid @ [fin]" "\<forall>f\<in>set pre. stale q f" "fr_sequence ack = q"
    "fr_command ack = CMD_RUN OR 0x80" "\<forall>f\<in>set mid. set_aside q f" "fr_command fin = CMD_RUN_COMPLETE"
    "parse_measurement_payload (fr_payload fin) = Inr m"
    "ln_late_frames s' = ln_late_frames s + int (length pre) + int (length mid)" by blast
  with b h m show ?thesis
    by (intro exI [of _ blob] exI [of _ s1] exI [of _ pre] exI [of _ ack] exI [of _ mid] exI [of _ fin] exI [of _ m])
      (auto simp: stale_def set_aside_def)
qed

lemma sample_run:
  obtains script s' where "run fake_world 30 (idle_link script) = Some (Inr 0, s')"
    "yields script [built_frame 0xB0 1 [] 0, built_frame 0x31 1 sample_record 0] []" "length script \<le> 1024"
    "exch_trace 1 (Waiting, 0) [built_frame 0xB0 1 [] 0, built_frame 0x31 1 sample_record 0]
       (Done (measurement_of 7 15 0 (replicate 47 0)), 0)"
proof -
  obtain script where y: "yields script [built_frame 0xB0 1 [] 0, built_frame 0x31 1 sample_record 0] []"
    "length script \<le> 1024"
    "exch_trace 1 (Waiting, 0) [built_frame 0xB0 1 [] 0, built_frame 0x31 1 sample_record 0]
       (Done (measurement_of 7 15 0 (replicate 47 0)), 0)" by (rule sample_session)
  obtain blob where blob: "build_frame CMD_RUN 1 [] 0 = Inr blob"
    using build_frame_ok_iff [of CMD_RUN 1 "[]" 0] by (auto simp: CMD_RUN_def)
  have "fake_due \<lparr>fk_now = 0, fk_script = script, fk_written = blob\<rparr> \<le> 1/5"
    using fake_due_short [of "\<lparr>fk_now = 0, fk_script = script, fk_written = blob\<rparr>"] y(2) by simp
  then have "\<exists>s'. run_measured fake_world 30 (idle_link script)
      = Some (verdict (Done (measurement_of 7 15 0 (replicate 47 0))), s')"
    using fake_line.run_measured_delivers [OF _ _ _ blob fake_sends, of "idle_link script" _ "Done _" 0 "[]" 30] y
    by (fastforce simp: is_open_def)
  then obtain s' where "run_measured fake_world 30 (idle_link script) = Some (Inr 0, s')"
    by (auto simp: measurement_of_def)
  then show ?thesis using y by (intro that [of script s']) (simp_all add: run_eq_measured)
qed

lemma run_success_order_witness:
  "\<exists>script s' blob s1 pre ack mid fin. run fake_world 30 (idle_link script) = Some (Inr 0, s')
     \<and> send_raw fake_world blob ((idle_link script)\<lparr>ln_seq := 1\<rparr>) = Some (Inr (), s1)
     \<and> heard fake_world s1 (pre @ ack # mid @ [fin]) s' \<and> fr_command ack = CMD_RUN OR 0x80"
proof -
  obtain script s' where r: "run fake_world 30 (idle_link script) = Some (Inr 0, s')" by (rule sample_run)
  have "(1 :: int) = (ln_seq (idle_link script) + 1) mod 2 ^ 32" by simp
  from run_success_order [OF r idle_link_simps(2) fake_port_ok this] r show ?thesis by blast
qed

text \<open>C11. Let the line carry, after the \<open>CMD_RUN\<close> frame of this run was written, frames that take the
  exchange to a final state, in reads of any size and with any waits between them, an empty read included,
  as long as the last byte is there within five seconds and before the timeout. Then \<open>run\<close> under measure-v2
  does end with the verdict of that state: the result code after a \<open>RUN_COMPLETE\<close>, the NACK, or the
  violation of the order. It sends exactly that frame and leaves what follows on the line unread. The five
  seconds are the code's own: it waits no longer than that for one frame.\<close>

theorem measured_run_answered:
  assumes "delivery W now tick ahead due sent" "ln_protocol s = PROTO_MEASURE_V2"
    and "q = (ln_seq s + 1) mod 2 ^ 32" "build_frame CMD_RUN q [] 0 = Inr blob"
    and "send_raw W blob (s\<lparr>ln_seq := q\<rparr>) = Some (Inr (), s1)"
    and "yields (rx_buf s1 @ ahead (ln_ser s1)) fs rest"
    and "exch_trace q (Waiting, ln_late_frames s) fs (st, n)" "\<not> is_open st"
    and "0 < timeout" "due (ln_ser s1) < now (ln_ser s1) + min 5 timeout"
  shows "\<exists>s'. run W timeout s = Some (verdict st, s') \<and> rx_buf s' @ ahead (ln_ser s') = rest
      \<and> ln_late_frames s' = n \<and> sent (ln_ser s') = sent (ln_ser s) @ blob
      \<and> (\<forall>m. st = Done m \<longrightarrow> ln_last_measurement s' = Some m)"
  using delivery.run_measured_delivers [OF assms(1,7,8,3,4,5,6,9,10)] by (simp add: run_eq_measured [OF assms(2)])

text \<open>The witness reads the frames of a session in three pieces, the second of them empty.\<close>

definition timed_link :: "(nat \<times> bytes) list \<Rightarrow> timed link" where
  "timed_link rs = \<lparr>rx_buf = [], rx_text_log = [], rx_resyncs = 0, ln_protocol = PROTO_MEASURE_V2,
     ln_late_frames = 0, ln_last_measurement = None, ln_seq = 0,
     ln_ser = \<lparr>tm_now = 0, tm_reads = rs, tm_written = []\<rparr>\<rparr>"

lemma timed_link_simps [simp]:
  "rx_buf (timed_link b) = []" "ln_protocol (timed_link b) = PROTO_MEASURE_V2" "ln_late_frames (timed_link b) = 0"
  "ln_seq (timed_link b) = 0" "ln_ser (timed_link b) = \<lparr>tm_now = 0, tm_reads = b, tm_written = []\<rparr>"
  by (simp_all add: timed_link_def)

abbreviation pieces :: "bytes \<Rightarrow> (nat \<times> bytes) list" where
  "pieces script \<equiv> [(39, take 7 script), (199, []), (2000, drop 7 script)]"

lemma pieces_in_time:
  assumes "length script \<le> 1024"
  shows "timed_due \<lparr>tm_now = 0, tm_reads = pieces script, tm_written = b\<rparr> < 0 + min 5 5"
    "concat (map snd (pieces script)) = script"
proof -
  have "waits (pieces script) \<le> 2241" using assms by (simp add: min_def)
  then have "of_nat (waits (pieces script)) \<le> (of_nat 2241 :: rat)" by (rule of_nat_mono)
  then show "timed_due \<lparr>tm_now = 0, tm_reads = pieces script, tm_written = b\<rparr> < 0 + min 5 5"
    by (simp add: timed_due_def del: waits.simps)
qed simp

lemma measured_run_answered_witness:
  "\<exists>script s'. run timed_world 5 (timed_link (pieces script)) = Some (Inr 0, s')
     \<and> rx_buf s' @ timed_ahead (ln_ser s') = [] \<and> ln_late_frames s' = 0"
proof -
  obtain script where y: "yields script [built_frame 0xB0 1 [] 0, built_frame 0x31 1 sample_record 0] []"
    "length script \<le> 1024"
    "exch_trace 1 (Waiting, 0) [built_frame 0xB0 1 [] 0, built_frame 0x31 1 sample_record 0]
       (Done (measurement_of 7 15 0 (replicate 47 0)), 0)" by (rule sample_session)
  obtain blob where blob: "build_frame CMD_RUN 1 [] 0 = Inr blob"
    using build_frame_ok_iff [of CMD_RUN 1 "[]" 0] by (auto simp: CMD_RUN_def)
  have "\<exists>s'. run timed_world 5 (timed_link (pieces script))
      = Some (verdict (Done (measurement_of 7 15 0 (replicate 47 0))), s')
      \<and> rx_buf s' @ timed_ahead (ln_ser s') = [] \<and> ln_late_frames s' = 0"
    using measured_run_answered [where s = "timed_link (pieces script)" and timeout = 5 and rest = "[]"
          and st = "Done (measurement_of 7 15 0 (replicate 47 0))" and n = 0,
        OF timed_line.delivery_axioms _ _ blob timed_sends] y pieces_in_time(1) [OF y(2), of blob] pieces_in_time(2) [OF y(2)]
    by (fastforce simp: is_open_def)
  then show ?thesis by (auto simp: measurement_of_def)
qed

lemma sample_ping:
  obtains script blob s' where "build_frame 1 1 [] 0 = Inr blob"
    "request fake_world 1 [] 5 (idle_link script) = Some (Inr (built_frame 0x81 1 [] 0), s')"
    "yields script ([built_frame 0x81 9 [] 0] @ [built_frame 0x81 1 [] 0]) []" "length script = 40"
proof -
  obtain blob where blob: "build_frame 1 1 [] 0 = Inr blob"
    using build_frame_ok_iff [of 1 1 "[]" 0] by auto
  obtain v w where v: "build_frame 0x81 9 [] 0 = Inr v" and w: "build_frame 0x81 1 [] 0 = Inr w"
    using build_frame_ok_iff [of "0x81" 9 "[]" 0] build_frame_ok_iff [of "0x81" 1 "[]" 0] by auto
  have y: "yields (v @ w) ([built_frame 0x81 9 [] 0] @ [built_frame 0x81 1 [] 0]) []"
    by (rule yields_append [of _ _ w]) (use yields_built [OF v, of w] yields_built [OF w, of "[]"] in simp_all)
  have l: "length (v @ w) = 40"
    using build_frame_examine(3) [OF v] build_frame_examine(3) [OF w] by simp
  have q: "(1 :: int) = (ln_seq (idle_link (v @ w)) + 1) mod 2 ^ 32" by simp
  have "\<exists>s'. request fake_world 1 [] 5 (idle_link (v @ w)) = Some (answer 1 (built_frame 0x81 1 [] 0), s')"
    using fake_line.request_delivers [OF blob q fake_sends, of "[built_frame 0x81 9 [] 0]" "built_frame 0x81 1 [] 0" "[]" 5]
      y fake_due_short [of "\<lparr>fk_now = 0, fk_script = v @ w, fk_written = blob\<rparr>"] l
    by auto
  then obtain s' where r: "request fake_world 1 [] 5 (idle_link (v @ w)) = Some (Inr (built_frame 0x81 1 [] 0), s')"
    by (auto simp: answer_def NACK_def)
  show ?thesis by (rule that [OF blob r y l])
qed

text \<open>C12. \<open>request\<close> sends one frame with the next sequence number modulo \<open>2 ^ 32\<close>. It skips every frame
  of another sequence number; the first frame of this one decides: \<open>Nack\<close>, an unexpected response, or the
  reply. Otherwise it raises the timeout.\<close>

theorem request_outcome:
  assumes "request W command payload timeout s = Some (r, s')" "port_ok W"
    and "q = (ln_seq s + 1) mod 2 ^ 32" "build_frame command q payload 0 = Inr blob"
  shows "ln_seq s' = q \<and> (\<exists>s1. send_raw W blob (s\<lparr>ln_seq := q\<rparr>) = Some (Inr (), s1) \<and>
    ((\<exists>olds f. heard W s1 (olds @ [f]) s' \<and> (\<forall>g\<in>set olds. fr_sequence g \<noteq> q) \<and> fr_sequence f = q
        \<and> r = (if fr_command f = NACK then Inl (nack_of f)
               else if fr_command f \<noteq> command OR 0x80
                 then Inl (ProtocolError (UnexpectedResponse (fr_command f) command))
               else Inr f))
     \<or> (\<exists>olds. heard W s1 olds s' \<and> (\<forall>g\<in>set olds. fr_sequence g \<noteq> q) \<and> r = Inl (ProtocolError TimedOut))))"
proof -
  obtain w where w: "send_raw W blob (s\<lparr>ln_seq := q\<rparr>) = Some (Inr (), s\<lparr>ln_seq := q, ln_ser := w\<rparr>)"
    using send_raw_ok [OF assms(2), of blob "s\<lparr>ln_seq := q\<rparr>"] by auto
  have "reply_loop W command q timeout (s\<lparr>ln_seq := q, ln_ser := w\<rparr>) = Some (r, s')"
    using assms(1,3,4) w by (simp add: request_def andthen_apply next_seq_eq)
  from reply_loop_outcome [OF this assms(2)] w show ?thesis
    unfolding answer_def by auto
qed

lemma request_outcome_witness:
  "\<exists>script s' s1 olds f. request fake_world 1 [] 5 (idle_link script) = Some (Inr (built_frame 0x81 1 [] 0), s')
     \<and> heard fake_world s1 (olds @ [f]) s' \<and> (\<forall>g\<in>set olds. fr_sequence g \<noteq> 1) \<and> fr_sequence f = 1"
proof -
  obtain script blob s' where b: "build_frame 1 1 [] 0 = Inr blob"
    and r: "request fake_world 1 [] 5 (idle_link script) = Some (Inr (built_frame 0x81 1 [] 0), s')"
    by (rule sample_ping)
  have "(1 :: int) = (ln_seq (idle_link script) + 1) mod 2 ^ 32" by simp
  from request_outcome [OF r fake_port_ok this b] r show ?thesis by blast
qed

text \<open>C13. Let the line carry, after the request was written, frames of other sequence numbers and then the
  answer, in reads of any size and with any waits, all of it before the timeout has passed. Then a request
  that is not refused returns that answer, has sent its one frame, and the bytes behind the answer stay for
  the next exchange.\<close>

theorem request_answered:
  assumes "delivery W now tick ahead due sent"
    and "q = (ln_seq s + 1) mod 2 ^ 32" "build_frame command q payload 0 = Inr blob"
    and "send_raw W blob (s\<lparr>ln_seq := q\<rparr>) = Some (Inr (), s1)"
    and "yields (rx_buf s1 @ ahead (ln_ser s1)) (olds @ [f]) rest"
    and "\<forall>g\<in>set olds. fr_sequence g \<noteq> q" "fr_sequence f = q"
    and "fr_command f = command OR 0x80" "fr_command f \<noteq> NACK"
    and "0 < timeout" "due (ln_ser s1) < now (ln_ser s1) + timeout"
  shows "\<exists>s'. request W command payload timeout s = Some (Inr f, s') \<and> rx_buf s' @ ahead (ln_ser s') = rest
    \<and> sent (ln_ser s') = sent (ln_ser s) @ blob \<and> ln_seq s' = q"
  using delivery.request_delivers [OF assms(1,3,2,4-7,10,11)] assms(8,9) by (simp add: answer_def)

lemma request_answered_witness:
  "\<exists>script s'. request timed_world 1 [] 5 (timed_link (pieces script)) = Some (Inr (built_frame 0x81 1 [] 0), s')
     \<and> rx_buf s' @ timed_ahead (ln_ser s') = []"
proof -
  obtain script blob where b: "build_frame 1 1 [] 0 = Inr blob" "length script = 40"
    and y: "yields script ([built_frame 0x81 9 [] 0] @ [built_frame 0x81 1 [] 0]) []"
    by (rule sample_ping)
  from b(2) have "length script \<le> 1024" by simp
  from request_answered [where s = "timed_link (pieces script)" and timeout = 5 and rest = "[]"
        and olds = "[built_frame 0x81 9 [] 0]" and f = "built_frame 0x81 1 [] 0",
      OF timed_line.delivery_axioms _ b(1) timed_sends] y pieces_in_time(1) [OF this, of blob] pieces_in_time(2) [OF this]
  show ?thesis by (fastforce simp: NACK_def)
qed

text \<open>Under measure-v2 \<open>get_result\<close> without a run sequence raises and sends nothing; with one it sends
  the 12-byte request that names the run, and the board's four fields come back as they were packed.\<close>

theorem get_result_names_run:
  assumes "delivery W now tick ahead due sent"
    and "ln_protocol s = PROTO_MEASURE_V2" "q = (ln_seq s + 1) mod 2 ^ 32"
    and "struct_pack [FI, FI, FI] [base, len, run_sequence] = Inr p" "build_frame CMD_GET_RESULT q p 0 = Inr blob"
    and "send_raw W blob (s\<lparr>ln_seq := q\<rparr>) = Some (Inr (), s1)"
    and "struct_pack [Fi, FI, FI, FI] [rc, base', len', crc] = Inr ans"
    and "build_frame (CMD_GET_RESULT OR 0x80) q ans fl = Inr w"
    and "rx_buf s1 @ ahead (ln_ser s1) = w @ rest" "due (ln_ser s1) < now (ln_ser s1) + 10"
  shows "get_result W base len None s = Some (Inl (ProtocolError SequenceRequired), s)
    \<and> length p = 12
    \<and> (\<exists>s'. get_result W base len (Some run_sequence) s = Some (Inr [rc, base', len', crc], s')
        \<and> sent (ln_ser s') = sent (ln_ser s) @ blob \<and> rx_buf s' @ ahead (ln_ser s') = rest)"
proof -
  have l: "length ans = 16" using struct_pack_length [OF assms(7)] by simp
  have "CMD_GET_RESULT OR 0x80 \<noteq> NACK" by (simp add: cmd_defs)
  from delivery.command_delivers [OF assms(1,5,3) this assms(6,7), of "[]" fl w rest 10] assms(8-10) l obtain f s' where
    "request W CMD_GET_RESULT p 10 s = Some (Inr f, s')"
    "reply_fields [Fi, FI, FI, FI] f s' = Some (Inr [rc, base', len', crc], s')"
    "rx_buf s' @ ahead (ln_ser s') = rest" "sent (ln_ser s') = sent (ln_ser s) @ blob"
    by (auto simp: MAX_PAYLOAD_def)
  with assms(2,4) struct_pack_length [OF assms(4)] show ?thesis
    by (simp add: get_result_def andthen_apply)
qed

lemma get_result_names_run_witness:
  "\<exists>script s'. get_result fake_world 0x90020cc0 0x100 None (idle_link script)
       = Some (Inl (ProtocolError SequenceRequired), idle_link script)
     \<and> get_result fake_world 0x90020cc0 0x100 (Some 3) (idle_link script)
       = Some (Inr [-1, 0x90020cc0, 0x100, 0x27084C4C], s')"
proof -
  obtain p where p: "struct_pack [FI, FI, FI] [0x90020cc0, 0x100, 3] = Inr p" by simp
  obtain ans where a: "struct_pack [Fi, FI, FI, FI] [-1, 0x90020cc0, 0x100, 0x27084C4C] = Inr ans" by simp
  have l: "length p = 12" "length ans = 16" using struct_pack_length [OF p] struct_pack_length [OF a] by simp_all
  obtain blob where b: "build_frame CMD_GET_RESULT 1 p 0 = Inr blob"
    using build_frame_ok_iff [of CMD_GET_RESULT 1 p 0] l by (auto simp: cmd_defs)
  obtain w where w: "build_frame (CMD_GET_RESULT OR 0x80) 1 ans 0 = Inr w"
    using build_frame_ok_iff [of "CMD_GET_RESULT OR 0x80" 1 ans 0] l by (auto simp: cmd_defs)
  have "length w = 36" using build_frame_examine(3) [OF w] l by (simp add: MAX_PAYLOAD_def)
  then have "fake_due \<lparr>fk_now = 0, fk_script = w, fk_written = blob\<rparr> < 10"
    using fake_due_short [of "\<lparr>fk_now = 0, fk_script = w, fk_written = blob\<rparr>"] by simp
  with get_result_names_run [OF fake_line.delivery_axioms idle_link_simps(2) _ p b fake_sends a w, of w "[]"]
  show ?thesis by auto
qed

text \<open>\<open>set_instrumentation_mode\<close> refuses more than eight event codes before anything is sent. Otherwise
  the request always has the fixed 44-byte form: mode, event set, count, and eight slots of which the unused
  ones are zero; a value that does not fit a word raises without sending.\<close>

theorem instrumentation_request:
  "set_instrumentation_mode W mode codes sid s =
     (if 8 < length codes then Some (Inl (ProtocolError TooManyEventCodes), s)
      else if \<not> words_ok (mode # sid # codes) then Some (Inl StructError, s)
      else andthen (request W CMD_SET_INSTRUMENTATION_MODE
             (enc_words ([mode, sid, int (length codes)] @ codes @ replicate (8 - length codes) 0)) 5)
             (reply_fields [FI, FI, FI, FI]) s)"
proof -
  have z: "enc_words (replicate n 0) = replicate (4 * n) 0" for n
    by (induction n) (simp_all add: fmt_enc_def numeral_eq_Suc)
  note pack = struct_pack_words_iff [of "length codes" codes] struct_pack_words_iff [of 3 "[mode, sid, int (length codes)]"]
  have three: "replicate 3 FI = [FI, FI, FI]" by (simp add: numeral_eq_Suc)
  show ?thesis
  proof (cases "words_ok codes")
    case True
    then have "struct_pack (replicate (length codes) FI) codes = Inr (enc_words codes)"
      by (simp add: pack)
    with True show ?thesis
      by (auto simp: set_instrumentation_mode_def andthen_apply z)
  next
    case False
    then obtain e where "struct_pack (replicate (length codes) FI) codes = Inl e"
      using pack(1) by (cases "struct_pack (replicate (length codes) FI) codes") auto
    with struct_pack_Inl have "struct_pack (replicate (length codes) FI) codes = Inl StructError" by blast
    with False show ?thesis
      by (auto simp: set_instrumentation_mode_def andthen_apply bind_res_def)
  qed
qed

end
