(* ===== verification/Py_Text.thy ===== *)
theory Py_Text
  imports Py_Base "HOL-Library.Char_ord" "HOL-Library.List_Lexorder"
begin

text \<open>
  Text as the host scripts handle it: character classes, \<open>split\<close>, \<open>splitlines\<close>, numerals with \<open>int(text, 0)\<close>, and sets of
  names as duplicate-free lists with \<open>sorted\<close>. Strings are ASCII. A regular expression of a script is
  modelled where it is used, by a matcher over these classes.
\<close>

section \<open>Character classes\<close>

definition is_blank :: "char \<Rightarrow> bool" where
  "is_blank c \<longleftrightarrow> (let n = of_char c :: nat in 9 \<le> n \<and> n \<le> 13 \<or> 28 \<le> n \<and> n \<le> 32)"

definition among :: "char \<Rightarrow> char \<Rightarrow> char \<Rightarrow> bool" where
  "among lo hi c \<longleftrightarrow> lo \<le> c \<and> c \<le> hi"

definition is_digit :: "char \<Rightarrow> bool" where
  "is_digit = among CHR ''0'' CHR ''9''"

definition is_hex :: "char \<Rightarrow> bool" where
  "is_hex c \<longleftrightarrow> is_digit c \<or> among CHR ''a'' CHR ''f'' c \<or> among CHR ''A'' CHR ''F'' c"

text \<open>\<open>\w\<close>: a letter, a digit or an underscore.\<close>

definition is_word :: "char \<Rightarrow> bool" where
  "is_word c \<longleftrightarrow> c = CHR ''_'' \<or> is_digit c \<or> among CHR ''A'' CHR ''Z'' c \<or> among CHR ''a'' CHR ''z'' c"

definition is_newline :: "char \<Rightarrow> bool" where
  "is_newline c \<longleftrightarrow> (let n = of_char c :: nat in 10 \<le> n \<and> n \<le> 13 \<or> 28 \<le> n \<and> n \<le> 30)"

section \<open>Numerals\<close>

definition digit_value :: "char \<Rightarrow> int" where
  "digit_value c =
     (let n = int (of_char c) in if n < 58 then n - 48 else if n < 91 then n - 55 else n - 87)"

definition numeral_value :: "int \<Rightarrow> string \<Rightarrow> int" where
  "numeral_value base ds = foldl (\<lambda>v c. base * v + digit_value c) 0 ds"

text \<open>\<open>str(n)\<close>, and \<open>%0kX\<close> for a natural number.\<close>

definition digit_char :: "nat \<Rightarrow> char" where
  "digit_char d = char_of (if d < 10 then 48 + d else 55 + d)"

fun digits_of :: "nat \<Rightarrow> nat \<Rightarrow> string" where
  "digits_of base n = (if base < 2 \<or> n < base then [digit_char n]
     else digits_of base (n div base) @ [digit_char (n mod base)])"

declare digits_of.simps [simp del]

definition decimal :: "int \<Rightarrow> string" where
  "decimal n = (if n < 0 then CHR ''-'' # digits_of 10 (nat (- n)) else digits_of 10 (nat n))"

definition hex_upper :: "nat \<Rightarrow> int \<Rightarrow> string" where
  "hex_upper width n = (let ds = digits_of 16 (nat n) in replicate (width - length ds) CHR ''0'' @ ds)"

section \<open>Splitting\<close>

text \<open>\<open>str.splitlines()\<close>: no empty line after a final line break, and CR LF is one break.\<close>

fun lines_from :: "string \<Rightarrow> string \<Rightarrow> string list" where
  "lines_from cur [] = (if cur = [] then [] else [rev cur])"
| "lines_from cur (c # cs) =
     (if \<not> is_newline c then lines_from (c # cur) cs
      else if c = CHR 0x0D \<and> cs \<noteq> [] \<and> hd cs = CHR 0x0A then rev cur # lines_from [] (tl cs)
      else rev cur # lines_from [] cs)"

definition splitlines :: "string \<Rightarrow> string list" where
  "splitlines s = lines_from [] s"

text \<open>\<open>str.split()\<close>: the runs of non-blank characters.\<close>

fun words_from :: "string \<Rightarrow> string \<Rightarrow> string list" where
  "words_from cur [] = (if cur = [] then [] else [rev cur])"
| "words_from cur (c # cs) =
     (if \<not> is_blank c then words_from (c # cur) cs
      else if cur = [] then words_from [] cs
      else rev cur # words_from [] cs)"

definition split_blank :: "string \<Rightarrow> string list" where
  "split_blank s = words_from [] s"

text \<open>\<open>str.split(c)\<close> for a one-character separator: one piece more than there are separators.\<close>

fun split_char :: "char \<Rightarrow> string \<Rightarrow> string list" where
  "split_char c [] = [[]]"
| "split_char c (x # xs) =
     (if x = c then [] # split_char c xs
      else (case split_char c xs of [] \<Rightarrow> [[x]] | p # ps \<Rightarrow> (x # p) # ps))"

lemma split_char_nonempty [simp]: "split_char c s \<noteq> []"
  by (induction s) (auto split: list.splits)

text \<open>What follows a given beginning.\<close>

definition after :: "'a list \<Rightarrow> 'a list \<Rightarrow> 'a list option" where
  "after p s = (if take (length p) s = p then Some (drop (length p) s) else None)"

lemma after_Some: "after p s = Some r \<longleftrightarrow> s = p @ r"
  by (auto simp: after_def split: if_splits) (metis append_take_drop_id)

lemma after_simps [simp]:
  "after [] s = Some s" "after (p # ps) [] = None"
  "after (p # ps) (x # xs) = (if p = x then after ps xs else None)"
  by (auto simp: after_def)

lemma after_append [simp]: "after p (p @ r) = Some r"
  by (simp add: after_def)

lemma after_None: "after p s = None \<longleftrightarrow> (\<forall>r. s \<noteq> p @ r)"
  by (metis after_Some not_None_eq)

definition strip_blank :: "string \<Rightarrow> string" where
  "strip_blank s = rev (dropWhile is_blank (rev (dropWhile is_blank s)))"

text \<open>\<open>int(text, 0)\<close>: a prefix names the base.\<close>

fun base_digits :: "int \<Rightarrow> int \<Rightarrow> bool \<Rightarrow> string \<Rightarrow> int option" where
  "base_digits base v after_digit [] = (if after_digit then Some v else None)"
| "base_digits base v after_digit (c # cs) =
     (if is_hex c \<and> digit_value c < base then base_digits base (base * v + digit_value c) True cs
      else if c = CHR ''_'' \<and> after_digit then base_digits base v False cs else None)"

definition unsigned_base0 :: "string \<Rightarrow> int option" where
  "unsigned_base0 t =
     (let prefixed = (\<lambda>base r. if r = [] then None else base_digits base 0 True r) in
      case t of
        c # d # r \<Rightarrow>
          if c = CHR ''0'' \<and> d \<in> {CHR ''x'', CHR ''X''} then prefixed 16 r
          else if c = CHR ''0'' \<and> d \<in> {CHR ''o'', CHR ''O''} then prefixed 8 r
          else if c = CHR ''0'' \<and> d \<in> {CHR ''b'', CHR ''B''} then prefixed 2 r
          else (case base_digits 10 0 False t of None \<Rightarrow> None
                | Some v \<Rightarrow> if c = CHR ''0'' \<and> v \<noteq> 0 then None else Some v)
      | _ \<Rightarrow> base_digits 10 0 False t)"

definition int_base0 :: "string \<Rightarrow> exn + int" where
  "int_base0 s =
     (let t = strip_blank s;
          r = (case t of [] \<Rightarrow> None
               | c # cs \<Rightarrow> if c = CHR ''-'' then map_option uminus (unsigned_base0 cs)
                          else if c = CHR ''+'' then unsigned_base0 cs else unsigned_base0 t)
      in case r of None \<Rightarrow> Inl (ValueError ''int'') | Some v \<Rightarrow> Inr v)"

text \<open>\<open>p in s\<close> for strings.\<close>

definition occurs_in :: "string \<Rightarrow> string \<Rightarrow> bool" where
  "occurs_in p s \<longleftrightarrow> find_sub p s \<noteq> None"

section \<open>Sets of names\<close>

text \<open>A Python set is a duplicate-free list; \<open>sorted(s)\<close> orders it.\<close>

definition sorted_set :: "'a::linorder list \<Rightarrow> 'a list" where
  "sorted_set xs = sort (remdups xs)"

lemma set_sorted_set [simp]: "set (sorted_set xs) = set xs"
  by (simp add: sorted_set_def)

lemma distinct_sorted_set [simp]: "distinct (sorted_set xs)"
  by (simp add: sorted_set_def)

lemma sorted_sorted_set [simp]: "sorted (sorted_set xs)"
  by (simp add: sorted_set_def)

lemma sorted_set_cong: "set xs = set ys \<Longrightarrow> sorted_set xs = sorted_set ys"
  by (rule sorted_distinct_set_unique) simp_all

lemma sorted_set_eq_Nil [simp]: "sorted_set xs = [] \<longleftrightarrow> xs = []"
  by (metis set_empty set_sorted_set)

section \<open>Dictionaries\<close>

text \<open>A Python dictionary in insertion order. \<open>d[k] = v\<close> keeps the position of an old key.\<close>

type_synonym ('k, 'v) dict = "('k \<times> 'v) list"

definition dict_get :: "'k \<Rightarrow> ('k, 'v) dict \<Rightarrow> exn + 'v" where
  "dict_get k d = (case map_of d k of None \<Rightarrow> Inl KeyError | Some v \<Rightarrow> Inr v)"

fun dict_put :: "'k \<Rightarrow> 'v \<Rightarrow> ('k, 'v) dict \<Rightarrow> ('k, 'v) dict" where
  "dict_put k v [] = [(k, v)]"
| "dict_put k v ((k', v') # d) = (if k = k' then (k, v) # d else (k', v') # dict_put k v d)"

definition dict_default :: "'k \<Rightarrow> 'v \<Rightarrow> ('k, 'v) dict \<Rightarrow> ('k, 'v) dict" where
  "dict_default k v d = (case map_of d k of None \<Rightarrow> d @ [(k, v)] | Some _ \<Rightarrow> d)"

lemma map_of_dict_put [simp]: "map_of (dict_put k v d) = (map_of d)(k \<mapsto> v)"
  by (induction k v d rule: dict_put.induct) (auto simp: fun_eq_iff)

lemma map_of_dict_default:
  "map_of (dict_default k v d) = (case map_of d k of None \<Rightarrow> (map_of d)(k \<mapsto> v) | Some _ \<Rightarrow> map_of d)"
  by (auto simp: dict_default_def fun_eq_iff map_add_def split: option.splits)

end
