(* ===== verification/Pmu_Events.thy ===== *)
theory Pmu_Events
  imports Measurement Py_Text
begin

text \<open>
  \<open>host/lib/pmu_events_parse.py\<close>: event sets, the validity of a run, verdicts over repeats, consistency of the
  counts, coverage. The list of driver event ids is read from a data file and is an argument, \<open>known\<close>. A refusal
  carries its rule id. The ratio of two counts is compared exactly, which is what the floating-point comparison
  gives for counts below \<open>2^48\<close>.
\<close>

section \<open>Event sets\<close>

definition INSTRUMENTATION_EVENTS :: int where "INSTRUMENTATION_EVENTS = 2"
definition SLOTS :: nat where "SLOTS = 8"

datatype verdict = COUNTED_NONZERO | COUNTED_ZERO | INCONSISTENT | NOT_OBSERVED

definition VERDICTS :: "verdict list" where
  "VERDICTS = [COUNTED_NONZERO, COUNTED_ZERO, INCONSISTENT, NOT_OBSERVED]"

definition RULES :: "string list" where
  "RULES = [''RULE_PING'', ''RULE_CAPABILITY'', ''RULE_MODE_NACK'', ''RULE_RUN_TRANSPORT'',
     ''RULE_RECORD_SCHEMA'', ''RULE_CODES_ECHO'', ''RULE_SET_COVERAGE'']"

definition event_sets :: "int list \<Rightarrow> int list option \<Rightarrow> exn + (int \<times> int list) list" where
  "event_sets known ids0 =
     (let ids = (case ids0 of None \<Rightarrow> known | Some xs \<Rightarrow> xs);
          unknown = sorted_set (filter (\<lambda>i. i \<notin> set known) ids);
          ids' = sorted_set ids
      in if unknown \<noteq> [] then Inl (ValueError ''not driver event ids'')
         else Inr (map (\<lambda>i. (int i + 1, py_slice (i * SLOTS) ((i + 1) * SLOTS) ids'))
                     [0..<(length ids' + SLOTS - 1) div SLOTS]))"

section \<open>The validity of a run\<close>

definition STATUS_CMD_END :: int where "STATUS_CMD_END = push_bit 5 1"
definition STATUS_FAULTS :: int where
  "STATUS_FAULTS = ((push_bit 2 1 OR push_bit 4 1) OR push_bit 8 1) OR push_bit 9 1"
definition FLAGS_COMPLETED :: int where "FLAGS_COMPLETED = 0xD"
definition KNOB_NOT_HONOURED :: int where "KNOB_NOT_HONOURED = 0x7D"

datatype validity_term =
    rc_zero | required_flags | cycle_valid | cycle_progress | seam_once | mode_applied_2 | applied_count
  | valid_mask_full | codes_echo
  | vendor_rc_completed | flags_completed | stream_completed | knobs_honoured

text \<open>The dictionary \<open>rec\<close>: the record of one RUN; the \<open>option\<close> fields are the words that may be absent.\<close>

record run_record =
  rr_run_rc :: int
  rr_required_flags_ok :: bool
  rr_pmu :: pmu_block
  rr_seam_fired :: "int option"
  rr_valid_flags :: int
  rr_vendor_rc :: "int option"
  rr_seam_npu_status :: "int option"
  rr_seam_npu_qread :: "int option"
  rr_cms_len :: int

datatype mode = Exact | Model

definition scalar :: "pmu_block \<Rightarrow> string \<Rightarrow> exn + int" where
  "scalar p k = (case pm_scalars p k of None \<Rightarrow> Inl KeyError | Some v \<Rightarrow> Inr v)"

fun echo :: "int option list \<Rightarrow> int list \<Rightarrow> exn + bool" where
  "echo es [] = Inr True"
| "echo [] (c # cs) = Inl IndexError"
| "echo (e # es) (c # cs) = (if e = Some c then echo es cs else Inr False)"

definition completion :: "run_record \<Rightarrow> (validity_term \<times> bool) list" where
  "completion rc =
     [(vendor_rc_completed, rr_vendor_rc rc \<in> {Some 0, Some 2}),
      (flags_completed, rr_valid_flags rc AND FLAGS_COMPLETED = FLAGS_COMPLETED),
      (stream_completed, case rr_seam_npu_status rc of None \<Rightarrow> False
         | Some st \<Rightarrow> st AND STATUS_CMD_END \<noteq> 0 \<and> st AND STATUS_FAULTS = 0
             \<and> rr_seam_npu_qread rc = Some (rr_cms_len rc)),
      (knobs_honoured, rr_run_rc rc \<noteq> KNOB_NOT_HONOURED)]"

definition exact_terms :: "run_record \<Rightarrow> int list \<Rightarrow> exn + (validity_term \<times> bool) list" where
  "exact_terms rc codes =
     (let p = rr_pmu rc; n = length codes in
      bind_res (scalar p ''npu_pmu_cycle_valid'') (\<lambda>cv.
      bind_res (scalar p ''instrumentation_mode_applied'') (\<lambda>mo.
      bind_res (scalar p ''applied_event_count'') (\<lambda>ac.
      bind_res (scalar p ''event_valid_mask'') (\<lambda>vm.
      bind_res (echo (pm_event_codes p) codes) (\<lambda>ec.
        Inr [(rc_zero, rr_run_rc rc = 0),
             (required_flags, rr_required_flags_ok rc),
             (cycle_valid, cv = 1),
             (cycle_progress, (case pm_scalars p ''cycle_progress_observed'' of None \<Rightarrow> 0 | Some v \<Rightarrow> v) = 1),
             (seam_once, rr_seam_fired rc = Some 1),
             (mode_applied_2, mo = INSTRUMENTATION_EVENTS),
             (applied_count, ac = int n),
             (valid_mask_full, vm = push_bit n 1 - 1),
             (codes_echo, ec)]))))))"

definition run_validity :: "run_record \<Rightarrow> int list \<Rightarrow> mode \<Rightarrow> exn + (bool \<times> validity_term list)" where
  "run_validity rc codes m =
     bind_res (exact_terms rc codes) (\<lambda>terms0.
       let terms = (if m = Model
             then filter (\<lambda>(k, _). k \<notin> {rc_zero, required_flags}) terms0 @ completion rc else terms0);
           failed = map fst (filter (\<lambda>(_, ok). \<not> ok) terms)
       in Inr (failed = [], failed))"

section \<open>Verdicts and consistency\<close>

text \<open>\<open>repeats\<close> is the module variable \<open>REPEATS\<close>, which the campaign sets.\<close>

definition verdict_of :: "nat \<Rightarrow> int option list \<Rightarrow> verdict" where
  "verdict_of repeats vals =
     (let ok = List.map_filter (\<lambda>v. v) vals in
      if length ok < repeats then NOT_OBSERVED
      else if list_all (\<lambda>v. v > 0) ok then COUNTED_NONZERO
      else if list_all (\<lambda>v. v = 0) ok then COUNTED_ZERO
      else INCONSISTENT)"

datatype check = PASS | FAIL | UNPROVEN

text \<open>Per row: event type, value and window cycles. \<open>abs(v - w) / w <= 0.01\<close> without division.\<close>

fun consistency_rows :: "(int \<times> int option \<times> int option) list \<Rightarrow> check list \<times> check list" where
  "consistency_rows [] = ([], [])"
| "consistency_rows ((ev, value, window) # rows) =
     (case (value, window) of
        (Some v, Some w) \<Rightarrow> (case consistency_rows rows of (cyc, act) \<Rightarrow>
          ((if ev = 17 then [if w \<noteq> 0 \<and> 100 * \<bar>v - w\<bar> \<le> w then PASS else FAIL] else []) @ cyc,
           (if ev = 35 then [if v \<le> w then PASS else FAIL] else []) @ act))
      | _ \<Rightarrow> consistency_rows rows)"

definition all_pass :: "check list \<Rightarrow> check" where
  "all_pass cs = (if cs = [] then UNPROVEN else if list_all (\<lambda>c. c = PASS) cs then PASS else FAIL)"

definition consistency :: "(int \<times> int option \<times> int option) list \<Rightarrow> check \<times> check" where
  "consistency rows = (case consistency_rows rows of (cyc, act) \<Rightarrow> (all_pass cyc, all_pass act))"

definition check_coverage :: "int list \<Rightarrow> int list \<Rightarrow> int list option \<Rightarrow> exn + unit" where
  "check_coverage known rows_by_ev expected =
     (if set rows_by_ev \<noteq> set (case expected of None \<Rightarrow> known | Some e \<Rightarrow> e)
      then Inl (Refusal ''RULE_SET_COVERAGE'') else Inr ())"

section \<open>Lemmas\<close>

lemma concat_slices: "concat (map (\<lambda>i. py_slice (i * k) ((i + 1) * k) xs) [0..<n]) = take (n * k) xs"
proof (induction n)
  case (Suc n)
  have "take (n * k + k) xs = take (n * k) xs @ take k (drop (n * k) xs)" by (rule take_add)
  with Suc show ?case by (simp add: py_slice_def add.commute)
qed simp

lemma echo_True: "echo es cs = Inr True \<longleftrightarrow> take (length cs) es = map Some cs"
  by (induction es cs rule: echo.induct) auto

lemma echo_enough: "length cs \<le> length es \<Longrightarrow> \<exists>b. echo es cs = Inr b"
  by (induction es cs rule: echo.induct) auto

lemma scalar_eq_Inr [simp]: "scalar p k = Inr v \<longleftrightarrow> pm_scalars p k = Some v"
  by (auto simp: scalar_def split: option.splits)

lemma filter_fst_empty: "map fst (filter (\<lambda>(_, ok). \<not> ok) ts) = [] \<longleftrightarrow> (\<forall>t \<in> set ts. snd t)"
  by (auto simp: filter_empty_conv)

definition all_terms :: "run_record \<Rightarrow> int list \<Rightarrow> bool" where
  "all_terms rc codes \<longleftrightarrow> (let p = rr_pmu rc in
     pm_scalars p ''npu_pmu_cycle_valid'' = Some 1 \<and> pm_scalars p ''cycle_progress_observed'' = Some 1
     \<and> rr_seam_fired rc = Some 1 \<and> pm_scalars p ''instrumentation_mode_applied'' = Some INSTRUMENTATION_EVENTS
     \<and> pm_scalars p ''applied_event_count'' = Some (int (length codes))
     \<and> pm_scalars p ''event_valid_mask'' = Some (2 ^ length codes - 1)
     \<and> take (length codes) (pm_event_codes p) = map Some codes)"

text \<open>The completion of an inference: vendor return code, the three flags, the end of the command stream without a
  fault and with all of it read, and no refused knob.\<close>

definition completed_run :: "run_record \<Rightarrow> bool" where
  "completed_run rc \<longleftrightarrow> rr_vendor_rc rc \<in> {Some 0, Some 2} \<and> rr_valid_flags rc AND 13 = 13
     \<and> (\<exists>st. rr_seam_npu_status rc = Some st \<and> bit st 5 \<and> \<not> bit st 2 \<and> \<not> bit st 4 \<and> \<not> bit st 8 \<and> \<not> bit st 9)
     \<and> rr_seam_npu_qread rc = Some (rr_cms_len rc) \<and> rr_run_rc rc \<noteq> 125"

lemma status_bits:
  fixes st :: int
  shows "st AND STATUS_CMD_END \<noteq> 0 \<longleftrightarrow> bit st 5"
    "st AND STATUS_FAULTS = 0 \<longleftrightarrow> \<not> bit st 2 \<and> \<not> bit st 4 \<and> \<not> bit st 8 \<and> \<not> bit st 9"
proof -
  have one: "st AND push_bit n 1 \<noteq> 0 \<longleftrightarrow> bit st n" for n
    by (simp add: and_exp_eq_0_iff_not_bit push_bit_eq_mult)
  show "st AND STATUS_CMD_END \<noteq> 0 \<longleftrightarrow> bit st 5" by (simp only: STATUS_CMD_END_def one)
  have fault: "bit STATUS_FAULTS n \<longleftrightarrow> n = 2 \<or> n = 4 \<or> n = 8 \<or> n = 9" for n
    by (simp only: STATUS_FAULTS_def bit_or_iff bit_push_bit_iff bit_1_iff) auto
  have "st AND STATUS_FAULTS = 0 \<longleftrightarrow> (\<forall>n. bit st n \<longrightarrow> \<not> bit STATUS_FAULTS n)"
    by (auto simp: bit_eq_iff bit_and_iff)
  also have "\<dots> \<longleftrightarrow> \<not> bit st 2 \<and> \<not> bit st 4 \<and> \<not> bit st 8 \<and> \<not> bit st 9"
    unfolding fault by blast
  finally show "st AND STATUS_FAULTS = 0 \<longleftrightarrow> \<not> bit st 2 \<and> \<not> bit st 4 \<and> \<not> bit st 8 \<and> \<not> bit st 9" .
qed

lemma completion_all: "(\<forall>t \<in> set (completion rc). snd t) \<longleftrightarrow> completed_run rc"
  by (auto simp: completion_def completed_run_def status_bits FLAGS_COMPLETED_def KNOB_NOT_HONOURED_def
      split: option.splits)

lemma exact_terms_Inr:
  "exact_terms rc codes = Inr ts \<longleftrightarrow> (\<exists>cv mo ac vm ec. let p = rr_pmu rc in
     pm_scalars p ''npu_pmu_cycle_valid'' = Some cv \<and> pm_scalars p ''instrumentation_mode_applied'' = Some mo
     \<and> pm_scalars p ''applied_event_count'' = Some ac \<and> pm_scalars p ''event_valid_mask'' = Some vm
     \<and> echo (pm_event_codes p) codes = Inr ec
     \<and> ts = [(rc_zero, rr_run_rc rc = 0), (required_flags, rr_required_flags_ok rc), (cycle_valid, cv = 1),
         (cycle_progress, (case pm_scalars p ''cycle_progress_observed'' of None \<Rightarrow> 0 | Some v \<Rightarrow> v) = 1),
         (seam_once, rr_seam_fired rc = Some 1), (mode_applied_2, mo = INSTRUMENTATION_EVENTS),
         (applied_count, ac = int (length codes)), (valid_mask_full, vm = push_bit (length codes) 1 - 1),
         (codes_echo, ec)])"
  unfolding exact_terms_def Let_def bind_res_eq_Inr scalar_eq_Inr by blast

lemma exact_terms_hold:
  assumes "exact_terms rc codes = Inr ts"
  shows "(\<forall>t \<in> set ts. snd t) \<longleftrightarrow> rr_run_rc rc = 0 \<and> rr_required_flags_ok rc \<and> all_terms rc codes"
    "(\<forall>t \<in> set (filter (\<lambda>(k, _). k \<notin> {rc_zero, required_flags}) ts). snd t) \<longleftrightarrow> all_terms rc codes"
proof -
  have "(2::int) ^ length codes = push_bit (length codes) 1" by (simp add: push_bit_eq_mult)
  moreover have "(case x of None \<Rightarrow> 0 | Some v \<Rightarrow> v) = 1 \<longleftrightarrow> x = Some (1::int)" for x by (cases x) auto
  moreover from assms obtain cv mo ac vm ec where
    "pm_scalars (rr_pmu rc) ''npu_pmu_cycle_valid'' = Some cv"
    "pm_scalars (rr_pmu rc) ''instrumentation_mode_applied'' = Some mo"
    "pm_scalars (rr_pmu rc) ''applied_event_count'' = Some ac"
    "pm_scalars (rr_pmu rc) ''event_valid_mask'' = Some vm"
    "echo (pm_event_codes (rr_pmu rc)) codes = Inr ec" and
    ts: "ts = [(rc_zero, rr_run_rc rc = 0), (required_flags, rr_required_flags_ok rc), (cycle_valid, cv = 1),
         (cycle_progress, (case pm_scalars (rr_pmu rc) ''cycle_progress_observed'' of None \<Rightarrow> 0 | Some v \<Rightarrow> v) = 1),
         (seam_once, rr_seam_fired rc = Some 1), (mode_applied_2, mo = INSTRUMENTATION_EVENTS),
         (applied_count, ac = int (length codes)), (valid_mask_full, vm = push_bit (length codes) 1 - 1),
         (codes_echo, ec)]"
    unfolding exact_terms_Inr Let_def by blast
  moreover from this have "take (length codes) (pm_event_codes (rr_pmu rc)) = map Some codes \<longleftrightarrow> ec"
    unfolding echo_True [symmetric] by simp
  ultimately have "all_terms rc codes \<longleftrightarrow> cv = 1
      \<and> (case pm_scalars (rr_pmu rc) ''cycle_progress_observed'' of None \<Rightarrow> 0 | Some v \<Rightarrow> v) = 1
      \<and> rr_seam_fired rc = Some 1 \<and> mo = INSTRUMENTATION_EVENTS \<and> ac = int (length codes)
      \<and> vm = push_bit (length codes) 1 - 1 \<and> ec"
    unfolding all_terms_def Let_def by (simp only: option.inject)
  then show "(\<forall>t \<in> set ts. snd t) \<longleftrightarrow> rr_run_rc rc = 0 \<and> rr_required_flags_ok rc \<and> all_terms rc codes"
    "(\<forall>t \<in> set (filter (\<lambda>(k, _). k \<notin> {rc_zero, required_flags}) ts). snd t) \<longleftrightarrow> all_terms rc codes"
    unfolding ts by simp_all
qed

lemma exact_terms_some: "all_terms rc codes \<Longrightarrow> \<exists>ts. exact_terms rc codes = Inr ts"
  unfolding all_terms_def exact_terms_Inr Let_def echo_True [symmetric] by blast

lemma run_validity_flag: "run_validity rc codes m = Inr (ok, failed) \<Longrightarrow> ok \<longleftrightarrow> failed = []"
  by (auto simp: run_validity_def Let_def)

lemma run_validity_iff:
  "run_validity rc codes m = Inr (True, failed) \<longleftrightarrow>
     failed = [] \<and> all_terms rc codes
     \<and> (case m of Exact \<Rightarrow> rr_run_rc rc = 0 \<and> rr_required_flags_ok rc | Model \<Rightarrow> completed_run rc)"
proof -
  have "run_validity rc codes m = Inr (True, failed) \<longleftrightarrow> failed = [] \<and>
      (\<exists>ts. exact_terms rc codes = Inr ts \<and> (\<forall>t \<in> set (if m = Model
             then filter (\<lambda>(k, _). k \<notin> {rc_zero, required_flags}) ts @ completion rc else ts). snd t))"
    unfolding run_validity_def Let_def bind_res_eq_Inr filter_fst_empty [symmetric] by auto
  also have "\<dots> \<longleftrightarrow> failed = [] \<and> all_terms rc codes
      \<and> (case m of Exact \<Rightarrow> rr_run_rc rc = 0 \<and> rr_required_flags_ok rc | Model \<Rightarrow> completed_run rc)"
  proof -
    have hold: "(\<forall>t \<in> set (if m = Model then filter (\<lambda>(k, _). k \<notin> {rc_zero, required_flags}) ts @ completion rc else ts). snd t)
        \<longleftrightarrow> all_terms rc codes \<and> (case m of Exact \<Rightarrow> rr_run_rc rc = 0 \<and> rr_required_flags_ok rc | Model \<Rightarrow> completed_run rc)"
      if "exact_terms rc codes = Inr ts" for ts
      using exact_terms_hold [OF that] completion_all [of rc]
      by (cases m) (simp_all add: ball_Un del: set_filter, blast)
    then show ?thesis using exact_terms_some [of rc codes] by blast
  qed
  finally show ?thesis .
qed

lemma event_sets_cut:
  "case event_sets known ids of
     Inl e \<Rightarrow> \<not> set (case ids of None \<Rightarrow> known | Some xs \<Rightarrow> xs) \<subseteq> set known
   | Inr sets \<Rightarrow> (let req = (case ids of None \<Rightarrow> known | Some xs \<Rightarrow> xs) in
       set req \<subseteq> set known \<and> concat (map snd sets) = sorted_set req
       \<and> map fst sets = map int [1..<length sets + 1]
       \<and> list_all (\<lambda>codes. length codes = SLOTS) (map snd (butlast sets))
       \<and> list_all (\<lambda>codes. 0 < length codes \<and> length codes \<le> SLOTS) (map snd sets))"
proof -
  define req where "req = (case ids of None \<Rightarrow> known | Some xs \<Rightarrow> xs)"
  define xs where "xs = sorted_set req"
  define n where "n = (length xs + SLOTS - 1) div SLOTS"
  define sets where "sets = map (\<lambda>i. (int i + 1, py_slice (i * SLOTS) ((i + 1) * SLOTS) xs)) [0..<n]"
  have ev: "event_sets known ids
      = (if \<not> set req \<subseteq> set known then Inl (ValueError ''not driver event ids'') else Inr sets)"
    unfolding sets_def n_def xs_def req_def event_sets_def Let_def by (auto simp: filter_empty_conv)
  have n: "length xs \<le> n * SLOTS" "i < n \<Longrightarrow> i * SLOTS < length xs" for i
    by (auto simp: n_def SLOTS_def)
  have "map snd sets = map (\<lambda>i. py_slice (i * SLOTS) ((i + 1) * SLOTS) xs) [0..<n]" by (simp add: sets_def)
  then have "concat (map snd sets) = xs" using concat_slices [of SLOTS xs n] n(1) by simp
  moreover have "map fst sets = map int [1..<length sets + 1]"
    by (simp add: sets_def map_Suc_upt [symmetric] del: upt_Suc)
  moreover have "list_all (\<lambda>codes. 0 < length codes \<and> length codes \<le> SLOTS) (map snd sets)"
    using n(2) by (auto simp: list_all_iff sets_def SLOTS_def simp del: length_greater_0_conv)
  moreover have "list_all (\<lambda>codes. length codes = SLOTS) (map snd (butlast sets))"
  proof -
    have "butlast sets = map (\<lambda>i. (int i + 1, py_slice (i * SLOTS) ((i + 1) * SLOTS) xs)) [0..<n - 1]"
      by (simp add: sets_def map_butlast [symmetric] butlast_conv_take take_map)
    moreover have "length (py_slice (i * SLOTS) ((i + 1) * SLOTS) xs) = SLOTS" if "i < n - 1" for i
    proof -
      have "i + 1 < n" using that by linarith
      from n(2) [OF this] show ?thesis by (simp add: SLOTS_def)
    qed
    ultimately show ?thesis by (simp add: list_all_iff)
  qed
  ultimately show ?thesis by (simp add: ev req_def [symmetric] xs_def Let_def)
qed

lemma event_sets_concat:
  "event_sets known ids = Inr sets \<Longrightarrow>
    concat (map snd sets) = sorted_set (case ids of None \<Rightarrow> known | Some xs \<Rightarrow> xs)"
  using event_sets_cut [of known ids] by (simp add: Let_def)

section \<open>Properties\<close>

text \<open>C20. \<open>event_sets\<close> refuses exactly a request that names an unknown id. Otherwise the sets, numbered from 1, cut the
  ascending list of the requested ids, each id once, into consecutive pieces of eight; only the last may be shorter
  and none is empty.\<close>

theorem event_sets_partition:
  "case event_sets known ids of
     Inl e \<Rightarrow> \<not> set (case ids of None \<Rightarrow> known | Some xs \<Rightarrow> xs) \<subseteq> set known
   | Inr sets \<Rightarrow> (let req = (case ids of None \<Rightarrow> known | Some xs \<Rightarrow> xs) in
       set req \<subseteq> set known \<and> concat (map snd sets) = sorted_set req
       \<and> map fst sets = map int [1..<length sets + 1]
       \<and> list_all (\<lambda>codes. length codes = SLOTS) (map snd (butlast sets))
       \<and> list_all (\<lambda>codes. 0 < length codes \<and> length codes \<le> SLOTS) (map snd sets))"
  by (rule event_sets_cut)

text \<open>A run is valid in the exact mode exactly when its return code is 0, the required flags are set and every
  instrumentation term holds; in the model mode the first two are replaced by the completion of the inference. In
  both, the event codes the record echoes are those requested, slot by slot.\<close>

theorem run_validity_exact:
  "run_validity rc codes m = Inr (True, failed) \<longleftrightarrow>
     failed = [] \<and> all_terms rc codes
     \<and> (case m of Exact \<Rightarrow> rr_run_rc rc = 0 \<and> rr_required_flags_ok rc | Model \<Rightarrow> completed_run rc)"
  by (rule run_validity_iff)

end
