(* ===== verification/Campaign.thy ===== *)
theory Campaign
  imports Runner_Link Pmu_Events
begin

text \<open>
  \<open>host/board/run_pmu_events.py\<close>: one boot of a campaign. The operations of the link that the campaign calls are
  a record \<open>ops\<close> over a link state \<open>'s\<close>; \<open>link_ops\<close> fills it with the methods of \<open>Runner_Link\<close>. A refusal is
  the exception \<open>Refusal\<close> with its rule id. What goes into the files is modelled, the files are not. The
  command line and the summary with the digests of the blob are in \<open>Boot_Run\<close>.
\<close>

section \<open>The text of a NACK\<close>

definition ERROR_NAMES :: "(int, string) dict" where
  "ERROR_NAMES = [(1, ''BAD_VERSION''), (2, ''BAD_COMMAND''), (3, ''LENGTH''), (4, ''BAD_CRC''), (5, ''STATE''),
     (6, ''RANGE''), (7, ''CHUNK_MISMATCH''), (8, ''MODEL_CRC''), (9, ''PAYLOAD_FORMAT'')]"

definition STATE_NAMES :: "(int, string) dict" where
  "STATE_NAMES = [(0, ''BOOT''), (1, ''IDLE''), (2, ''MODEL_LOADING''), (3, ''MODEL_READY''),
     (4, ''INPUT_READY''), (5, ''RUNNING''), (6, ''RESULT_READY'')]"

definition name_of :: "(int, string) dict \<Rightarrow> int \<Rightarrow> string" where
  "name_of d n = (case map_of d n of None \<Rightarrow> decimal n | Some t \<Rightarrow> t)"

text \<open>\<open>repr\<close> of a \<open>Nack\<close>.\<close>

definition nack_repr :: "int \<Rightarrow> int \<Rightarrow> int \<Rightarrow> string" where
  "nack_repr code orig_cmd state =
     ''Nack('' @ [CHR 0x27] @ ''NACK '' @ name_of ERROR_NAMES code @ '' (cmd 0x'' @ hex_upper 2 orig_cmd
       @ '', state '' @ name_of STATE_NAMES state @ '')'' @ [CHR 0x27] @ '')''"

text \<open>\<open>UNSUPPORTED\<close> has two \<open>U\<close> and two \<open>P\<close>; the text of a NACK never has both.\<close>

lemma occurs_in_count: "occurs_in p s \<Longrightarrow> count_list p c \<le> count_list s c"
proof -
  assume "occurs_in p s"
  then obtain i where "find_sub p s = Some i" by (auto simp: occurs_in_def)
  from find_sub_Some [OF this] obtain r where "drop i s = p @ r" by (auto simp: prefix_def)
  then have "s = take i s @ p @ r" by (metis append_take_drop_id)
  then have "count_list s c = count_list (take i s) c + (count_list p c + count_list r c)"
    by (metis count_list_append)
  then show ?thesis by simp
qed

lemma digits_of_count: "2 \<le> base \<Longrightarrow> base \<le> 16 \<Longrightarrow> count_list (digits_of base n) CHR ''U'' = 0 \<and> count_list (digits_of base n) CHR ''P'' = 0"
proof (induction base n rule: digits_of.induct)
  case (1 base n)
  have digit: "digit_char d \<noteq> CHR ''U'' \<and> digit_char d \<noteq> CHR ''P''" if "d < 16" for d
  proof -
    have "d \<in> {0..<16}" using that by simp
    then have "d \<in> set [0..<16]" by simp
    then show ?thesis by (auto simp: digit_char_def upt_rec char_of_def)
  qed
  show ?case
  proof (cases "base < 2 \<or> n < base")
    case True
    then show ?thesis using 1 digit by (subst (1 2) digits_of.simps) (auto)
  next
    case False
    then have "n mod base < 16" using 1(3) by (meson le_less_trans mod_less_divisor not_less order_less_le_trans zero_less_numeral)
    with False 1 digit show ?thesis by (subst (1 2) digits_of.simps) auto
  qed
qed

lemma name_of_count:
  "count_list (name_of ERROR_NAMES code) CHR ''U'' + count_list (name_of ERROR_NAMES code) CHR ''P'' \<le> 1"
  "count_list (name_of STATE_NAMES state) CHR ''U'' \<le> 1" "count_list (name_of STATE_NAMES state) CHR ''P'' \<le> 1"
  by (auto simp: name_of_def ERROR_NAMES_def STATE_NAMES_def decimal_def digits_of_count)

lemma nack_repr_not_unsupported: "\<not> occurs_in ''UNSUPPORTED'' (nack_repr code orig_cmd state)"
proof
  assume o: "occurs_in ''UNSUPPORTED'' (nack_repr code orig_cmd state)"
  have rep: "count_list (replicate n CHR ''0'') c = 0" if "c \<noteq> CHR ''0''" for n c using that by (induction n) auto
  have "2 \<le> count_list (nack_repr code orig_cmd state) CHR ''U''" "2 \<le> count_list (nack_repr code orig_cmd state) CHR ''P''"
    using occurs_in_count [OF o, of "CHR ''U''"] occurs_in_count [OF o, of "CHR ''P''"] by simp_all
  then have "2 \<le> count_list (name_of ERROR_NAMES code) CHR ''U'' + count_list (name_of STATE_NAMES state) CHR ''U''"
    "2 \<le> count_list (name_of ERROR_NAMES code) CHR ''P'' + count_list (name_of STATE_NAMES state) CHR ''P''"
    by (simp_all add: nack_repr_def hex_upper_def Let_def digits_of_count rep)
  with name_of_count(1) [of code] name_of_count(2,3) [of state] show False by linarith
qed

section \<open>The campaign\<close>

record 's ops =
  op_ping :: "('s, counters) prog"
  op_reset :: "('s, unit) prog"
  op_set_mode :: "int \<Rightarrow> int list \<Rightarrow> int \<Rightarrow> ('s, int list) prog"
  op_begin :: "int \<Rightarrow> int \<Rightarrow> ('s, int list) prog"
  op_chunk :: "int \<Rightarrow> bytes \<Rightarrow> ('s, int list) prog"
  op_end :: "rat \<Rightarrow> ('s, int list) prog"
  op_input :: "bytes \<Rightarrow> ('s, int) prog"
  op_run :: "rat \<Rightarrow> ('s, int) prog"
  op_last :: "'s \<Rightarrow> measurement option"

definition link_ops :: "'w world \<Rightarrow> 'w link ops" where
  "link_ops W = \<lparr>op_ping = ping W, op_reset = reset_runner W, op_set_mode = set_instrumentation_mode W,
     op_begin = load_model_begin W, op_chunk = load_model_chunk W, op_end = load_model_end W,
     op_input = load_input W, op_run = run W, op_last = ln_last_measurement\<rparr>"

record config =
  cf_known :: "(int, string) dict"
  cf_trm :: "int list"
  cf_ids :: "int list option"
  cf_repeats :: nat
  cf_mode :: mode
  cf_keep_model :: bool
  cf_blob :: bytes
  cf_cms_len :: int

record raw_run =
  rw_set_id :: int
  rw_rep :: int
  rw_rc :: int
  rw_flags :: int
  rw_pmu :: pmu_block
  rw_seam :: "int option"
  rw_trailing :: "int list"
  rw_vendor_rc :: "int option"
  rw_base_fields :: "int list"
  rw_status :: "int option"
  rw_qread :: "int option"
  rw_ofm_mismatch :: "int list option"

datatype raw = RawPing counters | RawRun raw_run

record row =
  ro_set_id :: int
  ro_rep :: int
  ro_slot :: nat
  ro_ev_type :: int
  ro_name :: string
  ro_in_trm :: bool
  ro_event_value :: "int option"
  ro_event_valid :: bool
  ro_event_overflow :: "bool option"
  ro_run_rc :: int
  ro_run_valid :: bool
  ro_invalid_reasons :: "validity_term list"
  ro_window_cycles :: "int option"
  ro_cycle_valid :: int
  ro_valid_flags :: int
  ro_vendor_rc :: "int option"
  ro_ofm_mismatch_count :: "int option"
  ro_ofm_max_abs_diff :: "int option"

text \<open>The link, and the lists \<open>raw\<close> and \<open>rows\<close> that the campaign fills.\<close>

record 's camp =
  cp_link :: 's
  cp_raw :: "raw list"
  cp_rows :: "row list"

definition on_link :: "('s, 'a) prog \<Rightarrow> ('s camp, 'a) prog" where
  "on_link m = (\<lambda>s. case m (cp_link s) of None \<Rightarrow> None | Some (r, l) \<Rightarrow> Some (r, s\<lparr>cp_link := l\<rparr>))"

text \<open>\<open>try: ... except E as e: raise E'\<close>: the handler maps the exceptions it catches.\<close>

definition recast :: "(exn \<Rightarrow> exn) \<Rightarrow> ('s, 'a) prog \<Rightarrow> ('s, 'a) prog" where
  "recast h m = (\<lambda>s. case m s of None \<Rightarrow> None
     | Some (Inr x, t) \<Rightarrow> Some (Inr x, t) | Some (Inl e, t) \<Rightarrow> Some (Inl (h e), t))"

definition mode_handler :: "int \<Rightarrow> exn \<Rightarrow> exn" where
  "mode_handler set_id e = (case e of
       Nack code orig state \<Rightarrow>
         Refusal (if set_id = 1 \<and> occurs_in ''UNSUPPORTED'' (nack_repr code orig state)
                  then ''RULE_CAPABILITY'' else ''RULE_MODE_NACK'')
     | _ \<Rightarrow> e)"

definition transport_handler :: "exn \<Rightarrow> exn" where
  "transport_handler e = (case e of Nack _ _ _ \<Rightarrow> Refusal ''RULE_RUN_TRANSPORT''
     | _ \<Rightarrow> if is_protocol_error e then Refusal ''RULE_RUN_TRANSPORT'' else e)"

definition CHUNK :: nat where "CHUNK = 4092"

fun send_chunks :: "'s ops \<Rightarrow> bytes \<Rightarrow> nat list \<Rightarrow> ('s, unit) prog" where
  "send_chunks R blob [] = returns ()"
| "send_chunks R blob (off # offs) =
     andthen (op_chunk R (int off) (py_slice off (off + CHUNK) blob)) (\<lambda>_. send_chunks R blob offs)"

text \<open>\<open>range(0, len(blob), CHUNK)\<close>.\<close>

definition chunk_offsets :: "nat \<Rightarrow> nat list" where
  "chunk_offsets n = map (\<lambda>i. i * CHUNK) [0..<(n + CHUNK - 1) div CHUNK]"

definition prime :: "'s ops \<Rightarrow> bytes \<Rightarrow> ('s, unit) prog" where
  "prime R blob =
     andthen (op_begin R (int (length blob)) (crc32 blob AND 0xFFFFFFFF)) (\<lambda>_.
       andthen (send_chunks R blob (chunk_offsets (length blob))) (\<lambda>_.
         andthen (op_end R (load_end_timeout (int (length blob)))) (\<lambda>_.
           andthen (op_input R []) (\<lambda>_. returns ()))))"

definition configure_set :: "'s ops \<Rightarrow> config \<Rightarrow> bool \<Rightarrow> int \<Rightarrow> int list \<Rightarrow> ('s camp, unit) prog" where
  "configure_set R cfg first set_id codes =
     andthen (recast (mode_handler set_id)
       (andthen (if first \<or> \<not> cf_keep_model cfg then on_link (op_reset R) else returns ()) (\<lambda>_.
          on_link (op_set_mode R INSTRUMENTATION_EVENTS codes set_id)))) (\<lambda>v.
       if v ! 1 \<noteq> INSTRUMENTATION_EVENTS \<or> v ! 2 \<noteq> int (length codes)
       then raises (Refusal ''RULE_MODE_NACK'') else returns ())"

definition nth_opt :: "int list \<Rightarrow> nat \<Rightarrow> int option" where
  "nth_opt xs k = (if k < length xs then Some (xs ! k) else None)"

definition record_of :: "config \<Rightarrow> int \<Rightarrow> measurement \<Rightarrow> pmu_block \<Rightarrow> run_record" where
  "record_of cfg rc m p =
     \<lparr>rr_run_rc = rc, rr_required_flags_ok = required_flags_ok m, rr_pmu = p,
      rr_seam_fired = nth_opt (me_trailing m) 0, rr_valid_flags = me_valid_flags m,
      rr_vendor_rc = nth_opt (me_trailing m) 1, rr_seam_npu_status = nth_opt (me_trailing m) 2,
      rr_seam_npu_qread = nth_opt (me_trailing m) 3, rr_cms_len = cf_cms_len cfg\<rparr>"

definition raw_of :: "int \<Rightarrow> int \<Rightarrow> int \<Rightarrow> measurement \<Rightarrow> pmu_block \<Rightarrow> raw_run" where
  "raw_of set_id rep rc m p =
     \<lparr>rw_set_id = set_id, rw_rep = rep, rw_rc = rc, rw_flags = me_valid_flags m, rw_pmu = p,
      rw_seam = nth_opt (me_trailing m) 0, rw_trailing = me_trailing m, rw_vendor_rc = nth_opt (me_trailing m) 1,
      rw_base_fields = me_fields m, rw_status = nth_opt (me_trailing m) 2, rw_qread = nth_opt (me_trailing m) 3,
      rw_ofm_mismatch = (if length (me_trailing m) \<ge> 7 then Some (py_slice 4 7 (me_trailing m)) else None)\<rparr>"

definition row_of ::
    "config \<Rightarrow> int \<Rightarrow> int \<Rightarrow> int \<Rightarrow> measurement \<Rightarrow> pmu_block \<Rightarrow> bool \<Rightarrow> validity_term list \<Rightarrow> nat \<Rightarrow> int \<Rightarrow> exn + row" where
  "row_of cfg set_id rep rc m p ok failed slot ev =
     bind_res (dict_get ev (cf_known cfg)) (\<lambda>name.
     bind_res (if ok then index (pm_event_values p) slot else Inr None) (\<lambda>value.
     bind_res (scalar p ''event_valid_mask'') (\<lambda>vm.
     bind_res (index (pm_event_overflow p) slot) (\<lambda>ovf.
     bind_res (scalar p ''npu_pmu_cycle_valid'') (\<lambda>cv.
       Inr \<lparr>ro_set_id = set_id, ro_rep = rep, ro_slot = slot, ro_ev_type = ev, ro_name = name,
            ro_in_trm = (ev \<in> set (cf_trm cfg)), ro_event_value = value, ro_event_valid = slot_set vm slot,
            ro_event_overflow = ovf, ro_run_rc = rc, ro_run_valid = ok, ro_invalid_reasons = failed,
            ro_window_cycles = pm_window_cycles p, ro_cycle_valid = cv, ro_valid_flags = me_valid_flags m,
            ro_vendor_rc = nth_opt (me_trailing m) 1, ro_ofm_mismatch_count = nth_opt (me_trailing m) 4,
            ro_ofm_max_abs_diff = nth_opt (me_trailing m) 5\<rparr>)))))"

text \<open>\<open>for slot, ev in enumerate(codes): rows.append(...)\<close>.\<close>

fun add_rows :: "(nat \<Rightarrow> int \<Rightarrow> exn + row) \<Rightarrow> nat \<Rightarrow> int list \<Rightarrow> ('s camp, unit) prog" where
  "add_rows mk slot [] = returns ()"
| "add_rows mk slot (ev # evs) =
     andthen (lift_res (mk slot ev)) (\<lambda>r.
       andthen (modify (\<lambda>s. s\<lparr>cp_rows := cp_rows s @ [r]\<rparr>)) (\<lambda>_. add_rows mk (Suc slot) evs))"

definition keep_run ::
    "config \<Rightarrow> int \<Rightarrow> int list \<Rightarrow> int \<Rightarrow> int \<Rightarrow> measurement \<Rightarrow> pmu_block \<Rightarrow> ('s camp, unit) prog" where
  "keep_run cfg set_id codes rep rc m p =
     andthen (lift_res (scalar p ''record_schema_version'')) (\<lambda>v.
       if v \<noteq> 1 then raises (Refusal ''RULE_RECORD_SCHEMA'')
       else andthen (lift_res (run_validity (record_of cfg rc m p) codes (cf_mode cfg))) (\<lambda>(ok, failed).
         if codes_echo \<in> set failed \<and> \<not> ok \<and> pm_scalars p ''event_valid_mask'' = Some (push_bit (length codes) 1 - 1)
         then raises (Refusal ''RULE_CODES_ECHO'')
         else andthen (modify (\<lambda>s. s\<lparr>cp_raw := cp_raw s @ [RawRun (raw_of set_id rep rc m p)]\<rparr>)) (\<lambda>_.
           add_rows (row_of cfg set_id rep rc m p ok failed) 0 codes)))"

definition measure_rep :: "'s ops \<Rightarrow> config \<Rightarrow> int \<Rightarrow> int list \<Rightarrow> int \<Rightarrow> ('s camp, unit) prog" where
  "measure_rep R cfg set_id codes rep =
     andthen (recast transport_handler (on_link (op_run R 120))) (\<lambda>rc s.
       (case op_last R (cp_link s) of None \<Rightarrow> raises (Refusal ''RULE_RECORD_SCHEMA'')
        | Some m \<Rightarrow> (case me_pmu m of None \<Rightarrow> raises (Refusal ''RULE_RECORD_SCHEMA'')
            | Some p \<Rightarrow> keep_run cfg set_id codes rep rc m p)) s)"

fun for_each :: "'a list \<Rightarrow> ('a \<Rightarrow> ('s, unit) prog) \<Rightarrow> ('s, unit) prog" where
  "for_each [] body = returns ()"
| "for_each (x # xs) body = andthen (body x) (\<lambda>_. for_each xs body)"

definition measure_set :: "'s ops \<Rightarrow> config \<Rightarrow> int \<Rightarrow> int \<times> int list \<Rightarrow> ('s camp, unit) prog" where
  "measure_set R cfg first_id st = (case st of (set_id, codes) \<Rightarrow>
     let first = (set_id = first_id) in
     andthen (configure_set R cfg first set_id codes) (\<lambda>_.
       andthen (recast transport_handler
           (if first \<or> \<not> cf_keep_model cfg then on_link (prime R (cf_blob cfg)) else returns ())) (\<lambda>_.
         for_each (map int [1..<Suc (cf_repeats cfg)]) (measure_rep R cfg set_id codes))))"

definition error_counters :: "counters \<Rightarrow> int list" where
  "error_counters c = [ct_rx_overrun c, ct_bad_magic c, ct_bad_version c, ct_bad_crc c, ct_length_error c,
     ct_sequence_error c, ct_parser_resync c]"

definition campaign_body :: "'s ops \<Rightarrow> config \<Rightarrow> (int \<times> int list) list \<Rightarrow> ('s camp, unit) prog" where
  "campaign_body R cfg sets =
     andthen (on_link (op_ping R)) (\<lambda>c.
       andthen (modify (\<lambda>s. s\<lparr>cp_raw := cp_raw s @ [RawPing c]\<rparr>)) (\<lambda>_.
         if ct_state c \<noteq> 1 then raises (Refusal ''RULE_PING'')
         else if \<exists>n \<in> set (error_counters c). n \<noteq> 0 then raises (Refusal ''RULE_PING'')
         else for_each sets (measure_set R cfg (fst (hd sets)))))"

text \<open>\<open>except E.Refusal\<close>: the rule, when there is one; every other exception leaves \<open>main\<close>.\<close>

definition campaign :: "'s ops \<Rightarrow> config \<Rightarrow> (int \<times> int list) list \<Rightarrow> ('s camp, string option) prog" where
  "campaign R cfg sets = (\<lambda>s. case campaign_body R cfg sets s of
       None \<Rightarrow> None
     | Some (Inr _, t) \<Rightarrow> Some (Inr None, t)
     | Some (Inl (Refusal rule), t) \<Rightarrow> Some (Inr (Some rule), t)
     | Some (Inl e, t) \<Rightarrow> Some (Inl e, t))"

section \<open>The summary\<close>

text \<open>\<open>by.setdefault(ev, []).append(value)\<close> over the rows.\<close>

fun values_by :: "row list \<Rightarrow> (int, int option list) dict \<Rightarrow> (int, int option list) dict" where
  "values_by [] d = d"
| "values_by (r # rs) d =
     (let old = (case map_of d (ro_ev_type r) of None \<Rightarrow> [] | Some vs \<Rightarrow> vs)
      in values_by rs (dict_put (ro_ev_type r) (old @ [ro_event_value r]) d))"

record summary =
  sm_refusal :: "string option"
  sm_rows :: nat
  sm_consistency :: "check \<times> check"
  sm_per_event :: "(int \<times> verdict \<times> int option list) list"
  sm_verdict_counts :: "(verdict \<times> nat) list"
  sm_coverage :: "string option"
  sm_exit :: int

text \<open>\<open>sm_coverage\<close> is \<open>None\<close> for COMPLETE and COMPLETE_SUBSET, else the rule of the refusal.\<close>

definition summarise :: "config \<Rightarrow> row list \<Rightarrow> string option \<Rightarrow> summary" where
  "summarise cfg rows refusal =
     (let by = values_by rows [];
          per = map (\<lambda>ev. (ev, verdict_of (cf_repeats cfg) (the (map_of by ev)), the (map_of by ev))) (sorted_set (map fst by))
      in \<lparr>sm_refusal = refusal, sm_rows = length rows,
          sm_consistency = consistency (map (\<lambda>r. (ro_ev_type r, ro_event_value r, ro_window_cycles r)) rows),
          sm_per_event = per,
          sm_verdict_counts = map (\<lambda>v. (v, length (filter (\<lambda>(_, w, _). w = v) per))) VERDICTS,
          sm_coverage = (case check_coverage (map fst (cf_known cfg)) (map fst by) (cf_ids cfg) of
             Inl (Refusal rule) \<Rightarrow> Some rule | _ \<Rightarrow> None),
          sm_exit = (if refusal \<noteq> None then 1 else 0)\<rparr>)"

section \<open>What the campaign writes\<close>

type_synonym key = "int \<times> int \<times> nat \<times> int"

definition row_key :: "row \<Rightarrow> key" where
  "row_key r = (ro_set_id r, ro_rep r, ro_slot r, ro_ev_type r)"

definition set_plan :: "config \<Rightarrow> int \<times> int list \<Rightarrow> key list" where
  "set_plan cfg st = (case st of (set_id, codes) \<Rightarrow>
     concat (map (\<lambda>rep. map (\<lambda>(slot, ev). (set_id, rep, slot, ev)) (enumerate 0 codes))
       (map int [1..<Suc (cf_repeats cfg)])))"

definition plan :: "config \<Rightarrow> (int \<times> int list) list \<Rightarrow> key list" where
  "plan cfg sets = concat (map (set_plan cfg) sets)"

text \<open>A row carries a value only from a valid run, and a valid run has what its mode asks for.\<close>

definition row_sound :: "config \<Rightarrow> row \<Rightarrow> bool" where
  "row_sound cfg r \<longleftrightarrow> (ro_run_valid r \<longleftrightarrow> ro_invalid_reasons r = [])
     \<and> (ro_event_value r \<noteq> None \<longrightarrow> ro_run_valid r)
     \<and> (ro_run_valid r \<longrightarrow> ro_event_valid r \<and> ro_cycle_valid r = 1
         \<and> (case cf_mode cfg of Exact \<Rightarrow> ro_run_rc r = 0
            | Model \<Rightarrow> ro_vendor_rc r \<in> {Some 0, Some 2} \<and> ro_run_rc r \<noteq> KNOB_NOT_HONOURED))"

text \<open>\<open>writes cfg m ks\<close>: whatever \<open>m\<close> does, the rows it appends have keys that begin \<open>ks\<close>, all of \<open>ks\<close> when it
  returns, and are sound.\<close>

definition writes :: "config \<Rightarrow> ('s camp, 'a) prog \<Rightarrow> key list \<Rightarrow> bool" where
  "writes cfg m ks \<longleftrightarrow> (\<forall>s r t. m s = Some (r, t) \<longrightarrow> (\<exists>new. cp_rows t = cp_rows s @ new
     \<and> prefix (map row_key new) ks \<and> (isl r \<or> map row_key new = ks) \<and> list_all (row_sound cfg) new))"

named_theorems writes_intros "how the steps of the campaign write rows"

lemma writesI:
  assumes "\<And>s r t. m s = Some (r, t) \<Longrightarrow> \<exists>new. cp_rows t = cp_rows s @ new
     \<and> prefix (map row_key new) ks \<and> (isl r \<or> map row_key new = ks) \<and> list_all (row_sound cfg) new"
  shows "writes cfg m ks"
  using assms by (simp add: writes_def)

lemma writes_raises [writes_intros]: "writes cfg (raises e) ks"
  by (auto simp: writes_def)

lemma writes_quiet [writes_intros]:
  "writes cfg (returns x) []" "writes cfg (lift_res v) []" "writes cfg (on_link m) []"
  "writes cfg (modify (\<lambda>s. s\<lparr>cp_raw := f s\<rparr>)) []"
  by (auto simp: writes_def on_link_def split: option.splits)

lemma writes_recast [writes_intros]: "writes cfg m ks \<Longrightarrow> writes cfg (recast h m) ks"
  by (fastforce simp: writes_def recast_def split: option.splits sum.splits)

lemma writes_andthen:
  assumes "writes cfg m ks" "\<And>x. writes cfg (f x) ls"
  shows "writes cfg (andthen m f) (ks @ ls)"
proof (rule writesI)
  fix s r t
  assume "andthen m f s = Some (r, t)"
  then consider e where "m s = Some (Inl e, t)" "r = Inl e" | x u where "m s = Some (Inr x, u)" "f x u = Some (r, t)"
    by (auto simp: andthen_Some)
  then show "\<exists>new. cp_rows t = cp_rows s @ new \<and> prefix (map row_key new) (ks @ ls)
     \<and> (isl r \<or> map row_key new = ks @ ls) \<and> list_all (row_sound cfg) new"
  proof cases
    case 1
    with assms(1) obtain new where "cp_rows t = cp_rows s @ new" "prefix (map row_key new) ks"
      "list_all (row_sound cfg) new" unfolding writes_def by blast
    with 1 show ?thesis by (intro exI [of _ new]) simp
  next
    case 2
    with assms(1) obtain a where a: "cp_rows u = cp_rows s @ a" "map row_key a = ks" "list_all (row_sound cfg) a"
      unfolding writes_def by fastforce
    from 2(2) assms(2) [of x] obtain b where b: "cp_rows t = cp_rows u @ b" "prefix (map row_key b) ls"
      "isl r \<or> map row_key b = ls" "list_all (row_sound cfg) b" unfolding writes_def by blast
    with a show ?thesis by (intro exI [of _ "a @ b"]) auto
  qed
qed

lemma writes_then [writes_intros]:
  "writes cfg m [] \<Longrightarrow> (\<And>x. writes cfg (f x) ls) \<Longrightarrow> writes cfg (andthen m f) ls"
  using writes_andthen [of cfg m "[]" f ls] by simp

lemma writes_if [writes_intros]:
  "writes cfg m ks \<Longrightarrow> writes cfg m' ks \<Longrightarrow> writes cfg (if c then m else m') ks"
  by simp

lemma andthen_lift: "andthen (lift_res (Inl e)) f = raises e" "andthen (lift_res (Inr x)) f = f x"
  by (simp_all add: fun_eq_iff andthen_def)

lemma writes_state: "(\<And>s. writes cfg (m s) ks) \<Longrightarrow> writes cfg (\<lambda>s. m s s) ks"
  by (simp add: writes_def)

lemma writes_for_each:
  "(\<And>x. x \<in> set xs \<Longrightarrow> writes cfg (body x) (ks x)) \<Longrightarrow> writes cfg (for_each xs body) (concat (map ks xs))"
  by (induction xs) (simp_all add: writes_quiet writes_andthen)

lemma writes_add_rows:
  assumes "\<And>i r. i < length evs \<Longrightarrow> mk (slot + i) (evs ! i) = Inr r \<Longrightarrow>
    row_key r = (set_id, rep, slot + i, evs ! i) \<and> row_sound cfg r"
  shows "writes cfg (add_rows mk slot evs :: ('s camp, unit) prog) (map (\<lambda>(slot, ev). (set_id, rep, slot, ev)) (enumerate slot evs))"
  using assms
proof (induction evs arbitrary: slot)
  case Nil
  have e: "add_rows mk slot [] = (returns () :: ('s camp, unit) prog)" by (rule ext) simp
  show ?case unfolding e enumerate_simps list.map by (rule writes_quiet)
next
  case (Cons ev evs)
  have IH: "writes cfg (add_rows mk (Suc slot) evs :: ('s camp, unit) prog) (map (\<lambda>(slot, ev). (set_id, rep, slot, ev)) (enumerate (Suc slot) evs))"
    by (rule Cons.IH) (use Cons.prems [of "Suc i" for i] in auto)
  show ?case
  proof (cases "mk slot ev")
    case (Inl e)
    then show ?thesis by (auto intro!: writesI simp: andthen_def)
  next
    case (Inr r)
    then have r: "row_key r = (set_id, rep, slot, ev)" "row_sound cfg r" using Cons.prems [of 0 r] by auto
    have "writes cfg (modify (\<lambda>s. s\<lparr>cp_rows := cp_rows s @ [r]\<rparr>) :: ('s camp, unit) prog) [(set_id, rep, slot, ev)]"
      using r by (auto intro!: writesI)
    from writes_andthen [OF this IH]
    have "writes cfg (andthen (modify (\<lambda>s. s\<lparr>cp_rows := cp_rows s @ [r]\<rparr>)) (\<lambda>_. add_rows mk (Suc slot) evs) :: ('s camp, unit) prog)
        (map (\<lambda>(slot, ev). (set_id, rep, slot, ev)) (enumerate slot (ev # evs)))" by simp
    moreover have "(add_rows mk slot (ev # evs) :: ('s camp, unit) prog)
        = andthen (modify (\<lambda>s. s\<lparr>cp_rows := cp_rows s @ [r]\<rparr>)) (\<lambda>_. add_rows mk (Suc slot) evs)"
      using Inr by (simp add: fun_eq_iff andthen_def)
    ultimately show ?thesis by (simp only:)
  qed
qed

lemma mask_slot: "slot < n \<Longrightarrow> slot_set (push_bit n 1 - 1) slot"
  by (simp add: slot_set_bit push_bit_eq_mult mask_eq_exp_minus_1 [symmetric] bit_mask_iff)

lemma record_of_simps:
  "rr_run_rc (record_of cfg rc m p) = rc" "rr_pmu (record_of cfg rc m p) = p"
  "rr_vendor_rc (record_of cfg rc m p) = nth_opt (me_trailing m) 1"
  by (simp_all add: record_of_def)

lemma completed_run_codes:
  "completed_run rc \<Longrightarrow> rr_vendor_rc rc \<in> {Some 0, Some 2} \<and> rr_run_rc rc \<noteq> KNOB_NOT_HONOURED"
  by (simp add: completed_run_def KNOB_NOT_HONOURED_def)

lemma row_of_sound:
  assumes "run_validity (record_of cfg rc m p) codes (cf_mode cfg) = Inr (ok, failed)"
    and "row_of cfg set_id rep rc m p ok failed slot ev = Inr r" "slot < length codes"
  shows "row_key r = (set_id, rep, slot, ev) \<and> row_sound cfg r"
proof -
  have flag: "ok \<longleftrightarrow> failed = []" using run_validity_flag [OF assms(1)] .
  from assms(2) have r: "row_key r = (set_id, rep, slot, ev)" "ro_run_valid r = ok" "ro_invalid_reasons r = failed"
    "ro_run_rc r = rc" "ro_vendor_rc r = nth_opt (me_trailing m) 1" "ok \<or> ro_event_value r = None"
    "\<exists>vm. pm_scalars p ''event_valid_mask'' = Some vm \<and> ro_event_valid r = slot_set vm slot"
    "pm_scalars p ''npu_pmu_cycle_valid'' = Some (ro_cycle_valid r)"
    by (auto simp: row_of_def row_key_def split: if_splits)
  have valid: "ro_event_valid r \<and> ro_cycle_valid r = 1 \<and> (case cf_mode cfg of Exact \<Rightarrow> rc = 0
      | Model \<Rightarrow> nth_opt (me_trailing m) 1 \<in> {Some 0, Some 2} \<and> rc \<noteq> KNOB_NOT_HONOURED)" if ok
  proof -
    have "run_validity (record_of cfg rc m p) codes (cf_mode cfg) = Inr (True, failed)" using assms(1) that by simp
    note v = conjunct2 [OF iffD1 [OF run_validity_iff this]]
    note v = conjunct1 [OF v] conjunct2 [OF v]
    have "(2::int) ^ length codes = push_bit (length codes) 1" by (simp add: push_bit_eq_mult)
    moreover have "pm_scalars p ''npu_pmu_cycle_valid'' = Some 1"
      "pm_scalars p ''event_valid_mask'' = Some (2 ^ length codes - 1)"
      using v(1) by (simp_all only: all_terms_def Let_def record_of_simps)
    ultimately have "ro_event_valid r \<and> ro_cycle_valid r = 1"
      using r(7,8) mask_slot [OF assms(3)] by auto
    moreover have "case cf_mode cfg of Exact \<Rightarrow> rc = 0
      | Model \<Rightarrow> nth_opt (me_trailing m) 1 \<in> {Some 0, Some 2} \<and> rc \<noteq> KNOB_NOT_HONOURED"
      using v(2) completed_run_codes [of "record_of cfg rc m p"]
      by (cases "cf_mode cfg") (simp_all add: record_of_simps)
    ultimately show ?thesis by blast
  qed
  show ?thesis unfolding row_sound_def r(2-5) using r(1,6) flag valid by auto
qed

lemma writes_keep_run:
  "writes cfg (keep_run cfg set_id codes rep rc m p)
     (map (\<lambda>(slot, ev). (set_id, rep, slot, ev)) (enumerate 0 codes))"
proof (cases "run_validity (record_of cfg rc m p) codes (cf_mode cfg)")
  case (Inl e)
  then show ?thesis unfolding keep_run_def Inl andthen_lift by (intro writes_intros)
next
  case (Inr v)
  obtain ok failed where v: "v = (ok, failed)" by fastforce
  have rows: "writes cfg (add_rows (row_of cfg set_id rep rc m p ok failed) 0 codes)
      (map (\<lambda>(slot, ev). (set_id, rep, slot, ev)) (enumerate 0 codes))"
    by (rule writes_add_rows) (use row_of_sound Inr v in auto)
  show ?thesis unfolding keep_run_def Inr v andthen_lift prod.case by (intro writes_intros rows)
qed

lemma writes_measure_rep:
  "writes cfg (measure_rep R cfg set_id codes rep)
     (map (\<lambda>(slot, ev). (set_id, rep, slot, ev)) (enumerate 0 codes))"
proof -
  have "writes cfg (case op_last R (cp_link s) of None \<Rightarrow> raises (Refusal ''RULE_RECORD_SCHEMA'')
        | Some m \<Rightarrow> (case me_pmu m of None \<Rightarrow> raises (Refusal ''RULE_RECORD_SCHEMA'')
            | Some p \<Rightarrow> keep_run cfg set_id codes rep rc m p))
      (map (\<lambda>(slot, ev). (set_id, rep, slot, ev)) (enumerate 0 codes))" for rc and s :: "'a camp"
    by (simp add: writes_raises writes_keep_run split: option.split)
  from writes_state [OF this] show ?thesis unfolding measure_rep_def
    by (rule writes_then [rotated]) (intro writes_intros)
qed

lemma writes_prime: "writes cfg (on_link (prime R blob)) []"
  by (rule writes_quiet)

lemma writes_configure: "writes cfg (configure_set R cfg first set_id codes) []"
  unfolding configure_set_def by (intro writes_intros)

lemma writes_measure_set: "writes cfg (measure_set R cfg first_id st) (set_plan cfg st)"
proof (cases st)
  case (Pair set_id codes)
  have "writes cfg (for_each (map int [1..<Suc (cf_repeats cfg)]) (measure_rep R cfg set_id codes)) (set_plan cfg st)"
    unfolding Pair set_plan_def prod.case by (rule writes_for_each) (rule writes_measure_rep)
  then show ?thesis unfolding Pair measure_set_def prod.case Let_def
    by (intro writes_then [OF writes_configure] writes_then [OF writes_recast] writes_if writes_prime writes_quiet)
qed

lemma writes_campaign_body: "writes cfg (campaign_body R cfg sets) (plan cfg sets)"
  unfolding campaign_body_def plan_def
  by (intro writes_intros writes_for_each writes_measure_set)

lemma campaign_writes:
  assumes "campaign R cfg sets s = Some (r, t)" "cp_rows s = []"
  shows "prefix (map row_key (cp_rows t)) (plan cfg sets)" "list_all (row_sound cfg) (cp_rows t)"
    "r = Inr None \<longrightarrow> map row_key (cp_rows t) = plan cfg sets"
proof -
  from assms(1) obtain r' where r': "campaign_body R cfg sets s = Some (r', t)" "r = Inr None \<longrightarrow> \<not> isl r'"
    by (auto simp: campaign_def split: option.splits sum.splits exn.splits)
  with writes_campaign_body [of cfg R sets] assms(2) show
    "prefix (map row_key (cp_rows t)) (plan cfg sets)" "list_all (row_sound cfg) (cp_rows t)"
    "r = Inr None \<longrightarrow> map row_key (cp_rows t) = plan cfg sets"
    unfolding writes_def by fastforce+
qed

section \<open>What a complete campaign holds\<close>

lemma map_of_values_by:
  "map_of (values_by rows d) = (\<lambda>ev. let vs = map ro_event_value (filter (\<lambda>r. ro_ev_type r = ev) rows) in
     if vs = [] then map_of d ev else Some ((case map_of d ev of None \<Rightarrow> [] | Some old \<Rightarrow> old) @ vs))"
  by (induction rows d rule: values_by.induct) (auto simp: fun_eq_iff Let_def split: option.splits)

lemma filter_enumerate:
  "length (filter (\<lambda>(slot, e). e = ev) (enumerate n codes)) = count_list codes ev"
  by (induction codes arbitrary: n) auto

lemma set_plan_count:
  "length (filter (\<lambda>(s, rep, slot, e). e = ev) (set_plan cfg st)) = cf_repeats cfg * count_list (snd st) ev"
proof -
  obtain set_id codes where st: "st = (set_id, codes)" by fastforce
  have "length (filter (\<lambda>(s, rep, slot, e). e = ev)
      (concat (map (\<lambda>rep. map (\<lambda>(slot, e). (set_id, rep, slot, e)) (enumerate 0 codes)) reps)))
      = length reps * count_list codes ev" for reps
    by (induction reps) (simp_all add: filter_map o_def filter_enumerate)
  from this [of "map int [1..<Suc (cf_repeats cfg)]"] show ?thesis
    by (simp only: st set_plan_def prod.case length_map length_upt diff_Suc_1 snd_conv)
qed

lemma plan_count:
  "length (filter (\<lambda>(s, rep, slot, e). e = ev) (plan cfg sets)) = cf_repeats cfg * count_list (concat (map snd sets)) ev"
  by (induction sets) (simp_all add: plan_def set_plan_count add_mult_distrib2)

lemma count_list_distinct: "distinct xs \<Longrightarrow> count_list xs x = (if x \<in> set xs then 1 else 0)"
  by (induction xs) auto

lemma verdict_not_observed:
  "length vals = repeats \<Longrightarrow> verdict_of repeats vals = NOT_OBSERVED \<longleftrightarrow> None \<in> set vals"
proof -
  have "length (List.map_filter (\<lambda>v. v) vals) \<le> length vals
      \<and> (length (List.map_filter (\<lambda>v. v) vals) = length vals \<longleftrightarrow> None \<notin> set vals)"
    by (induction vals) (auto simp: map_filter_simps split: option.splits)
  then show "length vals = repeats \<Longrightarrow> ?thesis" by (auto simp: verdict_of_def Let_def)
qed

lemma rows_per_event:
  assumes "map row_key rows = plan cfg sets" "event_sets known ids = Inr sets"
  shows "length (filter (\<lambda>r. ro_ev_type r = ev) rows)
    = (if ev \<in> set (case ids of None \<Rightarrow> known | Some xs \<Rightarrow> xs) then cf_repeats cfg else 0)"
proof -
  have c: "concat (map snd sets) = sorted_set (case ids of None \<Rightarrow> known | Some xs \<Rightarrow> xs)"
    using event_sets_concat [OF assms(2)] .
  have "length (filter (\<lambda>r. ro_ev_type r = ev) rows) = length (filter (\<lambda>(s, rep, slot, e). e = ev) (map row_key rows))"
    by (simp add: filter_map o_def row_key_def)
  with assms(1) show ?thesis by (simp add: plan_count c count_list_distinct)
qed

lemma campaign_covers:
  assumes "event_sets (map fst (cf_known cfg)) (cf_ids cfg) = Inr sets" "0 < cf_repeats cfg"
    and "campaign R cfg sets \<lparr>cp_link = l, cp_raw = [], cp_rows = []\<rparr> = Some (Inr None, t)"
  shows "(let sm = summarise cfg (cp_rows t) None in
      map fst (sm_per_event sm) = sorted_set (case cf_ids cfg of None \<Rightarrow> map fst (cf_known cfg) | Some xs \<Rightarrow> xs)
      \<and> list_all (\<lambda>(ev, v, vs). length vs = cf_repeats cfg \<and> (v = NOT_OBSERVED \<longleftrightarrow> None \<in> set vs)) (sm_per_event sm)
      \<and> sm_coverage sm = None \<and> sm_exit sm = 0)"
proof -
  let ?rows = "cp_rows t" and ?req = "case cf_ids cfg of None \<Rightarrow> map fst (cf_known cfg) | Some xs \<Rightarrow> xs"
  let ?by = "values_by (cp_rows t) []"
  from campaign_writes [OF assms(3)] have "map row_key ?rows = plan cfg sets" by simp
  note count = rows_per_event [OF this assms(1)]
  have found: "map_of ?by ev = (if ev \<in> set ?req then Some (map ro_event_value (filter (\<lambda>r. ro_ev_type r = ev) ?rows)) else None)"
    for ev using count [of ev] assms(2) by (cases "ev \<in> set ?req") (auto simp: map_of_values_by Let_def)
  have keys: "set (map fst ?by) = set ?req"
    using found by (auto simp: dom_map_of_conv_image_fst [symmetric] dom_def)
  have "check_coverage (map fst (cf_known cfg)) (map fst ?by) (cf_ids cfg) = Inr ()"
    using keys by (simp add: check_coverage_def split: option.splits)
  moreover have "length (the (map_of ?by ev)) = cf_repeats cfg" if "ev \<in> set ?req" for ev
    using found [of ev] count [of ev] that by simp
  ultimately show ?thesis
    using sorted_set_cong [OF keys] keys
    by (simp add: summarise_def Let_def o_def list_all_iff verdict_not_observed)
qed

section \<open>Properties\<close>

text \<open>C21. Whatever the link does, and however the campaign ends, the rows it has written follow the plan: for every
  set in order, every repeat in order, every slot in order, up to the point where it stopped, and the whole plan
  when it was not refused. A row carries a value only when its run was valid, a run is valid exactly when no term
  failed, and then the counter was valid and the return code is what the mode asks for.\<close>

theorem campaign_rows:
  "case campaign R cfg sets \<lparr>cp_link = l, cp_raw = [], cp_rows = []\<rparr> of
     None \<Rightarrow> True
   | Some (r, t) \<Rightarrow> prefix (map row_key (cp_rows t)) (plan cfg sets) \<and> list_all (row_sound cfg) (cp_rows t)
       \<and> (case r of Inr None \<Rightarrow> map row_key (cp_rows t) = plan cfg sets | _ \<Rightarrow> True)"
  using campaign_writes [of R cfg sets "\<lparr>cp_link = l, cp_raw = [], cp_rows = []\<rparr>"]
  by (auto split: option.splits sum.splits)

text \<open>C22. A campaign over the sets of its event ids, with at least one repeat, that was not refused is complete: the
  summary has exactly one entry per requested event, each with as many values as there are repeats, the coverage
  check passes and the exit code is 0.\<close>

theorem campaign_complete:
  assumes "event_sets (map fst (cf_known cfg)) (cf_ids cfg) = Inr sets" "0 < cf_repeats cfg"
    and "campaign R cfg sets \<lparr>cp_link = l, cp_raw = [], cp_rows = []\<rparr> = Some (Inr None, t)"
  shows "(let sm = summarise cfg (cp_rows t) None in
      map fst (sm_per_event sm) = sorted_set (case cf_ids cfg of None \<Rightarrow> map fst (cf_known cfg) | Some xs \<Rightarrow> xs)
      \<and> list_all (\<lambda>(ev, v, vs). length vs = cf_repeats cfg \<and> (v = NOT_OBSERVED \<longleftrightarrow> None \<in> set vs)) (sm_per_event sm)
      \<and> sm_coverage sm = None \<and> sm_exit sm = 0)"
  by (rule campaign_covers [OF assms])

text \<open>A scripted runner: every run sends the same record, here of the one event 17 counting 5.\<close>

definition sample_pmu :: pmu_block where
  "sample_pmu = \<lparr>pm_scalars = map_of [(''record_schema_version'', 1), (''npu_pmu_cycle_valid'', 1),
      (''cycle_progress_observed'', 1), (''instrumentation_mode_applied'', 2), (''applied_event_count'', 1),
      (''event_valid_mask'', 1)],
    pm_event_codes = [Some 17], pm_event_values = [Some 5], pm_event_overflow = [Some False],
    pm_window_cycles_raw = 5, pm_window_cycles = Some 5\<rparr>"

definition sample_measurement :: measurement where
  "sample_measurement = \<lparr>me_run_sequence = 1, me_valid_flags = 15, me_run_rc = 0, me_fields = [],
    me_trailing_words = 56, me_pmu = Some sample_pmu, me_trailing = [1]\<rparr>"

definition sample_counters :: counters where
  "sample_counters = \<lparr>ct_state = 1, ct_version = 1, ct_rx_bytes = 20, ct_tx_bytes = 0, ct_rx_overrun = 0,
      ct_bad_magic = 0, ct_bad_version = 0, ct_bad_crc = 0, ct_length_error = 0, ct_sequence_error = 0,
      ct_parser_resync = 0\<rparr>"

definition sample_ops :: "unit ops" where
  "sample_ops = \<lparr>op_ping = returns sample_counters, op_reset = returns (), op_set_mode = (\<lambda>m codes i. returns [m, m, int (length codes), i]),
    op_begin = (\<lambda>_ _. returns []), op_chunk = (\<lambda>_ _. returns []), op_end = (\<lambda>_. returns []),
    op_input = (\<lambda>_. returns 0), op_run = (\<lambda>_. returns 0), op_last = (\<lambda>_. Some sample_measurement)\<rparr>"

definition sample_config :: config where
  "sample_config = \<lparr>cf_known = [(17, ''CYCLE'')], cf_trm = [17], cf_ids = None, cf_repeats = 2, cf_mode = Exact,
    cf_keep_model = False, cf_blob = [], cf_cms_len = 0\<rparr>"

lemma sample_campaign_returns:
  "\<exists>t :: unit camp. campaign sample_ops sample_config [(1, [17])] \<lparr>cp_link = (), cp_raw = [], cp_rows = []\<rparr> = Some (Inr None, t)"
  by (simp add: campaign_def campaign_body_def sample_ops_def sample_counters_def sample_config_def measure_set_def configure_set_def
      on_link_def error_counters_def recast_def prime_def chunk_offsets_def CHUNK_def INSTRUMENTATION_EVENTS_def
      andthen_def measure_rep_def sample_measurement_def keep_run_def sample_pmu_def scalar_def run_validity_def
      exact_terms_def record_of_def required_flags_ok_def RUN_VALID_REQUIRED_MASK_def nth_opt_def row_of_def
      dict_get_def index_def Let_def upt_rec numeral_2_eq_2)

theorem campaign_complete_witness:
  "\<exists>t :: unit camp. list_all (\<lambda>(ev, v, vs). length vs = 2 \<and> (v = NOT_OBSERVED \<longleftrightarrow> None \<in> set vs))
     (sm_per_event (summarise sample_config (cp_rows t) None))"
proof -
  obtain t where t: "campaign sample_ops sample_config [(1, [17])] \<lparr>cp_link = (), cp_raw = [], cp_rows = []\<rparr>
      = Some (Inr None, t)" using sample_campaign_returns by blast
  have "event_sets (map fst (cf_known sample_config)) (cf_ids sample_config) = Inr [(1, [17])]"
    by (simp add: sample_config_def event_sets_def sorted_set_def SLOTS_def py_slice_def)
  moreover have r: "cf_repeats sample_config = 2" by (simp add: sample_config_def)
  ultimately show ?thesis using campaign_complete [of sample_config, OF _ _ t, unfolded r Let_def] by auto
qed

lemma for_each_append: "for_each (xs @ ys) body = andthen (for_each xs body) (\<lambda>_. for_each ys body)"
  by (induction xs) (simp_all add: fun_eq_iff andthen_def split: option.split sum.split)

text \<open>What a set makes of an exception of the requests that configure it.\<close>

lemma configure_fails:
  assumes "andthen (if first \<or> \<not> cf_keep_model cfg then op_reset R else returns ())
      (\<lambda>_. op_set_mode R INSTRUMENTATION_EVENTS codes set_id) (cp_link s) = Some (Inl e, l)"
  shows "configure_set R cfg first set_id codes s = Some (Inl (mode_handler set_id e), s\<lparr>cp_link := l\<rparr>)"
proof -
  let ?reset = "if first \<or> \<not> cf_keep_model cfg then op_reset R else returns ()"
  have r: "(if first \<or> \<not> cf_keep_model cfg then on_link (op_reset R) else returns ()) s
      = (case ?reset (cp_link s) of None \<Rightarrow> None | Some (x, k) \<Rightarrow> Some (x, s\<lparr>cp_link := k\<rparr>))"
    by (simp add: on_link_def)
  obtain x k where x: "?reset (cp_link s) = Some (x, k)"
    using assms by (cases "?reset (cp_link s)") (auto simp: andthen_def)
  show ?thesis
  proof (cases x)
    case (Inl e')
    with assms x have "e' = e" "k = l" by (simp_all add: andthen_def)
    with Inl x show ?thesis unfolding configure_set_def andthen_def recast_def r by simp
  next
    case (Inr u)
    with assms x have "op_set_mode R INSTRUMENTATION_EVENTS codes set_id k = Some (Inl e, l)"
      by (simp add: andthen_def)
    with Inr x show ?thesis unfolding configure_set_def andthen_def recast_def r by (simp add: on_link_def)
  qed
qed

text \<open>C23. Let the ping of a campaign be clean and the sets before this one be measured, and let RESET_RUNNER or
  SET_INSTRUMENTATION_MODE of this set raise. A NACK of any code ends the campaign as the refusal RULE_MODE_NACK: the
  code of ERR_UNSUPPORTED at set 1 included, so RULE_CAPABILITY is never given. A \<open>ProtocolError\<close>, a time-out
  for one, is not turned into a refusal: it leaves the campaign as it is. Either way no other set is
  measured, and the rows are those of the sets before.\<close>

theorem mode_request_failures:
  assumes "sets = pre @ (set_id, codes) # post" "op_ping R l = Some (Inr c, l1)"
    and "ct_state c = 1" "\<forall>n\<in>set (error_counters c). n = 0"
    and "for_each pre (measure_set R cfg (fst (hd sets))) \<lparr>cp_link = l1, cp_raw = [RawPing c], cp_rows = []\<rparr> = Some (Inr (), s)"
    and "andthen (if set_id = fst (hd sets) \<or> \<not> cf_keep_model cfg then op_reset R else returns ())
      (\<lambda>_. op_set_mode R INSTRUMENTATION_EVENTS codes set_id) (cp_link s) = Some (Inl e, l2)"
  shows "campaign R cfg sets \<lparr>cp_link = l, cp_raw = [], cp_rows = []\<rparr>
    = Some (case e of Nack _ _ _ \<Rightarrow> Inr (Some ''RULE_MODE_NACK'') | Refusal rule \<Rightarrow> Inr (Some rule) | _ \<Rightarrow> Inl e,
            s\<lparr>cp_link := l2\<rparr>)"
proof -
  have "campaign_body R cfg sets \<lparr>cp_link = l, cp_raw = [], cp_rows = []\<rparr>
      = for_each sets (measure_set R cfg (fst (hd sets))) \<lparr>cp_link = l1, cp_raw = [RawPing c], cp_rows = []\<rparr>"
    using assms(2-4) by (simp add: campaign_body_def andthen_def on_link_def)
  also have "\<dots> = measure_set R cfg (fst (hd sets)) (set_id, codes) s"
    unfolding assms(1) for_each_append using assms(5) configure_fails [OF assms(6)]
    by (simp add: andthen_def assms(1) measure_set_def Let_def)
  also have "\<dots> = Some (Inl (mode_handler set_id e), s\<lparr>cp_link := l2\<rparr>)"
    using configure_fails [OF assms(6)] by (simp add: andthen_def measure_set_def Let_def)
  finally show ?thesis
    by (cases e) (simp_all add: campaign_def mode_handler_def nack_repr_not_unsupported)
qed

text \<open>A runner whose mode request raises: a NACK with the code of ERR_UNSUPPORTED at set 1, and a time-out.\<close>

definition mode_raises :: "exn \<Rightarrow> unit ops" where
  "mode_raises e = sample_ops\<lparr>op_set_mode := \<lambda>_ _ _. raises e\<rparr>"

lemma mode_raises_hyps:
  "op_ping (mode_raises e) () = Some (Inr sample_counters, ())" "ct_state sample_counters = 1"
  "\<forall>n\<in>set (error_counters sample_counters). n = 0"
  "andthen (if b then op_reset (mode_raises e) else returns ())
     (\<lambda>_. op_set_mode (mode_raises e) INSTRUMENTATION_EVENTS codes set_id) u = Some (Inl e, ())"
  by (simp_all add: mode_raises_def sample_ops_def sample_counters_def error_counters_def andthen_def)

lemma mode_request_failures_witness:
  "campaign (mode_raises (Nack 12 5 1)) sample_config [(1, [17])] \<lparr>cp_link = (), cp_raw = [], cp_rows = []\<rparr>
     = Some (Inr (Some ''RULE_MODE_NACK''), \<lparr>cp_link = (), cp_raw = [RawPing sample_counters], cp_rows = []\<rparr>)
   \<and> campaign (mode_raises (ProtocolError TimedOut)) sample_config [(1, [17])] \<lparr>cp_link = (), cp_raw = [], cp_rows = []\<rparr>
     = Some (Inl (ProtocolError TimedOut), \<lparr>cp_link = (), cp_raw = [RawPing sample_counters], cp_rows = []\<rparr>)"
  using mode_request_failures [of "[(1, [17])]" "[]" 1 "[17]" "[]" "mode_raises (Nack 12 5 1)" "()" sample_counters "()"
      sample_config "\<lparr>cp_link = (), cp_raw = [RawPing sample_counters], cp_rows = []\<rparr>" "Nack 12 5 1" "()"]
    mode_request_failures [of "[(1, [17])]" "[]" 1 "[17]" "[]" "mode_raises (ProtocolError TimedOut)" "()" sample_counters "()"
      sample_config "\<lparr>cp_link = (), cp_raw = [RawPing sample_counters], cp_rows = []\<rparr>" "ProtocolError TimedOut" "()"]
  by (simp add: mode_raises_hyps mode_raises_hyps(4) [of True, simplified])

end
