(* ===== verification/Results.thy ===== *)
theory Results
  imports Campaign
begin

text \<open>
  \<open>host/lib/results.py\<close>: reading a campaign's \<open>runs.csv\<close> back, one record per RUN. A CSV row is a dictionary from
  column names to texts, as \<open>csv.DictReader\<close> gives it; \<open>csv_row\<close> is the row \<open>csv.DictWriter\<close> writes for a row of
  the campaign, in the columns that are read back.
\<close>

section \<open>Integers in text\<close>

text \<open>\<open>int(text)\<close>: blanks around, a sign, digits with single underscores between them.\<close>

fun int_digits :: "int \<Rightarrow> bool \<Rightarrow> string \<Rightarrow> int option" where
  "int_digits v after_digit [] = (if after_digit then Some v else None)"
| "int_digits v after_digit (c # cs) =
     (if is_digit c then int_digits (10 * v + digit_value c) True cs
      else if c = CHR ''_'' \<and> after_digit then int_digits v False cs else None)"

definition int_of_text :: "string \<Rightarrow> exn + int" where
  "int_of_text s =
     (let t = strip_blank s;
          r = (case t of [] \<Rightarrow> None
               | c # cs \<Rightarrow> if c = CHR ''-'' then map_option uminus (int_digits 0 False cs)
                          else if c = CHR ''+'' then int_digits 0 False cs else int_digits 0 False t)
      in case r of None \<Rightarrow> Inl (ValueError ''int'') | Some v \<Rightarrow> Inr v)"

section \<open>Reading the runs\<close>

definition WARMUP :: int where "WARMUP = 5"

definition EVENTS :: "(int, string) dict" where
  "EVENTS = [(17, ''cycle''), (32, ''npu_idle''), (35, ''npu_active''), (48, ''mac_active''), (51, ''mac_dpu_active''),
     (52, ''mac_stalled_by_w_or_acc''), (55, ''mac_stalled_by_ib''), (64, ''ao_active''), (80, ''wd_active''),
     (81, ''wd_stalled''), (130, ''sram_rd_beats''), (135, ''sram_wr_beats''), (140, ''sram_enabled''),
     (386, ''ext_rd_beats''), (391, ''ext_wr_beats''), (387, ''ext_rd_req_stall''), (392, ''ext_wr_req_stall''),
     (393, ''ext_wr_data_stall''), (396, ''ext_enabled'')]"

definition event_name :: "int \<Rightarrow> string" where
  "event_name ev = (case map_of EVENTS ev of None \<Rightarrow> ''ev'' @ decimal ev | Some n \<Rightarrow> n)"

text \<open>The dictionary of one RUN; its event entries are \<open>rn_events\<close>.\<close>

record run =
  rn_rep :: int
  rn_valid :: bool
  rn_overflow :: bool
  rn_window_cycles :: "int option"
  rn_run_rc :: "int option"
  rn_vendor_rc :: "int option"
  rn_ofm_mismatch :: "int option"
  rn_events :: "(string, int option) dict"

type_synonym csv = "(string, string) dict"

definition col :: "csv \<Rightarrow> string \<Rightarrow> exn + string" where
  "col r c = dict_get c r"

definition to_int :: "string option \<Rightarrow> exn + int option" where
  "to_int t = (case t of None \<Rightarrow> Inr None
     | Some s \<Rightarrow> if s = [] \<or> s = ''None'' then Inr None else bind_res (int_of_text s) (\<lambda>v. Inr (Some v)))"

text \<open>The second argument of \<open>setdefault\<close>, which is evaluated for every row.\<close>

definition fresh_run :: "csv \<Rightarrow> int \<Rightarrow> exn + run" where
  "fresh_run r rep =
     bind_res (col r ''run_valid'') (\<lambda>valid.
     bind_res (col r ''window_cycles'') (\<lambda>w.
     bind_res (if w \<noteq> [] then bind_res (int_of_text w) (\<lambda>v. Inr (Some v)) else Inr None) (\<lambda>window.
     bind_res (to_int (map_of r ''run_rc'')) (\<lambda>rc.
     bind_res (to_int (map_of r ''vendor_rc'')) (\<lambda>vrc.
     bind_res (to_int (map_of r ''ofm_mismatch_count'')) (\<lambda>mm.
       Inr \<lparr>rn_rep = rep, rn_valid = (valid = ''True''), rn_overflow = False, rn_window_cycles = window,
            rn_run_rc = rc, rn_vendor_rc = vrc, rn_ofm_mismatch = mm, rn_events = []\<rparr>))))))"

definition load_row :: "(int, run) dict \<Rightarrow> csv \<Rightarrow> exn + (int, run) dict" where
  "load_row runs r =
     bind_res (bind_res (col r ''rep'') int_of_text) (\<lambda>rep.
     bind_res (fresh_run r rep) (\<lambda>fresh.
     let run = (case map_of runs rep of None \<Rightarrow> fresh | Some old \<Rightarrow> old) in
     bind_res (col r ''event_overflow'') (\<lambda>ovf.
     bind_res (bind_res (col r ''ev_type'') int_of_text) (\<lambda>ev.
     bind_res (col r ''event_value'') (\<lambda>v.
     bind_res (if v \<noteq> [] \<and> v \<noteq> ''None'' then bind_res (int_of_text v) (\<lambda>n. Inr (Some n)) else Inr None) (\<lambda>value.
       Inr (dict_put rep
         (run\<lparr>rn_overflow := rn_overflow run \<or> ovf \<notin> {''0'', ''False'', []},
              rn_events := dict_put (event_name ev) value (rn_events run)\<rparr>) runs)))))))"

fun load_rows :: "(int, run) dict \<Rightarrow> csv list \<Rightarrow> exn + (int, run) dict" where
  "load_rows runs [] = Inr runs"
| "load_rows runs (r # rs) = bind_res (load_row runs r) (\<lambda>runs'. load_rows runs' rs)"

definition load_runs :: "csv list \<Rightarrow> exn + run list" where
  "load_runs rows = bind_res (load_rows [] rows) (\<lambda>runs.
     Inr (map (\<lambda>rep. the (map_of runs rep)) (sorted_set (map fst runs))))"

definition measured_valid :: "run list \<Rightarrow> int \<Rightarrow> run list" where
  "measured_valid runs warmup = filter (\<lambda>r. rn_rep r > warmup \<and> rn_valid r) runs"

section \<open>What the campaign writes\<close>

definition bool_text :: "bool \<Rightarrow> string" where
  "bool_text b = (if b then ''True'' else ''False'')"

definition csv_row :: "row \<Rightarrow> csv" where
  "csv_row r =
     [(''set_id'', decimal (ro_set_id r)), (''rep'', decimal (ro_rep r)), (''slot'', decimal (int (ro_slot r))),
      (''ev_type'', decimal (ro_ev_type r)), (''name'', ro_name r), (''in_trm110'', bool_text (ro_in_trm r)),
      (''event_value'', case ro_event_value r of None \<Rightarrow> [] | Some v \<Rightarrow> decimal v),
      (''event_valid'', bool_text (ro_event_valid r)),
      (''event_overflow'', case ro_event_overflow r of None \<Rightarrow> [] | Some b \<Rightarrow> bool_text b),
      (''run_rc'', decimal (ro_run_rc r)), (''run_valid'', bool_text (ro_run_valid r)),
      (''window_cycles'', case ro_window_cycles r of None \<Rightarrow> [] | Some w \<Rightarrow> decimal w),
      (''cycle_valid'', decimal (ro_cycle_valid r)), (''valid_flags'', decimal (ro_valid_flags r)),
      (''vendor_rc'', case ro_vendor_rc r of None \<Rightarrow> [] | Some v \<Rightarrow> decimal v),
      (''ofm_mismatch_count'', case ro_ofm_mismatch_count r of None \<Rightarrow> [] | Some v \<Rightarrow> decimal v),
      (''ofm_max_abs_diff'', case ro_ofm_max_abs_diff r of None \<Rightarrow> [] | Some v \<Rightarrow> decimal v)]"

section \<open>Round trip\<close>

lemma is_digit_digit_char: "d < 10 \<Longrightarrow> is_digit (digit_char d) \<and> digit_value (digit_char d) = int d"
proof -
  assume "d < 10"
  then have "d \<in> set [0..<10]" by simp
  then show ?thesis
    by (auto simp: upt_rec digit_char_def digit_value_def is_digit_def among_def less_eq_char_def less_char_def)
qed

lemma digits_of_10:
  "list_all is_digit (digits_of 10 n) \<and> digits_of 10 n \<noteq> [] \<and> foldl (\<lambda>v c. 10 * v + digit_value c) 0 (digits_of 10 n) = int n"
proof (induction n rule: less_induct)
  case (less n)
  show ?case
  proof (cases "n < 10")
    case True
    then show ?thesis using is_digit_digit_char [of n] by (subst (1 2 3) digits_of.simps) simp
  next
    case False
    then have "n div 10 < n" by simp
    moreover have "10 * int (n div 10) + int (n mod 10) = int n" by presburger
    ultimately show ?thesis
      using less [of "n div 10"] False is_digit_digit_char [of "n mod 10"] by (subst (1 2 3) digits_of.simps) simp
  qed
qed

lemma int_digits_foldl:
  "list_all is_digit cs \<Longrightarrow> cs \<noteq> [] \<or> b \<Longrightarrow> int_digits v b cs = Some (foldl (\<lambda>v c. 10 * v + digit_value c) v cs)"
  by (induction cs arbitrary: v b) auto

lemma digit_not_blank: "is_digit c \<Longrightarrow> \<not> is_blank c \<and> c \<noteq> CHR ''-'' \<and> c \<noteq> CHR ''+'' \<and> c \<noteq> CHR ''N''"
  by (auto simp: is_digit_def among_def is_blank_def Let_def less_eq_char_def less_char_def)

lemma strip_blank_id: "list_all (\<lambda>c. \<not> is_blank c) s \<Longrightarrow> strip_blank s = s"
proof -
  assume a: "list_all (\<lambda>c. \<not> is_blank c) s"
  then have "dropWhile is_blank s = s" by (cases s) auto
  moreover from a have "dropWhile is_blank (rev s) = rev s" by (cases "rev s") (auto simp: list_all_iff dest!: arg_cong [where f = set])
  ultimately show ?thesis by (simp add: strip_blank_def)
qed

lemma int_of_text_decimal [simp]: "int_of_text (decimal n) = Inr n"
proof -
  obtain ds where ds: "ds = digits_of 10 (nat \<bar>n\<bar>)" "list_all is_digit ds" "ds \<noteq> []"
    "foldl (\<lambda>v c. 10 * v + digit_value c) 0 ds = \<bar>n\<bar>" using digits_of_10 [of "nat \<bar>n\<bar>"] by auto
  have i: "int_digits 0 False ds = Some \<bar>n\<bar>" using int_digits_foldl [of ds False 0] ds by simp
  have nb: "list_all (\<lambda>c. \<not> is_blank c) ds" using ds(2) digit_not_blank by (auto simp: list_all_iff)
  show ?thesis
  proof (cases "n < 0")
    case True
    then have "decimal n = CHR ''-'' # ds" using ds(1) by (simp add: decimal_def)
    moreover have "strip_blank (CHR ''-'' # ds) = CHR ''-'' # ds" using nb by (intro strip_blank_id) (simp add: is_blank_def)
    ultimately show ?thesis using i True by (simp add: int_of_text_def)
  next
    case False
    then have "decimal n = ds" using ds(1) by (simp add: decimal_def)
    moreover obtain c cs where "ds = c # cs" "is_digit c" using ds(2,3) by (cases ds) auto
    ultimately show ?thesis using i False strip_blank_id [OF nb] digit_not_blank [of c] by (simp add: int_of_text_def Let_def)
  qed
qed

lemma decimal_text [simp]: "decimal n \<noteq> []" "decimal n \<noteq> ''None''"
proof -
  have "int_of_text [] \<noteq> Inr m" "int_of_text ''None'' \<noteq> Inr m" for m
    by (simp_all add: int_of_text_def strip_blank_def is_blank_def is_digit_def among_def less_eq_char_def less_char_def)
  then show "decimal n \<noteq> []" "decimal n \<noteq> ''None''" by (metis int_of_text_decimal)+
qed

text \<open>The run a list of campaign rows stands for: the per-run columns of its first row, an overflow when any of its
  slots overflowed, and the values of its events, a later row of an event over an earlier one.\<close>

definition merge_row :: "row \<Rightarrow> run \<Rightarrow> run" where
  "merge_row r n = n\<lparr>rn_overflow := rn_overflow n \<or> ro_event_overflow r = Some True,
     rn_events := dict_put (event_name (ro_ev_type r)) (ro_event_value r) (rn_events n)\<rparr>"

definition run_of_row :: "row \<Rightarrow> run" where
  "run_of_row r = \<lparr>rn_rep = ro_rep r, rn_valid = ro_run_valid r, rn_overflow = False,
     rn_window_cycles = ro_window_cycles r, rn_run_rc = Some (ro_run_rc r), rn_vendor_rc = ro_vendor_rc r,
     rn_ofm_mismatch = ro_ofm_mismatch_count r, rn_events = []\<rparr>"

definition run_of_rows :: "int \<Rightarrow> row list \<Rightarrow> run option" where
  "run_of_rows rep rows = (case filter (\<lambda>r. ro_rep r = rep) rows of [] \<Rightarrow> None
     | r # rs \<Rightarrow> Some (fold merge_row (r # rs) (run_of_row r)))"

lemma fresh_run_csv: "fresh_run (csv_row r) rep = Inr ((run_of_row r)\<lparr>rn_rep := rep\<rparr>)"
  by (cases "ro_window_cycles r"; cases "ro_vendor_rc r"; cases "ro_ofm_mismatch_count r")
    (simp_all add: fresh_run_def csv_row_def col_def dict_get_def to_int_def run_of_row_def bool_text_def)

lemma load_row_csv:
  "load_row runs (csv_row r) = Inr (dict_put (ro_rep r)
     (merge_row r (case map_of runs (ro_rep r) of None \<Rightarrow> run_of_row r | Some old \<Rightarrow> old)) runs)"
proof -
  have c: "col (csv_row r) ''rep'' = Inr (decimal (ro_rep r))" "col (csv_row r) ''ev_type'' = Inr (decimal (ro_ev_type r))"
    "col (csv_row r) ''event_value'' = Inr (case ro_event_value r of None \<Rightarrow> [] | Some v \<Rightarrow> decimal v)"
    "col (csv_row r) ''event_overflow'' = Inr (case ro_event_overflow r of None \<Rightarrow> [] | Some b \<Rightarrow> bool_text b)"
    by (simp_all add: csv_row_def col_def dict_get_def)
  have o: "(case ro_event_overflow r of None \<Rightarrow> [] | Some b \<Rightarrow> bool_text b) \<notin> {''0'', ''False'', []}
      \<longleftrightarrow> ro_event_overflow r = Some True"
    by (auto simp: bool_text_def split: option.splits if_splits)
  have f: "(run_of_row r)\<lparr>rn_rep := ro_rep r\<rparr> = run_of_row r" by (simp add: run_of_row_def)
  show ?thesis
    unfolding load_row_def c bind_res_simps int_of_text_decimal fresh_run_csv f Let_def o merge_row_def
    by (cases "ro_event_value r") simp_all
qed

lemma run_of_rows_snoc:
  "run_of_rows rep (rows @ [r]) = (if ro_rep r = rep
     then Some (merge_row r (case run_of_rows rep rows of None \<Rightarrow> run_of_row r | Some n \<Rightarrow> n)) else run_of_rows rep rows)"
  by (auto simp: run_of_rows_def split: list.splits)

lemma load_rows_csv:
  "map_of runs = (\<lambda>rep. run_of_rows rep before) \<Longrightarrow>
    \<exists>runs'. load_rows runs (map csv_row rows) = Inr runs' \<and> map_of runs' = (\<lambda>rep. run_of_rows rep (before @ rows))"
proof (induction rows arbitrary: runs before)
  case Nil
  then show ?case by simp
next
  case (Cons r rows)
  let ?runs = "dict_put (ro_rep r) (merge_row r (case map_of runs (ro_rep r) of None \<Rightarrow> run_of_row r | Some old \<Rightarrow> old)) runs"
  have "map_of ?runs = (\<lambda>rep. run_of_rows rep (before @ [r]))"
    using Cons.prems by (auto simp: run_of_rows_snoc fun_eq_iff)
  from Cons.IH [OF this] show ?case by (simp add: load_row_csv)
qed

lemma load_runs_of_campaign:
  "load_runs (map csv_row rows) = Inr (map (\<lambda>rep. the (run_of_rows rep rows)) (sorted_set (map ro_rep rows)))"
proof -
  have "map_of [] = (\<lambda>rep. run_of_rows rep [])" by (simp add: run_of_rows_def fun_eq_iff)
  from load_rows_csv [OF this, of rows] obtain runs where
    runs: "load_rows [] (map csv_row rows) = Inr runs" "map_of runs = (\<lambda>rep. run_of_rows rep rows)" by auto
  have "set (map fst runs) = dom (map_of runs)" by (simp add: dom_map_of_conv_image_fst)
  also have "\<dots> = set (map ro_rep rows)"
    unfolding runs(2) by (auto simp: dom_def run_of_rows_def filter_empty_conv split: list.splits)
  finally have "sorted_set (map fst runs) = sorted_set (map ro_rep rows)" by (rule sorted_set_cong)
  then show ?thesis by (simp add: load_runs_def runs)
qed

section \<open>Properties\<close>

text \<open>C24. Reading back what the campaign wrote never raises: for any rows, \<open>load_runs\<close> of their CSV form is one record
  per repetition number in ascending order, with the per-run columns of the first row of that repetition, the
  overflow of any of its rows and the value of every event, a missing value staying missing.\<close>

theorem load_runs_reads_campaign:
  "load_runs (map csv_row rows) = Inr (map (\<lambda>rep. the (run_of_rows rep rows)) (sorted_set (map ro_rep rows)))"
  by (rule load_runs_of_campaign)

end
