(* ===== verification/Pmwl_Blob.thy ===== *)
theory Pmwl_Blob
  imports Py_Text
begin

text \<open>
  The PMWL workload blob of \<open>host/lib/pmwl.py\<close>: \<open>knobs\<close>, \<open>align\<close>, \<open>pack\<close> and \<open>parse_header\<close>.
  Dictionaries that come from the caller are association lists; an empty or missing one is \<open>[]\<close>.
  The text of a \<open>SystemExit\<close> or \<open>ValueError\<close> is kept up to its format arguments.
\<close>

section \<open>Layout\<close>

definition MAGIC :: int where "MAGIC = 0x4C574D50"
definition OFF :: int where "OFF = 0xFFFFFFFF"
definition HEADER_WORDS :: nat where "HEADER_WORDS = 16"
definition KNOB_WORDS :: nat where "KNOB_WORDS = 16"
definition V2_KNOBS :: nat where "V2_KNOBS = 7"
definition IO_WORD :: nat where "IO_WORD = HEADER_WORDS + KNOB_WORDS"
definition IO_MAX :: nat where "IO_MAX = 10"
definition IO_WORDS :: nat where "IO_WORDS = 2 + 3 * IO_MAX"

lemmas layout_defs = HEADER_WORDS_def KNOB_WORDS_def V2_KNOBS_def IO_WORD_def IO_MAX_def IO_WORDS_def

definition HEADER_FIELDS :: "string list" where
  "HEADER_FIELDS = [''magic'', ''version'', ''cms_off'', ''cms_len'', ''const_off'', ''const_len'',
     ''arena_size'', ''fast_size'', ''ifm_arena_off'', ''ifm_len'', ''ifm_data_off'', ''ofm_arena_off'',
     ''ofm_len'', ''golden_off'', ''irq_mask'', ''total_len'']"

definition KNOB_FIELDS :: "string list" where
  "KNOB_FIELDS = [''axi_chan'', ''regioncfg'', ''qconfig'', ''mem_attr0'', ''mem_attr1'', ''mem_attr2'',
     ''mem_attr3'', ''axi_sram'', ''axi_ext'', ''power_ctrl'', ''fast_base'', ''ta_profile'']"

text \<open>\<open>tuple.index\<close>.\<close>

fun name_index :: "string \<Rightarrow> string list \<Rightarrow> nat" where
  "name_index x [] = 0"
| "name_index x (y # ys) = (if x = y then 0 else Suc (name_index x ys))"

definition header_word :: "string \<Rightarrow> exn + nat" where
  "header_word name =
     (if name \<in> set HEADER_FIELDS then Inr (name_index name HEADER_FIELDS)
      else if name \<in> set KNOB_FIELDS then Inr (HEADER_WORDS + name_index name KNOB_FIELDS)
      else Inl (ValueError ''tuple.index''))"

definition AXI_CHANNELS :: "(string \<times> int) list" where
  "AXI_CHANNELS = [(''rd_cmd'', 0), (''rd_ifm'', 1), (''rd_weights'', 2), (''rd_scale_bias'', 3),
     (''rd_mem2mem'', 4), (''rd_ifm_stream'', 5), (''rd_mem2mem_idx'', 6), (''wr_ofm'', 8), (''wr_mem2mem'', 9)]"

definition ATTR_SRAM :: int where "ATTR_SRAM = 0"
definition ATTR_EXT :: int where "ATTR_EXT = 2"
definition MEM_ATTR_SRAM :: int where "MEM_ATTR_SRAM = 0x0"
definition MEM_ATTR_EXT :: int where "MEM_ATTR_EXT = 0x4"
definition AXI_LIMIT_FIELDS :: int where "AXI_LIMIT_FIELDS = 0x31F3F"
definition POWER_CTRL_MASK :: int where "POWER_CTRL_MASK = 0x3F"
definition ONCHIP_SRAM :: "int \<times> int" where "ONCHIP_SRAM = (0x31000000, 0x31400000)"

text \<open>The timing adapters: base addresses, the registers in the order in which a profile writes them, and the profiles.
  The packer only asks whether a profile exists; the values are those of the firmware's table.\<close>

definition TA_BASE :: "(string, int) dict" where
  "TA_BASE = [(''sram'', 0x51102000), (''ext'', 0x51102400)]"

definition TA_REGS :: "(string, int) dict" where
  "TA_REGS = [(''maxr'', 0x00), (''maxw'', 0x04), (''maxrw'', 0x08), (''rlatency'', 0x0C), (''wlatency'', 0x10),
     (''pulse_on'', 0x14), (''pulse_off'', 0x18), (''bwcap'', 0x1C), (''perfctrl'', 0x20), (''mode'', 0x28), (''histbin'', 0x30)]"

definition TA_PROFILES :: "(int, (string, (string, int) dict) dict) dict" where
  "TA_PROFILES =
     [(1, [(''sram'', [(''maxr'', 8), (''maxw'', 8), (''maxrw'', 0), (''rlatency'', 32), (''wlatency'', 32), (''pulse_on'', 3999),
                       (''pulse_off'', 1), (''bwcap'', 4000), (''perfctrl'', 0), (''mode'', 1), (''histbin'', 0)]),
           (''ext'', [(''maxr'', 0), (''maxw'', 32), (''maxrw'', 0), (''rlatency'', 500), (''wlatency'', 250), (''pulse_on'', 4000),
                      (''pulse_off'', 1000), (''bwcap'', 3750), (''perfctrl'', 0), (''mode'', 1), (''histbin'', 0)])]),
      (2, [(''sram'', [(''maxr'', 0), (''maxw'', 0), (''maxrw'', 0), (''rlatency'', 0), (''wlatency'', 0), (''pulse_on'', 0xFFFF),
                       (''pulse_off'', 0), (''bwcap'', 0), (''perfctrl'', 0), (''mode'', 1), (''histbin'', 0)]),
           (''ext'', [(''maxr'', 0), (''maxw'', 0), (''maxrw'', 0), (''rlatency'', 0), (''wlatency'', 0), (''pulse_on'', 0xFFFF),
                      (''pulse_off'', 0), (''bwcap'', 0), (''perfctrl'', 0), (''mode'', 1), (''histbin'', 0)])])]"

text \<open>What the firmware relies on: the profiles are numbered from 1, and each gives every register of both adapters a value
  of at most 16 bits; the offsets of the registers are ascending word addresses.\<close>

lemma ta_profiles_complete:
  "map fst TA_PROFILES = [1..int (length TA_PROFILES)]"
  "list_all (\<lambda>(_, ports). map fst ports = map fst TA_BASE
     \<and> list_all (\<lambda>(_, regs). map fst regs = map fst TA_REGS \<and> list_all (\<lambda>(_, v). 0 \<le> v \<and> v < 2 ^ 16) regs) ports) TA_PROFILES"
  "sorted (map snd TA_REGS)" "distinct (map snd TA_REGS)" "list_all (\<lambda>(_, off). 4 dvd off) TA_REGS"
  by code_simp+

section \<open>Knob words\<close>

definition set_knob :: "string \<Rightarrow> int \<Rightarrow> int list \<Rightarrow> int list" where
  "set_knob name v k = k[name_index name KNOB_FIELDS := v]"

definition axi_knob :: "string \<Rightarrow> int list \<Rightarrow> exn + int list" where
  "axi_knob axi k =
     (if axi = [] then Inr k
      else case split_char CHR '':'' axi of
        [port, chan] \<Rightarrow> bind_res (dict_get chan AXI_CHANNELS) (\<lambda>c.
          Inr (set_knob ''axi_chan'' ((if port = ''ext'' then push_bit 8 1 else 0) OR c) k))
      | _ \<Rightarrow> Inl (ValueError ''unpack''))"

definition attr_of :: "(string \<times> string) list \<Rightarrow> string \<Rightarrow> exn + int" where
  "attr_of ports r = bind_res (dict_get r ports) (\<lambda>p. Inr (if p = ''ext'' then ATTR_EXT else ATTR_SRAM))"

definition port_knobs :: "(string \<times> string) list \<Rightarrow> int list \<Rightarrow> exn + int list" where
  "port_knobs ports k =
     (if ports = [] then Inr k
      else
        bind_res (attr_of ports ''const'') (\<lambda>c.
        bind_res (attr_of ports ''arena'') (\<lambda>a.
        bind_res (attr_of ports ''fast'') (\<lambda>f.
        bind_res (attr_of ports ''cmd'') (\<lambda>q.
          Inr (set_knob ''mem_attr3'' MEM_ATTR_EXT (set_knob ''mem_attr2'' MEM_ATTR_EXT
                (set_knob ''mem_attr1'' MEM_ATTR_SRAM (set_knob ''mem_attr0'' MEM_ATTR_SRAM
                  (set_knob ''qconfig'' q
                    (set_knob ''regioncfg'' (((c OR push_bit 2 a) OR push_bit 4 f) OR push_bit 6 ATTR_SRAM) k)))))))))))"

definition limit_knob :: "(string \<times> int) list \<Rightarrow> string \<Rightarrow> string \<Rightarrow> int list \<Rightarrow> exn + int list" where
  "limit_knob axi_limit port field k =
     (case map_of axi_limit port of
        None \<Rightarrow> Inr k
      | Some v \<Rightarrow>
          if v AND NOT AXI_LIMIT_FIELDS \<noteq> 0 then Inl (SystemExit ''AXI limit sets reserved bits'')
          else Inr (set_knob field v k))"

definition power_knob :: "int option \<Rightarrow> int list \<Rightarrow> exn + int list" where
  "power_knob power_ctrl k =
     (case power_ctrl of
        None \<Rightarrow> Inr k
      | Some v \<Rightarrow>
          if \<not> (0 \<le> v \<and> v \<le> POWER_CTRL_MASK)
          then Inl (SystemExit ''POWER_CTRL outside the 6-bit mac_step_cycles field'')
          else Inr (set_knob ''power_ctrl'' v k))"

definition fast_knob :: "int option \<Rightarrow> (string \<times> string) list \<Rightarrow> int list \<Rightarrow> exn + int list" where
  "fast_knob fast_base ports k =
     (case fast_base of
        None \<Rightarrow> Inr k
      | Some v \<Rightarrow>
          if v AND 0xFF \<noteq> 0 \<or> \<not> (fst ONCHIP_SRAM \<le> v \<and> v < snd ONCHIP_SRAM)
          then Inl (SystemExit ''fast base: must be 256-aligned inside on-chip SRAM'')
          else if map_of ports ''fast'' \<noteq> Some ''sram''
          then Inl (SystemExit ''--fast-base needs --ports with fast=sram'')
          else Inr (set_knob ''fast_base'' v k))"

definition ta_knob :: "int option \<Rightarrow> int list \<Rightarrow> exn + int list" where
  "ta_knob ta_profile k =
     (case ta_profile of
        None \<Rightarrow> Inr k
      | Some v \<Rightarrow>
          if v \<notin> set (map fst TA_PROFILES) then Inl (SystemExit ''TA profile'')
          else Inr (set_knob ''ta_profile'' v k))"

definition knobs ::
    "string \<Rightarrow> (string \<times> string) list \<Rightarrow> (string \<times> int) list \<Rightarrow> int option \<Rightarrow> int option \<Rightarrow> int option
      \<Rightarrow> exn + int list" where
  "knobs axi ports axi_limit power_ctrl fast_base ta_profile =
     bind_res (axi_knob axi (replicate KNOB_WORDS OFF)) (\<lambda>k.
     bind_res (port_knobs ports k) (\<lambda>k.
     bind_res (limit_knob axi_limit ''sram'' ''axi_sram'' k) (\<lambda>k.
     bind_res (limit_knob axi_limit ''ext'' ''axi_ext'' k) (\<lambda>k.
     bind_res (power_knob power_ctrl k) (\<lambda>k.
     bind_res (fast_knob fast_base ports k) (\<lambda>k.
       ta_knob ta_profile k))))))"

section \<open>Packing\<close>

definition align :: "nat \<Rightarrow> nat \<Rightarrow> nat" where
  "align n a = (n + a - 1) div a * a"

text \<open>\<open>info\<close>: the tensor lists, or the single tensors of the older form. \<open>ifm\<close> and \<open>golden\<close> are one byte
  string or a list of them.\<close>

record pack_info =
  pi_cms :: bytes
  pi_const :: bytes
  pi_arena_size :: int
  pi_fast_size :: int
  pi_inputs :: "(int \<times> int) list"
  pi_outputs :: "(int \<times> int) list"
  pi_ifm :: "(int \<times> int) option"
  pi_ofm :: "(int \<times> int) option"

datatype payload = One bytes | Many "bytes list"

fun payload_list :: "payload \<Rightarrow> bytes list" where
  "payload_list (One b) = [b]"
| "payload_list (Many bs) = bs"

definition tensors :: "(int \<times> int) list \<Rightarrow> (int \<times> int) option \<Rightarrow> exn + (int \<times> int) list" where
  "tensors many one =
     (if many \<noteq> [] then Inr many else case one of None \<Rightarrow> Inl KeyError | Some t \<Rightarrow> Inr [t])"

fun check_tensors :: "int \<Rightarrow> ((int \<times> int) \<times> bytes) list \<Rightarrow> exn + unit" where
  "check_tensors arena [] = Inr ()"
| "check_tensors arena (((off, n), b) # ts) =
     (if int (length b) \<noteq> n then Inl (SystemExit ''IFM/OFM size mismatch'')
      else if off + n > arena then Inl (SystemExit ''tensor outside the arena'')
      else check_tensors arena ts)"

fun data_offsets :: "nat \<Rightarrow> bytes list \<Rightarrow> nat list \<times> nat" where
  "data_offsets off [] = ([], off)"
| "data_offsets off (b # bs) =
     (case data_offsets (align (off + length b) 16) bs of (ds, total_len) \<Rightarrow> (off # ds, total_len))"

text \<open>\<open>blob[off:off + len(b)] = b\<close> for the pieces in turn.\<close>

definition write_all :: "(nat \<times> bytes) list \<Rightarrow> bytes \<Rightarrow> bytes" where
  "write_all ws blob = foldl (\<lambda>bl (off, b). splice bl off b) blob ws"

definition padded_knobs :: "int list \<Rightarrow> int list" where
  "padded_knobs knob_words =
     (if knob_words = [] then replicate KNOB_WORDS OFF else knob_words)
       @ replicate (KNOB_WORDS - length knob_words) OFF"

text \<open>The flags \<open>v4\<close>, \<open>v3\<close>, \<open>v2\<close> and the version they select.\<close>

definition blob_version :: "nat \<Rightarrow> int list \<Rightarrow> int" where
  "blob_version n_tensors kw =
     (let v4 = n_tensors > 2;
          v3 = (v4 \<or> (\<exists>w \<in> set (py_slice V2_KNOBS KNOB_WORDS kw). w \<noteq> OFF));
          v2 = (v3 \<or> (\<exists>w \<in> set (py_slice 0 V2_KNOBS kw). w \<noteq> OFF))
      in if v4 then 4 else if v3 then 3 else if v2 then 2 else 1)"

definition knob_len :: "int \<Rightarrow> nat" where
  "knob_len version = (if version = 4 \<or> version = 3 then 4 * KNOB_WORDS else if version = 2 then 32 else 0)"

type_synonym entry = "int \<times> int \<times> int"

definition io_words :: "nat \<Rightarrow> nat \<Rightarrow> entry list \<Rightarrow> int list" where
  "io_words n_in n_out ents =
     (let table = [int n_in, int n_out] @ concat (map (\<lambda>(a, n, d). [a, n, d]) ents)
      in table @ replicate (IO_WORDS - length table) 0)"

definition header_words :: "pack_info \<Rightarrow> int \<Rightarrow> nat \<Rightarrow> nat \<Rightarrow> entry \<Rightarrow> entry \<Rightarrow> nat \<Rightarrow> int list" where
  "header_words info version cms_off const_off fi fo total_len =
     [MAGIC, version, int cms_off, int (length (pi_cms info)), int const_off, int (length (pi_const info)),
      pi_arena_size info, pi_fast_size info, fst fi, fst (snd fi), snd (snd fi),
      fst fo, fst (snd fo), snd (snd fo), 0xFFFF, int total_len]"

definition stop_ok :: "bytes \<Rightarrow> exn + unit" where
  "stop_ok cms =
     bind_res (struct_unpack [FI] (drop (length cms - 4) cms)) (\<lambda>v.
       if v ! 0 \<noteq> 0xFFFF0000 then Inl (SystemExit ''command stream does not end in NPU_OP_STOP mask 0xFFFF'')
       else Inr ())"

definition pack :: "pack_info \<Rightarrow> payload \<Rightarrow> payload \<Rightarrow> int list \<Rightarrow> exn + bytes" where
  "pack info ifm golden knob_words =
     bind_res (tensors (pi_inputs info) (pi_ifm info)) (\<lambda>ins.
     bind_res (tensors (pi_outputs info) (pi_ofm info)) (\<lambda>outs.
     let ifms = payload_list ifm; golds = payload_list golden in
     if length ifms \<noteq> length ins \<or> length golds \<noteq> length outs then Inl (SystemExit ''IFM/OFM count mismatch'')
     else if length ins + length outs > IO_MAX then Inl (SystemExit ''too many IFMs and OFMs'')
     else bind_res (check_tensors (pi_arena_size info) (zip (ins @ outs) (ifms @ golds))) (\<lambda>_.
     let kw = padded_knobs knob_words;
         version = blob_version (length ins + length outs) kw;
         knob_bytes = knob_len version;
         cms_off = 4 * HEADER_WORDS + knob_bytes + (if version = 4 then 4 * IO_WORDS else 0);
         const_off = align (cms_off + length (pi_cms info)) 16;
         dt = data_offsets (align (const_off + length (pi_const info)) 16) (ifms @ golds);
         data_offs = fst dt; total_len = snd dt;
         ents = map (\<lambda>((a, n), d). (a, n, int d)) (zip (ins @ outs) data_offs);
         fi = ents ! 0; fo = ents ! length ins
     in
     bind_res (struct_pack (replicate HEADER_WORDS FI)
       (header_words info version cms_off const_off fi fo total_len)) (\<lambda>hdr.
     bind_res (if knob_bytes \<noteq> 0 then struct_pack (replicate (knob_bytes div 4) FI) (take (knob_bytes div 4) kw)
               else Inr []) (\<lambda>kb.
     bind_res (if version = 4 then struct_pack (replicate IO_WORDS FI) (io_words (length ins) (length outs) ents)
               else Inr []) (\<lambda>tb.
     let blob = splice (replicate total_len 0) 0 hdr;
         blob = (if knob_bytes \<noteq> 0 then splice blob (4 * HEADER_WORDS) kb else blob);
         blob = (if version = 4 then splice blob (4 * IO_WORD) tb else blob);
         blob = write_all ([(cms_off, pi_cms info), (const_off, pi_const info)] @ zip data_offs (ifms @ golds)) blob
     in bind_res (stop_ok (pi_cms info)) (\<lambda>_. Inr blob)))))))"

section \<open>Parsing\<close>

text \<open>The dictionary \<open>parse_header\<close> returns: the sixteen header words, the knobs and the tensor entries
  (arena offset, length, data offset).\<close>

record pmwl_header =
  ph_words :: "int list"
  ph_knobs :: "int list"
  ph_inputs :: "(int \<times> int \<times> int) list"
  ph_outputs :: "(int \<times> int \<times> int) list"

definition ph_field :: "string \<Rightarrow> pmwl_header \<Rightarrow> int" where
  "ph_field name h = ph_words h ! name_index name HEADER_FIELDS"

definition knob_count :: "int \<Rightarrow> nat option" where
  "knob_count version = map_of [(1, 0), (2, 8), (3, KNOB_WORDS), (4, KNOB_WORDS)] version"

definition io_table :: "bytes \<Rightarrow> int \<times> int \<times> int \<Rightarrow> int \<times> int \<times> int \<Rightarrow> exn + nat \<times> (int \<times> int \<times> int) list" where
  "io_table blob first_in first_out =
     bind_res (struct_unpack_from (replicate IO_WORDS FI) blob (4 * IO_WORD)) (\<lambda>t.
       let n_in = t ! 0; n_out = t ! 1 in
       if n_in < 1 \<or> n_out < 1 \<or> n_in + n_out > int IO_MAX then Inl (ValueError ''IO table'')
       else
         let ents = map (\<lambda>i. (t ! (2 + 3 * i), t ! (3 + 3 * i), t ! (4 + 3 * i))) [0..<nat (n_in + n_out)] in
         if ents ! 0 \<noteq> first_in \<or> ents ! nat n_in \<noteq> first_out
         then Inl (ValueError ''IO table entry 0 differs'')
         else Inr (nat n_in, ents))"

definition parse_header :: "bytes \<Rightarrow> exn + pmwl_header" where
  "parse_header blob =
     (if length blob < 4 * HEADER_WORDS then Inl (ValueError ''blob shorter than the PMWL header'')
      else bind_res (struct_unpack_from (replicate HEADER_WORDS FI) blob 0) (\<lambda>w.
        let version = w ! 1 in
        if w ! 0 \<noteq> MAGIC then Inl (ValueError ''not a PMWL blob'')
        else case knob_count version of None \<Rightarrow> Inl (ValueError ''unknown PMWL version'')
        | Some n \<Rightarrow>
          bind_res (struct_unpack_from (replicate n FI) blob (4 * HEADER_WORDS)) (\<lambda>kw.
          let k = kw @ replicate (KNOB_WORDS - n) OFF;
              k = (if version = 2 then k[V2_KNOBS := OFF] else k);
              first_in = (w ! 8, w ! 9, w ! 10);
              first_out = (w ! 11, w ! 12, w ! 13)
          in bind_res (if version = 4 then io_table blob first_in first_out
                       else Inr (1, [first_in, first_out])) (\<lambda>(n_in, ents).
            if \<exists>(a, ln, d) \<in> set ents. a + ln > w ! 6 \<or> d + ln > w ! 15
            then Inl (ValueError ''IO entry outside the arena or the blob'')
            else Inr \<lparr>ph_words = w, ph_knobs = k, ph_inputs = take n_in ents, ph_outputs = drop n_in ents\<rparr>))))"

section \<open>Pieces of a blob\<close>

lemma align_ge: "n \<le> align n 16"
  by (simp add: align_def)

lemma align_dvd [simp]: "16 dvd align n 16"
  by (simp add: align_def)

text \<open>\<open>layout lo hi ws\<close>: the pieces \<open>ws\<close> follow each other without overlap between \<open>lo\<close> and \<open>hi\<close>.\<close>

fun layout :: "nat \<Rightarrow> nat \<Rightarrow> (nat \<times> bytes) list \<Rightarrow> bool" where
  "layout lo hi [] \<longleftrightarrow> lo \<le> hi"
| "layout lo hi ((off, b) # ws) \<longleftrightarrow> lo \<le> off \<and> layout (off + length b) hi ws"

lemma layout_le: "layout lo hi ws \<Longrightarrow> lo \<le> hi"
  by (induction lo hi ws rule: layout.induct) auto

lemma layout_mono: "layout lo hi ws \<Longrightarrow> lo' \<le> lo \<Longrightarrow> layout lo' hi ws"
  by (cases ws) auto

lemma data_offsets_layout:
  "data_offsets off bs = (ds, t) \<Longrightarrow>
    layout off t (zip ds bs) \<and> length ds = length bs \<and> (16 dvd off \<longrightarrow> 16 dvd t \<and> (\<forall>d\<in>set ds. 16 dvd d))"
proof (induction bs arbitrary: off ds t)
  case Nil
  then show ?case by simp
next
  case (Cons b bs)
  then obtain ds' where d: "data_offsets (align (off + length b) 16) bs = (ds', t)" "ds = off # ds'"
    by (auto split: prod.splits)
  from Cons.IH [OF d(1)] d(2) layout_mono [OF _ align_ge] show ?case by auto
qed

lemma write_all_simps [simp]:
  "write_all [] bl = bl"
  "write_all ((off, b) # ws) bl = write_all ws (splice bl off b)"
  by (simp_all add: write_all_def)

lemma py_slice_take: "b \<le> n \<Longrightarrow> py_slice a b (take n xs) = py_slice a b xs"
  by (simp add: py_slice_def drop_take)

lemma take_splice: "lo \<le> off \<Longrightarrow> off \<le> length bl \<Longrightarrow> take lo (splice bl off b) = take lo bl"
  by (simp add: splice_def)

lemma slice_splice: "off + length b \<le> length bl \<Longrightarrow> py_slice off (off + length b) (splice bl off b) = b"
  by (simp add: splice_def py_slice_def)

lemma write_all_layout:
  "layout lo hi ws \<Longrightarrow> hi \<le> length bl \<Longrightarrow>
    length (write_all ws bl) = length bl \<and> take lo (write_all ws bl) = take lo bl
    \<and> (\<forall>(off, b) \<in> set ws. py_slice off (off + length b) (write_all ws bl) = b \<and> off + length b \<le> hi)"
proof (induction lo hi ws arbitrary: bl rule: layout.induct)
  case (1 lo hi)
  then show ?case by simp
next
  case (2 lo hi off b ws)
  have le: "off + length b \<le> hi" using 2 layout_le by auto
  with 2 have len: "length (splice bl off b) = length bl" by simp
  from 2 have IH: "length (write_all ws (splice bl off b)) = length bl"
    "take (off + length b) (write_all ws (splice bl off b)) = take (off + length b) (splice bl off b)"
    "\<forall>(off', b') \<in> set ws. py_slice off' (off' + length b') (write_all ws (splice bl off b)) = b' \<and> off' + length b' \<le> hi"
    using len by simp_all
  let ?r = "write_all ws (splice bl off b)"
  have "py_slice off (off + length b) ?r = py_slice off (off + length b) (take (off + length b) ?r)"
    by (simp add: py_slice_take)
  also have "\<dots> = py_slice off (off + length b) (splice bl off b)"
    by (simp only: IH(2) py_slice_take [OF order_refl])
  also have "\<dots> = b" using le "2.prems"(2) by (intro slice_splice) simp
  finally have mid: "py_slice off (off + length b) ?r = b" .
  have lo: "lo \<le> off" using "2.prems"(1) by simp
  have "take lo ?r = take lo (take (off + length b) ?r)" using lo by (simp add: min_def)
  also have "\<dots> = take lo (splice bl off b)" unfolding IH(2) using lo by (simp add: min_def)
  also have "\<dots> = take lo bl" using lo le "2.prems"(2) by (intro take_splice) simp_all
  finally have "take lo ?r = take lo bl" .
  with mid IH le show ?case by simp
qed

lemma unpack_words_at:
  assumes "py_slice off (off + 4 * length ws) blob = enc_words ws" "words_ok ws" "off + 4 * length ws \<le> length blob"
  shows "struct_unpack_from (replicate (length ws) FI) blob off = Inr ws"
proof -
  have "dec_words (length ws) (drop off blob) = dec_words (length ws) (take (4 * length ws) (drop off blob))"
    by (simp add: unpack_fields_take)
  also have "take (4 * length ws) (drop off blob) = enc_words ws" using assms(1) by (simp add: py_slice_def)
  also have "dec_words (length ws) (enc_words ws) = ws" using dec_enc_words [OF assms(2) refl, of "[]"] by simp
  finally show ?thesis using assms(3) by (simp add: struct_unpack_from_def)
qed

section \<open>What a packed blob holds\<close>

definition full_knobs :: "int list \<Rightarrow> int list" where
  "full_knobs knob_words = take 16 (knob_words @ replicate 16 OFF)"

lemma full_knobs_padded: "take 16 (padded_knobs kws) = full_knobs kws"
  by (auto simp: padded_knobs_def full_knobs_def layout_defs min_def not_le)

lemma length_full_knobs [simp]: "length (full_knobs kws) = 16"
  by (simp add: full_knobs_def)

lemma blob_version_full:
  "blob_version n (padded_knobs kws) =
    (if 2 < n then 4 else if \<exists>w \<in> set (drop 7 (full_knobs kws)). w \<noteq> OFF then 3
     else if \<exists>w \<in> set (take 7 (full_knobs kws)). w \<noteq> OFF then 2 else 1)"
proof -
  have "py_slice 7 16 (padded_knobs kws) = drop 7 (full_knobs kws)"
    "py_slice 0 7 (padded_knobs kws) = take 7 (full_knobs kws)"
    by (simp_all add: py_slice_def drop_take min_def flip: full_knobs_padded)
  then show ?thesis by (simp add: blob_version_def layout_defs)
qed

lemma splice_Nil [simp]: "splice xs off [] = xs"
  by (simp add: splice_def)

text \<open>The plan of a blob: what \<open>pack\<close> computes before it writes, and the bytes it writes.\<close>

definition blob_plan ::
    "pack_info \<Rightarrow> (int \<times> int) list \<Rightarrow> (int \<times> int) list \<Rightarrow> bytes list \<Rightarrow> int list \<Rightarrow>
      int \<times> nat \<times> nat \<times> nat \<times> nat list \<times> nat \<times> entry list" where
  "blob_plan info ins outs datas kws =
     (let version = blob_version (length ins + length outs) (padded_knobs kws);
          knob_bytes = knob_len version;
          cms_off = 4 * HEADER_WORDS + knob_bytes + (if version = 4 then 4 * IO_WORDS else 0);
          const_off = align (cms_off + length (pi_cms info)) 16;
          dt = data_offsets (align (const_off + length (pi_const info)) 16) datas;
          ents = map (\<lambda>((a, n), d). (a, n, int d)) (zip (ins @ outs) (fst dt))
      in (version, knob_bytes, cms_off, const_off, fst dt, snd dt, ents))"

definition plan_words ::
    "pack_info \<Rightarrow> nat \<Rightarrow> nat \<Rightarrow> int \<times> nat \<times> nat \<times> nat \<times> nat list \<times> nat \<times> entry list \<Rightarrow> int list \<times> int list" where
  "plan_words info n_in n_out = (\<lambda>(version, knob_bytes, cms_off, const_off, ds, t, ents).
     (header_words info version cms_off const_off (ents ! 0) (ents ! n_in) t,
      if version = 4 then io_words n_in n_out ents else []))"

lemma pack_unfold:
  assumes "tensors (pi_inputs info) (pi_ifm info) = Inr ins" "tensors (pi_outputs info) (pi_ofm info) = Inr outs"
    and "datas = payload_list ifm @ payload_list golden"
    and "blob_plan info ins outs datas kws = (version, kb, cms_off, const_off, ds, t, ents)"
  shows "pack info ifm golden kws =
    (if length (payload_list ifm) \<noteq> length ins \<or> length (payload_list golden) \<noteq> length outs
     then Inl (SystemExit ''IFM/OFM count mismatch'')
     else if length ins + length outs > IO_MAX then Inl (SystemExit ''too many IFMs and OFMs'')
     else bind_res (check_tensors (pi_arena_size info) (zip (ins @ outs) datas)) (\<lambda>_.
       bind_res (struct_pack (replicate HEADER_WORDS FI)
         (header_words info version cms_off const_off (ents ! 0) (ents ! length ins) t)) (\<lambda>hdr.
       bind_res (if kb \<noteq> 0 then struct_pack (replicate (kb div 4) FI) (take (kb div 4) (padded_knobs kws))
               else Inr []) (\<lambda>kby.
       bind_res (if version = 4 then struct_pack (replicate IO_WORDS FI) (io_words (length ins) (length outs) ents)
               else Inr []) (\<lambda>tby.
       bind_res (stop_ok (pi_cms info)) (\<lambda>_.
         Inr (write_all ([(cms_off, pi_cms info), (const_off, pi_const info)] @ zip ds datas)
           (let b = splice (replicate t 0) 0 hdr; b = if kb \<noteq> 0 then splice b (4 * HEADER_WORDS) kby else b
            in if version = 4 then splice b (4 * IO_WORD) tby else b))))))))"
proof -
  have pl: "version = blob_version (length ins + length outs) (padded_knobs kws)" "kb = knob_len version"
    "cms_off = 4 * HEADER_WORDS + kb + (if version = 4 then 4 * IO_WORDS else 0)"
    "const_off = align (cms_off + length (pi_cms info)) 16"
    "ds = fst (data_offsets (align (const_off + length (pi_const info)) 16) datas)"
    "t = snd (data_offsets (align (const_off + length (pi_const info)) 16) datas)"
    "ents = map (\<lambda>((a, n), d). (a, n, int d)) (zip (ins @ outs) ds)"
    using assms(4) by (auto simp: blob_plan_def Let_def)
  show ?thesis
    unfolding pack_def assms(1-3) bind_res_simps Let_def pl(7) pl(6) pl(5) pl(4) pl(3) pl(2) pl(1) ..
qed

lemma knob_len_cases: "knob_len v = 4 * (knob_len v div 4)" "knob_len v div 4 \<le> 16"
  by (simp_all add: knob_len_def layout_defs)

lemma pack_plan:
  assumes "pack info ifm golden kws = Inr blob"
  obtains ins outs version n cms_off const_off ds t ents hw tw datas where
    "tensors (pi_inputs info) (pi_ifm info) = Inr ins" "tensors (pi_outputs info) (pi_ofm info) = Inr outs"
    "length (payload_list ifm) = length ins" "length (payload_list golden) = length outs"
    "length ins + length outs \<le> 10" "datas = payload_list ifm @ payload_list golden"
    "check_tensors (pi_arena_size info) (zip (ins @ outs) datas) = Inr ()"
    "blob_plan info ins outs datas kws = (version, 4 * n, cms_off, const_off, ds, t, ents)" "n \<le> 16"
    "hw = header_words info version cms_off const_off (ents ! 0) (ents ! length ins) t" "words_ok hw"
    "words_ok (take n (full_knobs kws))"
    "tw = (if version = 4 then io_words (length ins) (length outs) ents else [])" "words_ok tw"
    "version = 4 \<longrightarrow> length tw = 32"
    "blob = write_all ([(0, enc_words hw), (64, enc_words (take n (full_knobs kws))), (64 + 4 * n, enc_words tw),
        (cms_off, pi_cms info), (const_off, pi_const info)] @ zip ds datas) (replicate t 0)"
proof -
  from assms obtain ins where ins: "tensors (pi_inputs info) (pi_ifm info) = Inr ins"
    by (auto simp: pack_def)
  from assms obtain outs where outs: "tensors (pi_outputs info) (pi_ofm info) = Inr outs"
    by (auto simp: pack_def)
  define datas where "datas = payload_list ifm @ payload_list golden"
  obtain version kb cms_off const_off ds t ents where
    plan: "blob_plan info ins outs datas kws = (version, kb, cms_off, const_off, ds, t, ents)"
    by (metis prod_cases7)
  define n where "n = kb div 4"
  have v: "kb = knob_len version" using plan by (auto simp: blob_plan_def Let_def)
  then have n: "kb = 4 * n" "n \<le> 16" using knob_len_cases [of version] by (simp_all add: n_def)
  have v4: "4 * n = 64" if "version = 4" using that v n by (simp add: knob_len_def layout_defs)
  let ?hw = "header_words info version cms_off const_off (ents ! 0) (ents ! length ins) t"
  let ?kw = "take n (full_knobs kws)"
  let ?tw = "if version = 4 then io_words (length ins) (length outs) ents else []"
  have tk: "take n (padded_knobs kws) = ?kw"
    using n(2) by (simp add: min_def flip: full_knobs_padded)
  note body = assms [unfolded pack_unfold [OF ins outs datas_def plan]]
  from body have g: "length (payload_list ifm) = length ins" "length (payload_list golden) = length outs"
    "length ins + length outs \<le> 10" "check_tensors (pi_arena_size info) (zip (ins @ outs) datas) = Inr ()"
    by (simp_all add: layout_defs split: if_splits)
  from body g obtain hdr kby tby where
    h: "struct_pack (replicate HEADER_WORDS FI) ?hw = Inr hdr" and
    k: "(if kb \<noteq> 0 then struct_pack (replicate (kb div 4) FI) (take (kb div 4) (padded_knobs kws)) else Inr []) = Inr kby" and
    tb: "(if version = 4 then struct_pack (replicate IO_WORDS FI) (io_words (length ins) (length outs) ents) else Inr []) = Inr tby" and
    blob: "blob = write_all ([(cms_off, pi_cms info), (const_off, pi_const info)] @ zip ds datas)
       (let b = splice (replicate t 0) 0 hdr; b = if kb \<noteq> 0 then splice b (4 * HEADER_WORDS) kby else b
        in if version = 4 then splice b (4 * IO_WORD) tby else b)"
    by (auto simp: layout_defs(5))
  note k = k [folded n_def, unfolded tk]
  have h': "words_ok ?hw" "hdr = enc_words ?hw" using h by (simp_all only: struct_pack_words_iff)
  have k': "words_ok ?kw" "kby = enc_words ?kw"
    using k n(1) by (auto simp: struct_pack_words_iff split: if_splits)
  have t': "words_ok ?tw" "tby = enc_words ?tw" "version = 4 \<longrightarrow> length ?tw = 32"
    using tb by (auto simp: struct_pack_words_iff layout_defs split: if_splits)
  have "blob = write_all ([(0, enc_words ?hw), (64, enc_words ?kw), (64 + 4 * n, enc_words ?tw),
        (cms_off, pi_cms info), (const_off, pi_const info)] @ zip ds datas) (replicate t 0)"
    using blob h'(2) k'(2) t'(2) n(1) v4 by (auto simp: Let_def layout_defs)
  with that [OF ins outs g(1-3) datas_def g(4) plan [unfolded n(1)] n(2) refl h'(1) k'(1) refl t'(1,3)]
  show ?thesis by blast
qed

lemma plan_layout:
  assumes "blob_plan info ins outs datas kws = (version, 4 * n, cms_off, const_off, ds, t, ents)"
    and "length hw = 16" "length kw = n" "length tw = (if version = 4 then 32 else 0)"
  shows "layout 0 t ([(0, enc_words hw), (64, enc_words kw), (64 + 4 * n, enc_words tw),
        (cms_off, pi_cms info), (const_off, pi_const info)] @ zip ds datas)"
    "length ds = length datas" "16 dvd t" "\<forall>d\<in>set (cms_off # const_off # ds). 16 dvd d"
    "ents = map (\<lambda>((a, n), d). (a, n, int d)) (zip (ins @ outs) ds)"
    "version = blob_version (length ins + length outs) (padded_knobs kws)" "4 * n = knob_len version"
proof -
  from assms(1) have p: "version = blob_version (length ins + length outs) (padded_knobs kws)" "4 * n = knob_len version"
    "cms_off = 64 + 4 * n + (if version = 4 then 128 else 0)"
    "const_off = align (cms_off + length (pi_cms info)) 16"
    "data_offsets (align (const_off + length (pi_const info)) 16) datas = (ds, t)"
    "ents = map (\<lambda>((a, n), d). (a, n, int d)) (zip (ins @ outs) ds)"
    by (auto simp: blob_plan_def Let_def layout_defs)
  note d = data_offsets_layout [OF p(5)]
  have "layout (const_off + length (pi_const info)) t (zip ds datas)"
    using d layout_mono align_ge by blast
  moreover have "cms_off + length (pi_cms info) \<le> const_off" using align_ge p(4) by simp
  ultimately show "layout 0 t ([(0, enc_words hw), (64, enc_words kw), (64 + 4 * n, enc_words tw),
        (cms_off, pi_cms info), (const_off, pi_const info)] @ zip ds datas)"
    using assms(2-4) p(3) by simp
  have "16 dvd cms_off" using p(2,3) by (auto simp: knob_len_def layout_defs)
  then show "\<forall>d\<in>set (cms_off # const_off # ds). 16 dvd d" using d p(4) by simp
  show "length ds = length datas" "16 dvd t" using d by simp_all
  show "ents = map (\<lambda>((a, n), d). (a, n, int d)) (zip (ins @ outs) ds)"
    "version = blob_version (length ins + length outs) (padded_knobs kws)" "4 * n = knob_len version"
    using p by simp_all
qed

lemma check_tensors_iff:
  "check_tensors arena ts = Inr () \<longleftrightarrow> (\<forall>((off, n), b) \<in> set ts. int (length b) = n \<and> off + n \<le> arena)"
  by (induction arena ts rule: check_tensors.induct) auto

lemma concat_triples:
  "i < length es \<Longrightarrow> j < 3 \<Longrightarrow>
    concat (map (\<lambda>(a, n, d). [a, n, d]) es) ! (3 * i + j) = [fst (es ! i), fst (snd (es ! i)), snd (snd (es ! i))] ! j"
proof (induction es arbitrary: i)
  case Nil
  then show ?case by simp
next
  case (Cons e es)
  obtain a n d where e: "e = (a, n, d)" by (cases e)
  show ?case
  proof (cases i)
    case 0
    then show ?thesis using Cons.prems(2) e by (auto simp: nth_Cons split: nat.split)
  next
    case (Suc k)
    have "(e # es) ! i = es ! k" "3 * i + j = Suc (Suc (Suc (3 * k + j)))" using Suc by simp_all
    then show ?thesis using Cons.IH [of k] Cons.prems Suc e by (simp only:) simp
  qed
qed

lemma length_concat_triples [simp]: "length (concat (map (\<lambda>(a, n, d). [a, n, d]) es)) = 3 * length es"
  by (induction es) auto

lemma io_words_nth:
  assumes "length es = n_in + n_out" "n_in + n_out \<le> 10"
  shows "length (io_words n_in n_out es) = 32" "io_words n_in n_out es ! 0 = int n_in"
    "io_words n_in n_out es ! 1 = int n_out"
    "map (\<lambda>i. (io_words n_in n_out es ! (2 + 3 * i), io_words n_in n_out es ! (3 + 3 * i),
        io_words n_in n_out es ! (4 + 3 * i))) [0..<n_in + n_out] = es"
proof -
  let ?c = "concat (map (\<lambda>(a, n, d). [a, n, d]) es)"
  have w: "io_words n_in n_out es = int n_in # int n_out # (?c @ replicate (30 - 3 * length es) 0)"
    using assms by (simp add: io_words_def Let_def layout_defs)
  then show "length (io_words n_in n_out es) = 32" "io_words n_in n_out es ! 0 = int n_in"
    "io_words n_in n_out es ! 1 = int n_out"
    using assms by simp_all
  have "io_words n_in n_out es ! (2 + (3 * i + j)) = [fst (es ! i), fst (snd (es ! i)), snd (snd (es ! i))] ! j"
    if "i < length es" "j < 3" for i j
    using concat_triples [OF that] that by (simp add: w nth_append)
  note at = this
  have "io_words n_in n_out es ! (2 + 3 * i) = fst (es ! i)"
    "io_words n_in n_out es ! (3 + 3 * i) = fst (snd (es ! i))"
    "io_words n_in n_out es ! (4 + 3 * i) = snd (snd (es ! i))" if "i < length es" for i
  proof -
    have "2 + (3 * i + 0) = 2 + 3 * i" "2 + (3 * i + 1) = 3 + 3 * i" "2 + (3 * i + 2) = 4 + 3 * i" by simp_all
    with at [OF that, of 0] at [OF that, of 1] at [OF that, of 2]
    show "io_words n_in n_out es ! (2 + 3 * i) = fst (es ! i)"
      "io_words n_in n_out es ! (3 + 3 * i) = fst (snd (es ! i))"
      "io_words n_in n_out es ! (4 + 3 * i) = snd (snd (es ! i))" by (simp_all only:) simp_all
  qed
  then show "map (\<lambda>i. (io_words n_in n_out es ! (2 + 3 * i), io_words n_in n_out es ! (3 + 3 * i),
        io_words n_in n_out es ! (4 + 3 * i))) [0..<n_in + n_out] = es"
    using assms(1) by (intro nth_equalityI) simp_all
qed

text \<open>The knobs that come back are the ones that were given: the words a version does not carry are \<open>OFF\<close>.\<close>

lemma knobs_back:
  assumes "version = blob_version k (padded_knobs kws)" "4 * n = knob_len version"
  shows "knob_count version = Some n"
    "(let kk = take n (full_knobs kws) @ replicate (KNOB_WORDS - n) OFF
      in if version = 2 then kk[V2_KNOBS := OFF] else kk) = full_knobs kws"
proof -
  let ?f = "full_knobs kws"
  show "knob_count version = Some n"
    using assms by (auto simp: blob_version_full knob_len_def knob_count_def layout_defs split: if_splits)
  have len: "length ?f = 16" by simp
  have off: "xs = replicate (length xs) OFF" if "\<forall>w\<in>set xs. w = OFF" for xs
    using that by (simp add: replicate_eqI)
  consider (one) "version = 1" "n = 0" "\<forall>w\<in>set (take 7 ?f). w = OFF" "\<forall>w\<in>set (drop 7 ?f). w = OFF"
    | (two) "version = 2" "n = 8" "\<forall>w\<in>set (drop 7 ?f). w = OFF" | (big) "n = 16" "version \<noteq> 2"
    using assms by (auto simp: blob_version_full knob_len_def layout_defs split: if_splits)
  then show "(let kk = take n ?f @ replicate (KNOB_WORDS - n) OFF
      in if version = 2 then kk[V2_KNOBS := OFF] else kk) = ?f"
  proof cases
    case one
    have "\<forall>w\<in>set (take 7 ?f @ drop 7 ?f). w = OFF" using one by (simp only: set_append) blast
    then have "\<forall>w\<in>set ?f. w = OFF" by simp
    from off [OF this] one len show ?thesis by (simp add: KNOB_WORDS_def)
  next
    case two
    have nth: "?f ! i = OFF" if "7 \<le> i" "i < 16" for i
      using two(3) that nth_mem [of "i - 7" "drop 7 ?f"] by simp
    have "take 8 ?f @ replicate 8 OFF = ?f"
    proof (rule nth_equalityI)
      fix i assume "i < length (take 8 ?f @ replicate 8 OFF)"
      then show "(take 8 ?f @ replicate 8 OFF) ! i = ?f ! i"
        using nth by (cases "i < 8") (simp_all add: nth_append)
    qed simp
    with two nth [of 7] show ?thesis
      by (simp add: layout_defs Let_def) (metis list_update_id)
  next
    case big
    then show ?thesis by (simp add: KNOB_WORDS_def)
  qed
qed

lemma header_words_nth [simp]:
  "length (header_words info version cms_off const_off fi fo t) = 16"
  "header_words info version cms_off const_off fi fo t ! 0 = MAGIC"
  "header_words info version cms_off const_off fi fo t ! 1 = version"
  "header_words info version cms_off const_off fi fo t ! Suc 0 = version"
  "header_words info version cms_off const_off fi fo t ! 6 = pi_arena_size info"
  "header_words info version cms_off const_off fi fo t ! 15 = int t"
  "(header_words info version cms_off const_off fi fo t ! 8, header_words info version cms_off const_off fi fo t ! 9,
    header_words info version cms_off const_off fi fo t ! 10) = fi"
  "(header_words info version cms_off const_off fi fo t ! 11, header_words info version cms_off const_off fi fo t ! 12,
    header_words info version cms_off const_off fi fo t ! 13) = fo"
  by (simp_all add: header_words_def)

text \<open>The parser on a blob whose pieces stand at their places.\<close>

lemma parse_header_words:
  assumes "struct_unpack_from (replicate 16 FI) blob 0 = Inr hw" "64 \<le> length blob"
    and "hw = header_words info version cms_off const_off (ents ! 0) (ents ! n_in) t"
    and "version = blob_version (n_in + n_out) (padded_knobs kws)" "4 * n = knob_len version"
    and "struct_unpack_from (replicate n FI) blob 64 = Inr (take n (full_knobs kws))"
    and "version = 4 \<Longrightarrow> struct_unpack_from (replicate 32 FI) blob 128 = Inr (io_words n_in n_out ents)"
    and "length ents = n_in + n_out" "n_in + n_out \<le> 10" "0 < n_in" "0 < n_out"
    and "\<forall>(a, ln, d) \<in> set ents. a + ln \<le> pi_arena_size info \<and> d + ln \<le> int t"
  shows "parse_header blob = Inr \<lparr>ph_words = hw, ph_knobs = full_knobs kws,
      ph_inputs = take n_in ents, ph_outputs = drop n_in ents\<rparr>"
proof -
  note kb = knobs_back [OF assms(4,5)]
  have io: "(if version = 4 then io_table blob (ents ! 0) (ents ! n_in) else Inr (1, [ents ! 0, ents ! n_in]))
      = Inr (n_in, ents)"
  proof (cases "version = 4")
    case True
    note nth = io_words_nth [OF assms(8,9)]
    have nn: "nat (int n_in + int n_out) = n_in + n_out" by simp
    show ?thesis using True assms(7,9-11) nth
      by (simp add: io_table_def layout_defs Let_def nn)
  next
    case False
    then have "n_in = 1" "n_out = 1"
      using assms(4,10,11) by (auto simp: blob_version_full split: if_splits)
    then show ?thesis using False assms(8) by (cases ents; cases "tl ents") auto
  qed
  have ok: "\<not> (\<exists>(a, ln, d) \<in> set ents. a + ln > pi_arena_size info \<or> d + ln > int t)"
    using assms(12) by fastforce
  show ?thesis
    unfolding parse_header_def
    using assms(1-3,6) kb(1) io ok
    by (simp add: layout_defs(1) Let_def assms(3) kb(2) [unfolded Let_def])
qed

lemma tensors_nonempty: "tensors many one = Inr ts \<Longrightarrow> ts \<noteq> []"
  by (auto simp: tensors_def split: if_splits option.splits)

lemma pack_parse:
  assumes "pack info ifm golden kws = Inr blob"
  obtains ins outs hw ents version cms_off const_off where
    "tensors (pi_inputs info) (pi_ifm info) = Inr ins" "tensors (pi_outputs info) (pi_ofm info) = Inr outs"
    "length (payload_list ifm) = length ins" "length (payload_list golden) = length outs"
    "parse_header blob = Inr \<lparr>ph_words = hw, ph_knobs = full_knobs kws,
       ph_inputs = take (length ins) ents, ph_outputs = drop (length ins) ents\<rparr>"
    "hw = header_words info version cms_off const_off (ents ! 0) (ents ! length ins) (length blob)"
    "version = blob_version (length ins + length outs) (padded_knobs kws)"
    "16 dvd length blob" "16 dvd cms_off" "16 dvd const_off"
    "py_slice cms_off (cms_off + length (pi_cms info)) blob = pi_cms info"
    "py_slice const_off (const_off + length (pi_const info)) blob = pi_const info"
    "map (\<lambda>(a, ln, d). (a, ln)) ents = ins @ outs"
    "map (\<lambda>(a, ln, d). py_slice (nat d) (nat (d + ln)) blob) ents = payload_list ifm @ payload_list golden"
    "\<forall>e \<in> set ents. 16 dvd snd (snd e)"
proof -
  from assms obtain ins outs version n cms_off const_off ds t ents hw tw datas where
    ts: "tensors (pi_inputs info) (pi_ifm info) = Inr ins" "tensors (pi_outputs info) (pi_ofm info) = Inr outs"
      "length (payload_list ifm) = length ins" "length (payload_list golden) = length outs"
      "length ins + length outs \<le> 10" and datas: "datas = payload_list ifm @ payload_list golden"
    and check: "check_tensors (pi_arena_size info) (zip (ins @ outs) datas) = Inr ()"
    and plan: "blob_plan info ins outs datas kws = (version, 4 * n, cms_off, const_off, ds, t, ents)" "n \<le> 16"
    and hw: "hw = header_words info version cms_off const_off (ents ! 0) (ents ! length ins) t" "words_ok hw"
    and kw: "words_ok (take n (full_knobs kws))"
    and tw: "tw = (if version = 4 then io_words (length ins) (length outs) ents else [])" "words_ok tw"
      "version = 4 \<longrightarrow> length tw = 32"
    and blob: "blob = write_all ([(0, enc_words hw), (64, enc_words (take n (full_knobs kws))), (64 + 4 * n, enc_words tw),
        (cms_off, pi_cms info), (const_off, pi_const info)] @ zip ds datas) (replicate t 0)"
    by (rule pack_plan)
  let ?W = "[(0, enc_words hw), (64, enc_words (take n (full_knobs kws))), (64 + 4 * n, enc_words tw),
        (cms_off, pi_cms info), (const_off, pi_const info)] @ zip ds datas"
  have "length hw = 16" "length (take n (full_knobs kws)) = n" "length tw = (if version = 4 then 32 else 0)"
    using hw(1) plan(2) tw(1,3) by simp_all
  note lay = plan_layout [OF plan(1) this]
  have "t \<le> length (replicate t (0 :: byte))" by simp
  note wa = write_all_layout [OF lay(1) this, folded blob]
  have len: "length blob = t" using wa by simp
  have at: "py_slice off (off + length b) blob = b \<and> off + length b \<le> t" if "(off, b) \<in> set ?W" for off b
    using wa that by blast
  have lens: "length datas = length ins + length outs" "length ds = length ins + length outs"
    "length ents = length ins + length outs"
    using ts(3,4) datas lay(2,5) by simp_all
  have nth: "ents ! i = (fst ((ins @ outs) ! i), snd ((ins @ outs) ! i), int (ds ! i))
      \<and> snd ((ins @ outs) ! i) = int (length (datas ! i))
      \<and> fst ((ins @ outs) ! i) + snd ((ins @ outs) ! i) \<le> pi_arena_size info
      \<and> py_slice (ds ! i) (ds ! i + length (datas ! i)) blob = datas ! i
      \<and> ds ! i + length (datas ! i) \<le> t" if "i < length ins + length outs" for i
  proof -
    obtain a l where al: "(ins @ outs) ! i = (a, l)" by fastforce
    have "((a, l), datas ! i) \<in> set (zip (ins @ outs) datas)" "(ds ! i, datas ! i) \<in> set (zip ds datas)"
      using that lens al by (auto simp: in_set_zip intro!: exI [of _ i])
    moreover have "ents ! i = (a, l, int (ds ! i))"
      using that lens al by (simp add: lay(5) nth_append)
    ultimately show ?thesis using check al at [of "ds ! i" "datas ! i"]
      by (auto simp: check_tensors_iff)
  qed
  have hs: "struct_unpack_from (replicate 16 FI) blob 0 = Inr hw" "64 \<le> length blob"
    using unpack_words_at [of 0 hw blob] at [of 0 "enc_words hw"] hw len by simp_all
  have ks: "struct_unpack_from (replicate n FI) blob 64 = Inr (take n (full_knobs kws))"
    using unpack_words_at [of 64 "take n (full_knobs kws)" blob] at [of 64 "enc_words (take n (full_knobs kws))"]
      kw len plan(2) by simp
  have tab: "struct_unpack_from (replicate 32 FI) blob 128 = Inr (io_words (length ins) (length outs) ents)"
    if "version = 4"
  proof -
    have "4 * n = 64" using lay(7) that by (simp add: knob_len_def layout_defs)
    then show ?thesis using unpack_words_at [of 128 tw blob] at [of 128 "enc_words tw"] tw that len by simp
  qed
  have bounds: "\<forall>(a, ln, d) \<in> set ents. a + ln \<le> pi_arena_size info \<and> d + ln \<le> int t"
    using nth lens(3) by (auto simp: in_set_conv_nth) force+
  have ne: "0 < length ins" "0 < length outs"
    using tensors_nonempty ts(1,2) by blast+
  note ph = parse_header_words [OF hs hw(1) lay(6,7) ks tab lens(3) ts(5) ne bounds]
  have m1: "map (\<lambda>(a, ln, d). (a, ln)) ents = ins @ outs"
    using nth lens by (intro nth_equalityI) (auto simp: case_prod_unfold intro!: prod_eqI)
  have m2: "map (\<lambda>(a, ln, d). py_slice (nat d) (nat (d + ln)) blob) ents = payload_list ifm @ payload_list golden"
    using nth lens by (intro nth_equalityI) (auto simp: case_prod_unfold datas nat_int_add)
  have m3: "\<forall>e \<in> set ents. 16 dvd snd (snd e)"
  proof
    fix e assume "e \<in> set ents"
    then obtain i where i: "i < length ins + length outs" "e = ents ! i"
      using lens(3) by (auto simp: in_set_conv_nth)
    have "16 dvd ds ! i" using lay(4) i(1) lens(2) by (simp add: nth_mem)
    then have "16 dvd int (ds ! i)" by presburger
    then show "16 dvd snd (snd e)" using nth [OF i(1)] i(2) by simp
  qed
  show ?thesis
    by (rule that [OF ts(1-4) ph hw(1) [folded len] lay(6) _ _ _ _ _ m1 m2 m3])
      (use lay(3,4) len at in auto)
qed

section \<open>Knob values\<close>

lemma and_not_bounds:
  fixes v m :: int
  assumes "v AND NOT m = 0" "0 \<le> m"
  shows "0 \<le> v" "v \<le> m"
proof -
  have "v = v AND m"
    using assms(1) by (metis and_eq_not_not_or bit.conj_disj_distrib bit.disj_cancel_right bit.conj_one_right or.right_neutral)
  then show "0 \<le> v" "v \<le> m" using assms(2) AND_upper2 [of m v] by (metis and_nonnegative_int_iff, metis)
qed

definition knobs_ok :: "int list \<Rightarrow> bool" where
  "knobs_ok k \<longleftrightarrow> length k = 16 \<and> words_ok k"

lemma set_knob_ok: "knobs_ok k \<Longrightarrow> 0 \<le> v \<Longrightarrow> v < 4294967296 \<Longrightarrow> knobs_ok (set_knob f v k)"
  by (auto simp: knobs_ok_def set_knob_def words_ok_def list_all_iff dest!: set_update_subset_insert [THEN subsetD])

lemma axi_channel_range: "map_of AXI_CHANNELS c = Some v \<Longrightarrow> v \<in> {0, 1, 2, 3, 4, 5, 6, 8, 9}"
  by (auto simp: AXI_CHANNELS_def split: if_splits)

lemma attr_range: "attr_of ports r = Inr v \<Longrightarrow> v \<in> {0, 2}"
  by (auto simp: attr_of_def ATTR_EXT_def ATTR_SRAM_def)

lemma knob_steps_ok:
  "axi_knob axi k = Inr k' \<Longrightarrow> knobs_ok k \<Longrightarrow> knobs_ok k'"
  "port_knobs ports k = Inr k' \<Longrightarrow> knobs_ok k \<Longrightarrow> knobs_ok k'"
  "limit_knob lm port field k = Inr k' \<Longrightarrow> knobs_ok k \<Longrightarrow> knobs_ok k'"
  "power_knob pw k = Inr k' \<Longrightarrow> knobs_ok k \<Longrightarrow> knobs_ok k'"
  "fast_knob fb ports k = Inr k' \<Longrightarrow> knobs_ok k \<Longrightarrow> knobs_ok k'"
  "ta_knob ta k = Inr k' \<Longrightarrow> knobs_ok k \<Longrightarrow> knobs_ok k'"
proof -
  show "axi_knob axi k = Inr k' \<Longrightarrow> knobs_ok k \<Longrightarrow> knobs_ok k'"
    by (auto simp: axi_knob_def dict_get_def split: if_splits list.splits option.splits
        dest!: axi_channel_range intro!: set_knob_ok)
  show "port_knobs ports k = Inr k' \<Longrightarrow> knobs_ok k \<Longrightarrow> knobs_ok k'"
    by (auto simp: port_knobs_def MEM_ATTR_SRAM_def MEM_ATTR_EXT_def ATTR_SRAM_def split: if_splits
        dest!: attr_range intro!: set_knob_ok)
  show "limit_knob lm port field k = Inr k' \<Longrightarrow> knobs_ok k \<Longrightarrow> knobs_ok k'"
    using and_not_bounds [of _ AXI_LIMIT_FIELDS]
    by (fastforce simp: limit_knob_def AXI_LIMIT_FIELDS_def split: if_splits option.splits intro!: set_knob_ok)
  show "power_knob pw k = Inr k' \<Longrightarrow> knobs_ok k \<Longrightarrow> knobs_ok k'"
    by (auto simp: power_knob_def POWER_CTRL_MASK_def split: if_splits option.splits intro!: set_knob_ok)
  show "fast_knob fb ports k = Inr k' \<Longrightarrow> knobs_ok k \<Longrightarrow> knobs_ok k'"
    by (auto simp: fast_knob_def ONCHIP_SRAM_def split: if_splits option.splits intro!: set_knob_ok)
  show "ta_knob ta k = Inr k' \<Longrightarrow> knobs_ok k \<Longrightarrow> knobs_ok k'"
    by (auto simp: ta_knob_def TA_PROFILES_def split: if_splits option.splits intro!: set_knob_ok)
qed

lemma off_knobs_ok: "knobs_ok (replicate KNOB_WORDS OFF)"
  by (simp add: knobs_ok_def KNOB_WORDS_def OFF_def words_ok_def list_all_iff)

lemma knobs_result_ok:
  assumes "knobs axi ports axi_limit power_ctrl fast_base ta_profile = Inr k"
  shows "knobs_ok k"
proof -
  from assms obtain k1 k2 k3 k4 k5 k6 where
    st: "axi_knob axi (replicate KNOB_WORDS OFF) = Inr k1" "port_knobs ports k1 = Inr k2"
    "limit_knob axi_limit ''sram'' ''axi_sram'' k2 = Inr k3" "limit_knob axi_limit ''ext'' ''axi_ext'' k3 = Inr k4"
    "power_knob power_ctrl k4 = Inr k5" "fast_knob fast_base ports k5 = Inr k6" "ta_knob ta_profile k6 = Inr k"
    by (auto simp: knobs_def)
  show ?thesis
    by (intro knob_steps_ok(6) [OF st(7)] knob_steps_ok(5) [OF st(6)] knob_steps_ok(4) [OF st(5)]
        knob_steps_ok(3) [OF st(4)] knob_steps_ok(3) [OF st(3)] knob_steps_ok(2) [OF st(2)]
        knob_steps_ok(1) [OF st(1)] off_knobs_ok)
qed

lemma knobs_full: "knobs axi ports axi_limit power_ctrl fast_base ta_profile = Inr k \<Longrightarrow> full_knobs k = k"
  using knobs_result_ok by (auto simp: knobs_ok_def full_knobs_def)

section \<open>Properties\<close>

lemma ph_field_nth:
  "ph_field ''version'' h = ph_words h ! 1" "ph_field ''arena_size'' h = ph_words h ! 6"
  "ph_field ''ifm_arena_off'' h = ph_words h ! 8" "ph_field ''ifm_len'' h = ph_words h ! 9"
  "ph_field ''ifm_data_off'' h = ph_words h ! 10" "ph_field ''ofm_arena_off'' h = ph_words h ! 11"
  "ph_field ''ofm_len'' h = ph_words h ! 12" "ph_field ''golden_off'' h = ph_words h ! 13"
  "ph_field ''total_len'' h = ph_words h ! 15"
  by (simp_all add: ph_field_def HEADER_FIELDS_def numeral_eq_Suc)

text \<open>C14. Whatever \<open>pack\<close> produces, \<open>parse_header\<close> reads back: the tensors, the knobs (\<open>OFF\<close> for the words
  the chosen version does not carry), the arena sizes and the total length, which is the blob's, a multiple
  of 16. The header version is the smallest that holds the tensors and the knobs.\<close>

theorem pack_parse_roundtrip:
  assumes "pack info ifm golden kws = Inr blob"
  shows "\<exists>h ins outs. parse_header blob = Inr h
    \<and> tensors (pi_inputs info) (pi_ifm info) = Inr ins \<and> tensors (pi_outputs info) (pi_ofm info) = Inr outs
    \<and> map (\<lambda>(a, n, d). (a, n)) (ph_inputs h) = ins \<and> map (\<lambda>(a, n, d). (a, n)) (ph_outputs h) = outs
    \<and> ph_knobs h = full_knobs kws
    \<and> ph_field ''version'' h =
        (if 2 < length ins + length outs then 4
         else if \<exists>w \<in> set (drop 7 (full_knobs kws)). w \<noteq> OFF then 3
         else if \<exists>w \<in> set (take 7 (full_knobs kws)). w \<noteq> OFF then 2 else 1)
    \<and> ph_field ''arena_size'' h = pi_arena_size info \<and> ph_field ''fast_size'' h = pi_fast_size info
    \<and> ph_field ''total_len'' h = int (length blob) \<and> 16 dvd length blob"
proof -
  from assms obtain ins outs hw ents version cms_off const_off where
    p: "tensors (pi_inputs info) (pi_ifm info) = Inr ins" "tensors (pi_outputs info) (pi_ofm info) = Inr outs"
    "parse_header blob = Inr \<lparr>ph_words = hw, ph_knobs = full_knobs kws,
       ph_inputs = take (length ins) ents, ph_outputs = drop (length ins) ents\<rparr>"
    "hw = header_words info version cms_off const_off (ents ! 0) (ents ! length ins) (length blob)"
    "version = blob_version (length ins + length outs) (padded_knobs kws)" "16 dvd length blob"
    "map (\<lambda>(a, n, d). (a, n)) ents = ins @ outs" by (rule pack_parse)
  have "map (\<lambda>(a, n, d). (a, n)) (take (length ins) ents) = ins"
    "map (\<lambda>(a, n, d). (a, n)) (drop (length ins) ents) = outs"
    using p(7) by (simp_all flip: take_map drop_map)
  with p(1-3,6) show ?thesis
    by (simp add: ph_field_def HEADER_FIELDS_def p(4) header_words_def p(5) blob_version_full)
qed

definition sample_info :: pack_info where
  "sample_info = \<lparr>pi_cms = [0, 0, 0xFF, 0xFF], pi_const = [7], pi_arena_size = 32, pi_fast_size = 0,
     pi_inputs = [(0, 2), (2, 1)], pi_outputs = [(16, 3)], pi_ifm = None, pi_ofm = None\<rparr>"

lemma sample_packs: "\<exists>blob. pack sample_info (Many [[1, 2], [3]]) (One [4, 5, 6]) [] = Inr blob"
proof -
  have v: "blob_version (Suc (Suc (Suc 0))) (padded_knobs []) = 4" by (simp add: blob_version_full)
  have l: "length (padded_knobs []) = 32" by (simp add: padded_knobs_def layout_defs)
  have k: "words_ok (take 16 (padded_knobs []))"
    unfolding full_knobs_padded by (simp add: full_knobs_def words_ok_def list_all_iff OFF_def)
  have z: "words_ok (replicate n 0)" for n by (simp add: words_ok_def list_all_iff)
  have stop: "stop_ok [0, 0, 0xFF, 0xFF] = Inr ()"
    by (simp add: stop_ok_def struct_unpack_def fmt_dec_def)
  show ?thesis
    by (simp add: pack_def sample_info_def tensors_def layout_defs v l knob_len_def align_def Let_def stop
        struct_pack_words_iff header_words_def io_words_def MAGIC_def k z del: replicate.simps)
qed

lemma pack_parse_roundtrip_witness:
  "\<exists>blob h. pack sample_info (Many [[1, 2], [3]]) (One [4, 5, 6]) [] = Inr blob \<and> parse_header blob = Inr h
     \<and> map (\<lambda>(a, n, d). (a, n)) (ph_inputs h) = [(0, 2), (2, 1)] \<and> ph_field ''version'' h = 4"
proof -
  obtain blob where b: "pack sample_info (Many [[1, 2], [3]]) (One [4, 5, 6]) [] = Inr blob"
    using sample_packs by blast
  from pack_parse_roundtrip [OF b] b show ?thesis by (auto simp: sample_info_def tensors_def)
qed

text \<open>A packed blob holds the command stream, the constants, every IFM and every reference OFM unchanged
  at the offsets its header and IO table give, each offset a multiple of 16.\<close>

theorem packed_blob_contents:
  assumes "pack info ifm golden kws = Inr blob"
  shows "\<exists>h. parse_header blob = Inr h
    \<and> py_slice (nat (ph_field ''cms_off'' h)) (nat (ph_field ''cms_off'' h + ph_field ''cms_len'' h)) blob = pi_cms info
    \<and> py_slice (nat (ph_field ''const_off'' h)) (nat (ph_field ''const_off'' h + ph_field ''const_len'' h)) blob
        = pi_const info
    \<and> map (\<lambda>(a, n, d). py_slice (nat d) (nat (d + n)) blob) (ph_inputs h) = payload_list ifm
    \<and> map (\<lambda>(a, n, d). py_slice (nat d) (nat (d + n)) blob) (ph_outputs h) = payload_list golden
    \<and> 16 dvd ph_field ''cms_off'' h \<and> 16 dvd ph_field ''const_off'' h
    \<and> (\<forall>e \<in> set (ph_inputs h @ ph_outputs h). 16 dvd snd (snd e))"
proof -
  from assms obtain ins hw ents version cms_off const_off n_out where
    p: "length (payload_list ifm) = length ins"
    "parse_header blob = Inr \<lparr>ph_words = hw, ph_knobs = full_knobs kws,
       ph_inputs = take (length (ins :: (int \<times> int) list)) ents, ph_outputs = drop (length ins) ents\<rparr>"
    "hw = header_words info version cms_off const_off (ents ! 0) (ents ! n_out) (length blob)"
    "16 dvd cms_off" "16 dvd const_off"
    "py_slice cms_off (cms_off + length (pi_cms info)) blob = pi_cms info"
    "py_slice const_off (const_off + length (pi_const info)) blob = pi_const info"
    "map (\<lambda>(a, n, d). py_slice (nat d) (nat (d + n)) blob) ents = payload_list ifm @ payload_list golden"
    "\<forall>e \<in> set ents. 16 dvd snd (snd e)" by (rule pack_parse)
  have "map (\<lambda>(a, n, d). py_slice (nat d) (nat (d + n)) blob) (take (length ins) ents) = payload_list ifm"
    "map (\<lambda>(a, n, d). py_slice (nat d) (nat (d + n)) blob) (drop (length ins) ents) = payload_list golden"
    using p(1,8) by (simp_all flip: take_map drop_map)
  moreover have "16 dvd int cms_off" "16 dvd int const_off" using p(4,5) by presburger+
  moreover have "set (take (length ins) ents) \<union> set (drop (length ins) ents) = set ents"
    by (metis append_take_drop_id set_append)
  ultimately show ?thesis using p(2,6,7,9)
    by (simp add: ph_field_def HEADER_FIELDS_def p(3) header_words_def nat_int_add)
qed

lemma packed_blob_contents_witness:
  "\<exists>blob h. pack sample_info (Many [[1, 2], [3]]) (One [4, 5, 6]) [] = Inr blob \<and> parse_header blob = Inr h
     \<and> map (\<lambda>(a, n, d). py_slice (nat d) (nat (d + n)) blob) (ph_inputs h) = [[1, 2], [3]]"
proof -
  obtain blob where b: "pack sample_info (Many [[1, 2], [3]]) (One [4, 5, 6]) [] = Inr blob"
    using sample_packs by blast
  from packed_blob_contents [OF b] b show ?thesis by auto
qed

text \<open>The knob words \<open>knobs\<close> builds always fit the blob: sixteen unsigned 32-bit words, so packing them
  never raises. In particular an AXI limit that passes has no bit outside the writable field.\<close>

theorem knobs_fit_blob:
  assumes "knobs axi ports axi_limit power_ctrl fast_base ta_profile = Inr k"
  shows "length k = 16 \<and> words_ok k \<and> full_knobs k = k
    \<and> (\<forall>v. map_of axi_limit ''sram'' = Some v \<longrightarrow> 0 \<le> v \<and> v \<le> AXI_LIMIT_FIELDS)
    \<and> (\<forall>v. fast_base = Some v \<longrightarrow> 0x31000000 \<le> v \<and> v < 0x31400000 \<and> 256 dvd v)"
proof -
  from assms obtain k1 k2 k3 k4 k5 k6 where
    st: "axi_knob axi (replicate KNOB_WORDS OFF) = Inr k1" "port_knobs ports k1 = Inr k2"
    "limit_knob axi_limit ''sram'' ''axi_sram'' k2 = Inr k3" "limit_knob axi_limit ''ext'' ''axi_ext'' k3 = Inr k4"
    "power_knob power_ctrl k4 = Inr k5" "fast_knob fast_base ports k5 = Inr k6" "ta_knob ta_profile k6 = Inr k"
    by (auto simp: knobs_def)
  note ok = knobs_result_ok [OF assms]
  have "0 \<le> v \<and> v \<le> AXI_LIMIT_FIELDS" if "map_of axi_limit ''sram'' = Some v" for v
    using st(3) that and_not_bounds [of v AXI_LIMIT_FIELDS]
    by (auto simp: limit_knob_def AXI_LIMIT_FIELDS_def split: if_splits)
  moreover have "0x31000000 \<le> v \<and> v < 0x31400000 \<and> 256 dvd v" if "fast_base = Some v" for v
    using st(6) that take_bit_eq_mask [of 8 v]
    by (auto simp: fast_knob_def ONCHIP_SRAM_def take_bit_eq_mod mask_eq_exp_minus_1 split: if_splits)
  ultimately show ?thesis using ok by (auto simp: knobs_ok_def full_knobs_def)
qed

lemma knobs_fit_blob_witness:
  "\<exists>k. knobs ''ext:rd_weights'' [(''cmd'', ''ext''), (''const'', ''ext''), (''arena'', ''sram''), (''fast'', ''sram'')]
         [(''sram'', 0x20F0B)] (Some 5) (Some 0x31000100) (Some 2) = Inr k \<and> full_knobs k = k"
proof -
  have "case knobs ''ext:rd_weights'' [(''cmd'', ''ext''), (''const'', ''ext''), (''arena'', ''sram''), (''fast'', ''sram'')]
         [(''sram'', 0x20F0B)] (Some 5) (Some 0x31000100) (Some 2) of Inl _ \<Rightarrow> False | Inr _ \<Rightarrow> True"
    by code_simp
  then obtain k where k: "knobs ''ext:rd_weights'' [(''cmd'', ''ext''), (''const'', ''ext''), (''arena'', ''sram''), (''fast'', ''sram'')]
         [(''sram'', 0x20F0B)] (Some 5) (Some 0x31000100) (Some 2) = Inr k"
    by (auto split: sum.splits)
  from knobs_fit_blob [OF k] k show ?thesis by auto
qed

text \<open>C15. A header \<open>parse_header\<close> accepts is safe to load: one to ten tensors with at least one IFM and one
  OFM, the first of each as in the header words, each inside the arena and inside the declared length; and a
  blob before version 4 has one IFM and one OFM.\<close>

theorem parsed_header_safe:
  assumes "parse_header blob = Inr h"
  shows "length (ph_words h) = 16 \<and> length (ph_knobs h) = 16 \<and> words_ok (ph_words h)
    \<and> 1 \<le> length (ph_inputs h) \<and> 1 \<le> length (ph_outputs h) \<and> length (ph_inputs h) + length (ph_outputs h) \<le> 10
    \<and> hd (ph_inputs h) = (ph_field ''ifm_arena_off'' h, ph_field ''ifm_len'' h, ph_field ''ifm_data_off'' h)
    \<and> hd (ph_outputs h) = (ph_field ''ofm_arena_off'' h, ph_field ''ofm_len'' h, ph_field ''golden_off'' h)
    \<and> (\<forall>(a, n, d) \<in> set (ph_inputs h @ ph_outputs h).
          a + n \<le> ph_field ''arena_size'' h \<and> d + n \<le> ph_field ''total_len'' h)
    \<and> (ph_field ''version'' h \<noteq> 4 \<longrightarrow> length (ph_inputs h) = 1 \<and> length (ph_outputs h) = 1)"
proof -
  from assms obtain w n kw n_in ents where
    w: "struct_unpack_from (replicate HEADER_WORDS FI) blob 0 = Inr w" and n: "knob_count (w ! 1) = Some n"
    and kw: "struct_unpack_from (replicate n FI) blob (4 * HEADER_WORDS) = Inr kw"
    and io: "(if w ! 1 = 4 then io_table blob (w ! 8, w ! 9, w ! 10) (w ! 11, w ! 12, w ! 13)
         else Inr (1, [(w ! 8, w ! 9, w ! 10), (w ! 11, w ! 12, w ! 13)])) = Inr (n_in, ents)"
    and b: "\<not> (\<exists>(a, m, d) \<in> set ents. a + m > w ! 6 \<or> d + m > w ! 15)"
    and h: "h = \<lparr>ph_words = w, ph_knobs = (let k = kw @ replicate (KNOB_WORDS - n) OFF in if w ! 1 = 2 then k[V2_KNOBS := OFF] else k),
        ph_inputs = take n_in ents, ph_outputs = drop n_in ents\<rparr>"
    unfolding parse_header_def Let_def by (fastforce split: if_splits option.splits)
  have lw: "length w = 16" "words_ok w"
    using w dec_words_ok [of 16 blob] by (auto simp: struct_unpack_from_def HEADER_WORDS_def split: if_splits)
  have "n \<le> 16" using n by (auto simp: knob_count_def KNOB_WORDS_def split: if_splits)
  moreover have "length kw = n" using kw by (auto simp: struct_unpack_from_def split: if_splits)
  ultimately have lk: "length (ph_knobs h) = 16" by (simp add: h Let_def KNOB_WORDS_def)
  have e: "1 \<le> n_in \<and> n_in < length ents \<and> length ents \<le> 10 \<and> ents ! 0 = (w ! 8, w ! 9, w ! 10)
      \<and> ents ! n_in = (w ! 11, w ! 12, w ! 13) \<and> (w ! 1 \<noteq> 4 \<longrightarrow> n_in = 1 \<and> length ents = 2)"
    using io by (auto simp: io_table_def IO_MAX_def Let_def split: if_splits)
  have "\<forall>(a, m, d) \<in> set ents. a + m \<le> w ! 6 \<and> d + m \<le> w ! 15" using b by fastforce
  then have "\<forall>(a, m, d) \<in> set (take n_in ents @ drop n_in ents). a + m \<le> w ! 6 \<and> d + m \<le> w ! 15" by simp
  moreover have "hd (take n_in ents) = ents ! 0" "hd (drop n_in ents) = ents ! n_in"
    using e by (simp_all add: hd_drop_conv_nth) (cases ents; cases n_in; simp)
  ultimately show ?thesis using e lw lk by (auto simp: h ph_field_nth)
qed

lemma parsed_header_safe_witness:
  "\<exists>blob h. parse_header blob = Inr h \<and> length (ph_inputs h) + length (ph_outputs h) \<le> 10"
proof -
  obtain blob where b: "pack sample_info (Many [[1, 2], [3]]) (One [4, 5, 6]) [] = Inr blob"
    using sample_packs by blast
  from b obtain h where h: "parse_header blob = Inr h" by (rule pack_parse) blast
  from parsed_header_safe [OF h] h show ?thesis by blast
qed

end
