(* ===== verification/Baseline_Gate.thy ===== *)
theory Baseline_Gate
  imports Results Pmwl_Blob
begin

text \<open>
  \<open>host/lib/mlek_profile.py\<close> and \<open>host/analysis/baseline_gate.py\<close>: the arguments of the knobs of a measurement
  profile, the checks of a boot and of a RUN, the gate of a workload and the comparison with the board reference.
  The JSON files (profile, manifest, summary, reference) are records; a file that does not exist is \<open>None\<close>. Medians
  are exact rationals, and the two tolerances are compared exactly.

  The per-RUN check is an argument of the gate, as in the code; the locale \<open>run_gate\<close> is what every such check
  promises. The outcomes are ordered by how bad they are, and the overall verdict is the worst.
\<close>

section \<open>Profiles\<close>

fun ports_of :: "string list \<Rightarrow> (string, string) dict \<Rightarrow> exn + (string, string) dict" where
  "ports_of [] d = Inr d"
| "ports_of (kv # kvs) d =
     (case split_char CHR ''='' kv of
        [k, v] \<Rightarrow> ports_of kvs (dict_put k v d)
      | _ \<Rightarrow> Inl (ValueError ''dictionary update sequence''))"

text \<open>\<open>None\<close>, which the knobs treat as an empty dictionary, when there is no text.\<close>

definition parse_ports :: "string option \<Rightarrow> exn + (string, string) dict" where
  "parse_ports text = (case text of None \<Rightarrow> Inr [] | Some t \<Rightarrow> if t = [] then Inr [] else ports_of (split_char CHR '','' t) [])"

fun limits_of :: "string list \<Rightarrow> (string, int) dict \<Rightarrow> exn + (string, int) dict" where
  "limits_of [] d = Inr d"
| "limits_of (kv # kvs) d =
     (case split_char CHR ''='' kv of
        k # v # _ \<Rightarrow> bind_res (int_base0 v) (\<lambda>n. limits_of kvs (dict_put k n d))
      | _ \<Rightarrow> Inl IndexError)"

definition parse_axi_limit :: "string option \<Rightarrow> exn + (string, int) dict" where
  "parse_axi_limit text = (case text of None \<Rightarrow> Inr [] | Some t \<Rightarrow> if t = [] then Inr [] else limits_of (split_char CHR '','' t) [])"

record profile =
  pf_name :: string
  pf_ports :: "string option"
  pf_axi_limit :: "string option"
  pf_power_ctrl :: "int option"
  pf_fast_base :: string
  pf_ta_profile :: "int option"
  pf_image :: "(string, string) dict"
  pf_repeats :: int
  pf_warmup :: int

text \<open>\<open>pmwl.knobs(**knob_args(prof))\<close>.\<close>

definition profile_knobs :: "profile \<Rightarrow> exn + int list" where
  "profile_knobs prof =
     bind_res (parse_ports (pf_ports prof)) (\<lambda>ports.
     bind_res (parse_axi_limit (pf_axi_limit prof)) (\<lambda>axi_limit.
     bind_res (int_base0 (pf_fast_base prof)) (\<lambda>fast_base.
       knobs [] ports axi_limit (pf_power_ctrl prof) (Some fast_base) (pf_ta_profile prof))))"

section \<open>The checks\<close>

text \<open>A \<open>summary.json\<close>: \<open>bt_requested_ids\<close> is \<open>None\<close> for \<open>all\<close>.\<close>

record boot =
  bt_provenance :: "(string, string) dict"
  bt_blob_sha256 :: "string option"
  bt_cms_sha256 :: "string option"
  bt_ifm_sha256 :: "string option"
  bt_golden_sha256 :: "string option"
  bt_blob_knobs :: "string list option"
  bt_requested_ids :: "int list option"
  bt_coverage :: string
  bt_refusal :: "string option"
  bt_runs :: "int option"

record golden =
  gd_input_sha256 :: string
  gd_ofm_sha256 :: string

record workload =
  wl_blob_sha256 :: string
  wl_cms_sha256 :: string
  wl_golden :: "golden option"

datatype boot_check = B1_image | B2_blob | B3_set

definition hex_lower :: "nat \<Rightarrow> int \<Rightarrow> string" where
  "hex_lower width n = map (\<lambda>c. if among CHR ''A'' CHR ''F'' c then char_of (of_char c + 32 :: nat) else c) (hex_upper width n)"

definition boot_checks :: "boot \<Rightarrow> profile \<Rightarrow> workload \<Rightarrow> int list \<Rightarrow> exn + boot_check list" where
  "boot_checks summ prof man ids =
     bind_res (profile_knobs prof) (\<lambda>ks.
       let want_knobs = map (\<lambda>w. ''0x'' @ hex_lower 8 w) ks in
       Inr ((if \<exists>(k, v) \<in> set (pf_image prof). map_of (bt_provenance summ) k \<noteq> Some v then [B1_image] else [])
         @ (if bt_blob_sha256 summ \<noteq> Some (wl_blob_sha256 man) \<or> bt_cms_sha256 summ \<noteq> Some (wl_cms_sha256 man)
               \<or> bt_blob_knobs summ \<noteq> Some want_knobs then [B2_blob] else [])
         @ (if bt_requested_ids summ \<noteq> Some ids \<or> \<not> prefix ''COMPLETE'' (bt_coverage summ)
               \<or> bt_refusal summ \<noteq> None \<or> bt_runs summ \<noteq> Some (pf_repeats prof) then [B3_set] else [])))"

datatype run_check = R1_valid | R2_rc | R3_output | R4_overflow | R5_active | R6_cycle | R6s_mac_le_npu

text \<open>\<open>run.get(name)\<close> for an event: \<open>None\<close> when it is absent or has no value.\<close>

definition event_of :: "run \<Rightarrow> string \<Rightarrow> int option" where
  "event_of r name = (case map_of (rn_events r) name of None \<Rightarrow> None | Some v \<Rightarrow> v)"

definition run_checks :: "run \<Rightarrow> run_check list" where
  "run_checks r =
     (let a = event_of r ''npu_active''; w = rn_window_cycles r; c = event_of r ''cycle'' in
      map fst (filter (\<lambda>(_, ok). \<not> ok)
        [(R1_valid, rn_valid r),
         (R2_rc, rn_run_rc r = Some 0),
         (R3_output, rn_vendor_rc r = Some 0 \<and> rn_ofm_mismatch r = Some 0),
         (R4_overflow, \<not> rn_overflow r),
         (R5_active, case (a, w) of (Some a, Some w) \<Rightarrow> 0 < a \<and> a \<le> w | _ \<Rightarrow> False),
         (R6_cycle, case (c, w) of (Some c, Some w) \<Rightarrow> w \<noteq> 0 \<and> \<bar>rat_of_int (c - w)\<bar> / rat_of_int w \<le> 1 / 100 | _ \<Rightarrow> False)]))"

text \<open>\<open>host/analysis/stage1.py\<close>: R1 to R5, and MAC activity bounded by NPU activity in place of R6.\<close>

definition stage1_checks :: "run \<Rightarrow> run_check list" where
  "stage1_checks r =
     filter (\<lambda>k. k \<noteq> R6_cycle) (run_checks r)
     @ (if case (event_of r ''npu_active'', event_of r ''mac_active'') of (Some a, Some m) \<Rightarrow> m \<le> a | _ \<Rightarrow> False
        then [] else [R6s_mac_le_npu])"

datatype gate_status = BASELINE_PASS | BASELINE_FAIL | GATE_UNPROVEN | INVALID

record gate_result =
  gr_gate :: gate_status
  gr_failed_boot :: "boot_check list"
  gr_failed_runs :: "(int, run_check list) dict"
  gr_runs :: nat

definition no_result :: "gate_status \<Rightarrow> gate_result" where
  "no_result g = \<lparr>gr_gate = g, gr_failed_boot = [], gr_failed_runs = [], gr_runs = 0\<rparr>"

definition workload_gate ::
    "(run \<Rightarrow> run_check list) \<Rightarrow> boot option \<Rightarrow> csv list option \<Rightarrow> profile \<Rightarrow> workload \<Rightarrow> int list \<Rightarrow> exn + gate_result" where
  "workload_gate checks summary_json runs_csv prof man ids =
     (case (summary_json, runs_csv) of
        (Some summ, Some rows) \<Rightarrow>
          if (case wl_golden man of None \<Rightarrow> False
              | Some gold \<Rightarrow> bt_ifm_sha256 summ \<noteq> Some (gd_input_sha256 gold) \<or> bt_golden_sha256 summ \<noteq> Some (gd_ofm_sha256 gold))
          then Inr (no_result INVALID)
          else bind_res (load_runs rows) (\<lambda>runs.
            bind_res (boot_checks summ prof man ids) (\<lambda>failed_boot.
            let failed_runs = fold (\<lambda>r d. dict_put (rn_rep r) (checks r) d) (filter (\<lambda>r. checks r \<noteq> []) runs) [];
                ok = (failed_boot = [] \<and> failed_runs = [] \<and> int (length runs) = pf_repeats prof)
            in Inr \<lparr>gr_gate = (if ok then BASELINE_PASS else BASELINE_FAIL), gr_failed_boot = failed_boot,
                    gr_failed_runs = failed_runs, gr_runs = length runs\<rparr>))
      | _ \<Rightarrow> Inr (no_result GATE_UNPROVEN))"

section \<open>The outcome\<close>

definition ACTIVE_TOL :: rat where "ACTIVE_TOL = 1 / 100"

definition BEATS :: "(string \<times> string) list" where
  "BEATS = [(''sram_rd_beats'', ''SRAM_RD_DATA_BEAT_RECEIVED''), (''sram_wr_beats'', ''SRAM_WR_DATA_BEAT_WRITTEN''),
     (''ext_rd_beats'', ''EXT_RD_DATA_BEAT_RECEIVED''), (''ext_wr_beats'', ''EXT_WR_DATA_BEAT_WRITTEN'')]"

definition median :: "int list \<Rightarrow> rat" where
  "median xs = (let s = sort xs; n = length s in
     if odd n then of_int (s ! (n div 2)) else (of_int (s ! (n div 2 - 1)) + of_int (s ! (n div 2))) / 2)"

text \<open>\<open>statistics.median(r[k] for r in runs)\<close>: a missing key raises, then an empty list; more than one value with a
  \<open>None\<close> among them cannot be sorted, and a single \<open>None\<close> is its own median.\<close>

definition median_of :: "run list \<Rightarrow> string \<Rightarrow> exn + rat option" where
  "median_of runs k =
     (if \<exists>r \<in> set runs. map_of (rn_events r) k = None then Inl KeyError
      else let xs = map (\<lambda>r. event_of r k) runs in
        if xs = [] then Inl StatisticsError
        else if None \<in> set xs then (if length xs = 1 then Inr None else Inl TypeError)
        else Inr (Some (median (map the xs))))"

datatype outcome_status = MLEK_EQUIVALENT | MLEK_DIFFERENT | UNRESOLVED

fun medians_of :: "run list \<Rightarrow> string list \<Rightarrow> exn + (string, rat option) dict" where
  "medians_of runs [] = Inr []"
| "medians_of runs (k # ks) =
     bind_res (median_of runs k) (\<lambda>m. bind_res (medians_of runs ks) (\<lambda>d. Inr ((k, m) # d)))"

text \<open>\<open>all(med[ours] == mlek[theirs] ...)\<close> stops at the first difference.\<close>

fun beats_equal :: "(string, rat option) dict \<Rightarrow> (string, int) dict \<Rightarrow> (string \<times> string) list \<Rightarrow> exn + bool" where
  "beats_equal med mlek [] = Inr True"
| "beats_equal med mlek ((ours, theirs) # bs) =
     bind_res (dict_get ours med) (\<lambda>m. bind_res (dict_get theirs mlek) (\<lambda>b.
       if m = Some (of_int b) then beats_equal med mlek bs else Inr False))"

definition outcome :: "gate_result \<Rightarrow> run list \<Rightarrow> (string, int) dict \<Rightarrow> exn + outcome_status" where
  "outcome g runs mlek =
     (if gr_gate g \<noteq> BASELINE_PASS then Inr UNRESOLVED
      else let m = measured_valid runs WARMUP in
        bind_res (medians_of m (''npu_active'' # map fst BEATS)) (\<lambda>med.
        bind_res (beats_equal med mlek BEATS) (\<lambda>same.
        bind_res (dict_get ''npu_active'' med) (\<lambda>active.
        bind_res (dict_get ''ACTIVE_median'' mlek) (\<lambda>ref_active.
          case active of None \<Rightarrow> Inl TypeError
          | Some a \<Rightarrow>
              if ref_active = 0 then Inl ZeroDivisionError
              else let delta = (a - of_int ref_active) / of_int ref_active in
                Inr (if same \<and> \<bar>delta\<bar> \<le> ACTIVE_TOL then MLEK_EQUIVALENT else MLEK_DIFFERENT))))))"

definition overall :: "outcome_status list \<Rightarrow> outcome_status" where
  "overall per = (if per = [] \<or> UNRESOLVED \<in> set per then UNRESOLVED
     else if MLEK_DIFFERENT \<in> set per then MLEK_DIFFERENT else MLEK_EQUIVALENT)"

text \<open>The overall outcome is the worst one.\<close>

fun severity :: "outcome_status \<Rightarrow> nat" where
  "severity MLEK_EQUIVALENT = 0"
| "severity MLEK_DIFFERENT = 1"
| "severity UNRESOLVED = 2"

instantiation outcome_status :: linorder
begin

definition less_eq_outcome_status :: "outcome_status \<Rightarrow> outcome_status \<Rightarrow> bool" where
  "less_eq_outcome_status x y = (severity x \<le> severity y)"

definition less_outcome_status :: "outcome_status \<Rightarrow> outcome_status \<Rightarrow> bool" where
  "less_outcome_status x y = (severity x < severity y)"

instance
proof
  fix x y :: outcome_status
  show "x \<le> y \<Longrightarrow> y \<le> x \<Longrightarrow> x = y" by (cases x; cases y) (simp_all add: less_eq_outcome_status_def)
qed (auto simp: less_eq_outcome_status_def less_outcome_status_def)

end

lemma overall_worst: "overall per = (if per = [] then UNRESOLVED else Max (set per))"
proof (cases "per = []")
  case False
  define m where "m = Max (set per)"
  have "m \<in> set per" "x \<in> set per \<Longrightarrow> severity x \<le> severity m" for x
    using False by (simp_all add: m_def flip: less_eq_outcome_status_def)
  then have "overall per = m"
    using False by (cases m rule: outcome_status.exhaust) (fastforce simp: overall_def)+
  with False show ?thesis by (simp add: m_def)
qed (simp add: overall_def)

section \<open>What a check promises\<close>

text \<open>R1 to R5: a valid run with both return codes 0, an output that matched, no overflow and an NPU activity inside
  its window.\<close>

definition clean_run :: "run \<Rightarrow> bool" where
  "clean_run r \<longleftrightarrow> rn_valid r \<and> rn_run_rc r = Some 0 \<and> rn_vendor_rc r = Some 0 \<and> rn_ofm_mismatch r = Some 0
     \<and> \<not> rn_overflow r \<and> (\<exists>a w. event_of r ''npu_active'' = Some a \<and> rn_window_cycles r = Some w \<and> 0 < a \<and> a \<le> w)"

text \<open>R6: the cycle event within one percent of the window.\<close>

definition cycle_close :: "run \<Rightarrow> bool" where
  "cycle_close r \<longleftrightarrow> (\<exists>c w. event_of r ''cycle'' = Some c \<and> rn_window_cycles r = Some w \<and> 0 < w \<and> 100 * \<bar>c - w\<bar> \<le> w)"

definition mac_inside_npu :: "run \<Rightarrow> bool" where
  "mac_inside_npu r \<longleftrightarrow> (\<exists>a m. event_of r ''npu_active'' = Some a \<and> event_of r ''mac_active'' = Some m \<and> m \<le> a)"

definition golden_matches :: "workload \<Rightarrow> boot \<Rightarrow> bool" where
  "golden_matches man summ \<longleftrightarrow> (case wl_golden man of None \<Rightarrow> True
     | Some gold \<Rightarrow> bt_ifm_sha256 summ = Some (gd_input_sha256 gold) \<and> bt_golden_sha256 summ = Some (gd_ofm_sha256 gold))"

locale run_gate =
  fixes checks :: "run \<Rightarrow> run_check list" and extra :: "run \<Rightarrow> bool"
  assumes checks_exact: "checks r = [] \<longleftrightarrow> clean_run r \<and> extra r"
begin

lemma fold_put_empty: "fold (\<lambda>r d. dict_put (rn_rep r) (checks r) d) rs d = [] \<longleftrightarrow> rs = [] \<and> d = []"
proof (induction rs arbitrary: d)
  case (Cons r rs)
  have "dict_put k v d \<noteq> []" for k v by (cases "(k, v, d)" rule: dict_put.cases) auto
  with Cons show ?case by simp
qed simp

lemma gate_pass_iff:
  "(\<exists>g. workload_gate checks (Some summ) (Some rows) prof man ids = Inr g \<and> gr_gate g = BASELINE_PASS) \<longleftrightarrow>
    golden_matches man summ \<and> boot_checks summ prof man ids = Inr []
    \<and> (\<exists>runs. load_runs rows = Inr runs \<and> int (length runs) = pf_repeats prof
        \<and> list_all (\<lambda>r. clean_run r \<and> extra r) runs)"
proof -
  have none: "fold (\<lambda>r d. dict_put (rn_rep r) (checks r) d) (filter (\<lambda>r. checks r \<noteq> []) runs) [] = []
      \<longleftrightarrow> list_all (\<lambda>r. clean_run r \<and> extra r) runs" for runs
    by (simp add: fold_put_empty filter_empty_conv list_all_iff checks_exact)
  have g: "(case wl_golden man of None \<Rightarrow> False
      | Some gold \<Rightarrow> bt_ifm_sha256 summ \<noteq> Some (gd_input_sha256 gold) \<or> bt_golden_sha256 summ \<noteq> Some (gd_ofm_sha256 gold))
      \<longleftrightarrow> \<not> golden_matches man summ"
    by (simp add: golden_matches_def split: option.splits)
  show ?thesis
  proof (cases "golden_matches man summ")
    case False
    then show ?thesis by (simp add: workload_gate_def g no_result_def)
  next
    case True
    show ?thesis
      by (cases "load_runs rows"; cases "boot_checks summ prof man ids")
        (auto simp: workload_gate_def g True Let_def none)
  qed
qed

end

lemma ratio_close:
  "w \<noteq> 0 \<and> \<bar>rat_of_int (c - w)\<bar> / rat_of_int w \<le> 1 / 100 \<and> 0 < w \<longleftrightarrow> 0 < w \<and> 100 * \<bar>c - w\<bar> \<le> w"
proof -
  have "\<bar>rat_of_int (c - w)\<bar> / rat_of_int w \<le> 1 / 100 \<longleftrightarrow> 100 * \<bar>rat_of_int (c - w)\<bar> \<le> rat_of_int w" if "0 < w"
    using that by (simp add: field_simps)
  also have "\<dots> \<longleftrightarrow> 100 * \<bar>c - w\<bar> \<le> w" if "0 < w"
    by (metis (mono_tags) of_int_abs of_int_le_iff of_int_mult of_int_numeral)
  finally show ?thesis by auto
qed

lemma run_checks_exact: "run_checks r = [] \<longleftrightarrow> clean_run r \<and> cycle_close r"
proof -
  have "run_checks r = [] \<longleftrightarrow> clean_run r \<and> (case (event_of r ''cycle'', rn_window_cycles r) of
      (Some c, Some w) \<Rightarrow> w \<noteq> 0 \<and> \<bar>rat_of_int (c - w)\<bar> / rat_of_int w \<le> 1 / 100 | _ \<Rightarrow> False)"
    by (auto simp: run_checks_def Let_def clean_run_def split: option.splits if_splits)
  also have "\<dots> \<longleftrightarrow> clean_run r \<and> cycle_close r"
  proof (cases "clean_run r")
    case True
    then obtain w where w: "rn_window_cycles r = Some w" "0 < w" by (auto simp: clean_run_def)
    then show ?thesis using True ratio_close [of w] by (cases "event_of r ''cycle''") (auto simp: cycle_close_def)
  qed simp
  finally show ?thesis .
qed

lemma stage1_checks_exact: "stage1_checks r = [] \<longleftrightarrow> clean_run r \<and> mac_inside_npu r"
proof -
  have "filter (\<lambda>k. k \<noteq> R6_cycle) (run_checks r) = [] \<longleftrightarrow> clean_run r"
    by (auto simp: run_checks_def Let_def clean_run_def split: option.splits if_splits)
  moreover have "(case (event_of r ''npu_active'', event_of r ''mac_active'') of (Some a, Some m) \<Rightarrow> m \<le> a | _ \<Rightarrow> False)
      \<longleftrightarrow> mac_inside_npu r"
    by (auto simp: mac_inside_npu_def split: option.splits)
  ultimately show ?thesis unfolding stage1_checks_def by simp
qed

interpretation stage0: run_gate run_checks cycle_close
  by unfold_locales (rule run_checks_exact)

interpretation stage1: run_gate stage1_checks mac_inside_npu
  by unfold_locales (rule stage1_checks_exact)

section \<open>Properties\<close>

text \<open>The stage 0 gate over the \<open>runs.csv\<close> that a campaign wrote passes exactly when the blob's input and golden
  are the manifest's, the boot checks find nothing, there are as many repetitions as the profile asks for, and the
  run of every repetition is clean: valid, both return codes 0, no output mismatch, no overflow, NPU activity inside
  the window, and the cycle event within one percent of it.\<close>

theorem baseline_gate_on_campaign:
  "(\<exists>g. workload_gate run_checks (Some summ) (Some (map csv_row rows)) prof man ids = Inr g \<and> gr_gate g = BASELINE_PASS)
   \<longleftrightarrow> golden_matches man summ \<and> boot_checks summ prof man ids = Inr []
     \<and> int (card (ro_rep ` set rows)) = pf_repeats prof
     \<and> list_all (\<lambda>rep. clean_run (the (run_of_rows rep rows)) \<and> cycle_close (the (run_of_rows rep rows)))
         (sorted_set (map ro_rep rows))"
proof -
  have "length (sorted_set (map ro_rep rows)) = card (ro_rep ` set rows)"
    using distinct_card [OF distinct_sorted_set, of "map ro_rep rows"] by simp
  then show ?thesis unfolding stage0.gate_pass_iff load_runs_of_campaign by (auto simp: list_all_iff)
qed

end
