(* ===== verification/Vela_Payload.thy ===== *)
theory Vela_Payload
  imports Py_Text
begin

text \<open>
  \<open>host/container/pack_vela_workload.py\<close>: the command stream inside the COP1 payload of an ethos-u operator, and the
  refusal of a foreign Vela; and \<open>host/container/workload_meta.py\<close>: the MACs of an operator and of a model. What the tflite package reads from a
  model file (operators, shapes, buffers) is an argument.
\<close>

unbundle bit_operations_syntax

section \<open>The COP1 payload\<close>

definition COP1 :: bytes where "COP1 = [0x43, 0x4F, 0x50, 0x31]"
definition DA_OPTIMIZER_CONFIG :: int where "DA_OPTIMIZER_CONFIG = 1"
definition DA_COMMAND_STREAM :: int where "DA_COMMAND_STREAM = 2"
definition DA_NOP :: int where "DA_NOP = 5"

definition action_length :: "int \<Rightarrow> int" where
  "action_length w = push_bit 16 (drop_bit 8 w AND 0xFF) OR drop_bit 16 w"

function cms_loop :: "bytes \<Rightarrow> int list \<Rightarrow> nat \<Rightarrow> bytes option \<Rightarrow> exn + bytes option" where
  "cms_loop cop words i cms =
     (if \<not> i < length words then Inr cms
      else let w = words ! i; cmd = w AND 0xFF in
        if cmd = DA_OPTIMIZER_CONFIG then cms_loop cop words (i + 1 + 2) cms
        else if cmd = DA_COMMAND_STREAM then
          let n = nat (action_length w) in
          if cms \<noteq> None then Inl (ValueError ''more than one COMMAND_STREAM'')
          else cms_loop cop words (i + 1 + n) (Some (py_slice ((i + 1) * 4) ((i + 1 + n) * 4) cop))
        else if cmd = DA_NOP then cms_loop cop words (i + 1) cms
        else Inl (ValueError ''unknown driver action''))"
  by pat_completeness auto
termination by (relation "measure (\<lambda>(_, words, i, _). length words - i)") auto

declare cms_loop.simps [simp del]

definition extract_cms :: "bytes \<Rightarrow> exn + bytes" where
  "extract_cms cop =
     (if py_slice 0 4 cop \<noteq> COP1 then Inl (ValueError ''custom op data does not start with COP1'')
      else bind_res (struct_unpack (replicate (length cop div 4) FI) cop) (\<lambda>words.
        bind_res (cms_loop cop words 1 None) (\<lambda>cms.
          case cms of None \<Rightarrow> Inl (ValueError ''no COMMAND_STREAM in COP1 payload'') | Some c \<Rightarrow> Inr c)))"

definition VELA_OPTIONS :: "string list" where
  "VELA_OPTIONS = [''--accelerator-config'', ''ethos-u85-1024'', ''--optimise'', ''Performance'', ''--config'',
     ''/opt/arm/ml-embedded-evaluation-kit/scripts/vela/default_vela.ini'', ''--memory-mode'', ''Dedicated_Sram'',
     ''--system-config'', ''Ethos_U85_SYS_DRAM_Mid_1024'']"

definition check_vela :: "string \<Rightarrow> string list \<Rightarrow> string \<Rightarrow> exn + unit" where
  "check_vela prof_version prof_options vela_version =
     (if vela_version \<noteq> prof_version \<or> VELA_OPTIONS \<noteq> prof_options then Inl (SystemExit ''Vela'') else Inr ())"

section \<open>Multiply-accumulates\<close>

datatype builtin = CONV_2D | DEPTHWISE_CONV_2D | FULLY_CONNECTED | BATCH_MATMUL | Other_op string

text \<open>\<open>np.prod\<close> of a list of integers: a product of 64-bit integers, 1 for none.\<close>

definition np_prod :: "int list \<Rightarrow> int" where
  "np_prod xs = sint (word_of_int (prod_list xs) :: 64 word)"

definition op_macs :: "builtin \<Rightarrow> int list list \<Rightarrow> int list list \<Rightarrow> exn + int option" where
  "op_macs code ins outs = (case code of
       CONV_2D \<Rightarrow> bind_res (index outs 0) (\<lambda>ofm. case ofm of
           [n, ho, wo, cout] \<Rightarrow> bind_res (index ins 1) (\<lambda>f. case f of
               [_, kh, kw, cin_g] \<Rightarrow> Inr (Some (n * ho * wo * cout * kh * kw * cin_g))
             | _ \<Rightarrow> Inl (ValueError ''unpack''))
         | _ \<Rightarrow> Inl (ValueError ''unpack''))
     | DEPTHWISE_CONV_2D \<Rightarrow> bind_res (index outs 0) (\<lambda>ofm. case ofm of
           [n, ho, wo, cout] \<Rightarrow> bind_res (index ins 1) (\<lambda>f. case f of
               [_, kh, kw, _] \<Rightarrow> Inr (Some (n * ho * wo * cout * kh * kw))
             | _ \<Rightarrow> Inl (ValueError ''unpack''))
         | _ \<Rightarrow> Inl (ValueError ''unpack''))
     | FULLY_CONNECTED \<Rightarrow> bind_res (index ins 1) (\<lambda>f. case f of
           [cout, cin] \<Rightarrow> bind_res (index outs 0) (\<lambda>ofm. Inr (Some (np_prod (butlast ofm) * cin * cout)))
         | _ \<Rightarrow> Inl (ValueError ''unpack''))
     | BATCH_MATMUL \<Rightarrow> bind_res (index outs 0) (\<lambda>ofm. bind_res (index ins 0) (\<lambda>a.
           if a = [] then Inl IndexError else Inr (Some (np_prod ofm * last a))))
     | Other_op _ \<Rightarrow> Inr None)"

record macs_summary =
  ms_n_mac :: int
  ms_n_mac_ops :: nat
  ms_non_mac_ops :: nat

definition macs_of :: "int option list \<Rightarrow> macs_summary" where
  "macs_of ops = (let macs = List.map_filter (\<lambda>m. m) ops in
     \<lparr>ms_n_mac = sum_list macs, ms_n_mac_ops = length macs, ms_non_mac_ops = length ops - length macs\<rparr>)"

section \<open>Reading a payload back\<close>

datatype driver_action = Optimizer_config int int | Nop | Command_stream "int list"

definition stream_header :: "nat \<Rightarrow> int" where
  "stream_header n = 2 + 256 * int (n div 65536) + 65536 * int (n mod 65536)"

fun action_words :: "driver_action \<Rightarrow> int list" where
  "action_words (Optimizer_config a b) = [DA_OPTIMIZER_CONFIG, a, b]"
| "action_words Nop = [DA_NOP]"
| "action_words (Command_stream ws) = stream_header (length ws) # ws"

fun action_ok :: "driver_action \<Rightarrow> bool" where
  "action_ok (Optimizer_config a b) = words_ok [a, b]"
| "action_ok Nop = True"
| "action_ok (Command_stream ws) = (words_ok ws \<and> length ws < 2 ^ 24)"

definition streams :: "driver_action list \<Rightarrow> bytes list" where
  "streams acts = concat (map (\<lambda>a. case a of Command_stream ws \<Rightarrow> [enc_words ws] | _ \<Rightarrow> []) acts)"

definition cop1_payload :: "driver_action list \<Rightarrow> bytes" where
  "cop1_payload acts = COP1 @ enc_words (concat (map action_words acts))"

lemma and_255: "(w :: int) AND 0xFF = w mod 256"
proof -
  have "(0xFF :: int) = mask 8" by (simp add: mask_eq_exp_minus_1)
  moreover have "w AND mask 8 = w mod 2 ^ 8" by (simp only: take_bit_eq_mask [symmetric] take_bit_eq_mod)
  ultimately show ?thesis by simp
qed

lemma stream_header_fields:
  assumes "n < 2 ^ 24"
  shows "stream_header n AND 0xFF = 2" and "action_length (stream_header n) = int n"
    and "fmt_ok FI (stream_header n)"
proof -
  define a b where "a = int (n div 65536)" and "b = int (n mod 65536)"
  have ab: "0 \<le> a" "a < 256" "0 \<le> b" "b < 65536" using assms by (auto simp: a_def b_def)
  have h: "stream_header n = 2 + 256 * a + 65536 * b" by (simp add: stream_header_def a_def b_def)
  have e: "2 + 256 * a + 65536 * b = 2 + (a + 256 * b) * 256" "2 + 256 * a + 65536 * b = (2 + 256 * a) + b * 65536" by simp_all
  show "stream_header n AND 0xFF = 2" unfolding and_255 h e(1) by (simp only: mod_mult_self1) simp
  have "drop_bit 8 (stream_header n) = a + 256 * b" unfolding drop_bit_eq_div h e(1) by simp
  then have hi: "drop_bit 8 (stream_header n) AND 0xFF = a" using ab(1,2) by (simp add: and_255)
  have lo: "drop_bit 16 (stream_header n) = b" unfolding drop_bit_eq_div h e(2) using ab by simp
  have "action_length (stream_header n) = concat_bit 16 b a"
    unfolding action_length_def hi lo using ab(3,4) by (simp add: concat_bit_def take_bit_eq_mod or.commute)
  also have "\<dots> = b + 65536 * a"
    using ab(3,4) by (simp add: concat_bit_eq take_bit_eq_mod push_bit_eq_mult)
  also have "\<dots> = int n" unfolding a_def b_def by (metis mod_mult_div_eq of_nat_add of_nat_mult of_nat_numeral)
  finally show "action_length (stream_header n) = int n" .
  show "fmt_ok FI (stream_header n)" using ab by (simp add: h)
qed

lemma length_action_words: "0 < length (action_words a)"
  by (cases a) simp_all

lemma cms_loop_actions:
  assumes "list_all action_ok acts" and "drop i ws = concat (map action_words acts)" and "i \<le> length ws"
  shows "cms_loop (enc_words ws) ws i cms =
    (case (case cms of None \<Rightarrow> [] | Some c \<Rightarrow> [c]) @ streams acts of
       [] \<Rightarrow> Inr None | [c] \<Rightarrow> Inr (Some c) | _ \<Rightarrow> Inl (ValueError ''more than one COMMAND_STREAM''))"
  using assms
proof (induction acts arbitrary: i cms)
  case Nil
  then have "\<not> i < length ws" by (metis concat.simps(1) drop_eq_Nil list.simps(8) not_less)
  then show ?case by (subst cms_loop.simps) (simp add: streams_def split: option.splits)
next
  case (Cons a acts)
  have d: "drop i ws = action_words a @ concat (map action_words acts)" using Cons.prems(2) by simp
  have i: "i < length ws" using length_action_words [of a] d by (metis add_pos_nonneg drop_all leI length_append list.size(3) not_gr_zero zero_le)
  have w: "ws ! i = hd (action_words a)" using i d length_action_words [of a] by (metis hd_append2 hd_drop_conv_nth length_greater_0_conv)
  have nxt: "drop (i + length (action_words a)) ws = concat (map action_words acts)" "i + length (action_words a) \<le> length ws"
    using d i by (metis add.commute append_eq_conv_conj drop_drop, metis d add_leD1 add_le_cancel_left le_add1 le_add_diff_inverse length_append length_drop less_imp_le)
  note IH = Cons.IH [OF _ nxt]
  show ?case
  proof (cases a)
    case (Optimizer_config x y)
    then show ?thesis using IH Cons.prems(1) w i
      by (subst cms_loop.simps) (simp add: and_255 DA_OPTIMIZER_CONFIG_def streams_def numeral_3_eq_3)
  next
    case Nop
    then show ?thesis using IH Cons.prems(1) w i
      by (subst cms_loop.simps) (simp add: and_255 DA_OPTIMIZER_CONFIG_def DA_COMMAND_STREAM_def DA_NOP_def streams_def)
  next
    case (Command_stream us)
    have ok: "length us < 2 ^ 24" using Cons.prems(1) Command_stream by simp
    note h = stream_header_fields [OF ok]
    have slice: "py_slice ((i + 1) * 4) ((i + 1 + length us) * 4) (enc_words ws) = enc_words us"
    proof -
      have "drop (Suc i) ws = us @ concat (map action_words acts)" using d Command_stream by (metis action_words.simps(3) append_Cons drop_Suc list.sel(3) tl_drop)
      then show ?thesis using py_slice_enc_words [of "i + 1" "i + 1 + length us" ws] by (simp add: mult.commute)
    qed
    have step: "cms_loop (enc_words ws) ws i cms = (if cms \<noteq> None then Inl (ValueError ''more than one COMMAND_STREAM'')
        else cms_loop (enc_words ws) ws (i + 1 + length us) (Some (enc_words us)))"
      using i w Command_stream h slice
      by (subst cms_loop.simps) (simp add: DA_OPTIMIZER_CONFIG_def DA_COMMAND_STREAM_def)
    show ?thesis
      unfolding step using IH [of "Some (enc_words us)"] Cons.prems(1) Command_stream
      by (cases cms) (simp_all add: streams_def)
  qed
qed

lemma words_ok_actions: "list_all action_ok acts \<Longrightarrow> words_ok (concat (map action_words acts))"
proof (induction acts)
  case (Cons a acts)
  have "words_ok (action_words a)"
    using Cons.prems stream_header_fields(3) by (cases a) (simp_all add: DA_OPTIMIZER_CONFIG_def DA_NOP_def del: fmt_ok.simps, auto)
  with Cons show ?case by simp
qed simp

lemma COP1_word: "COP1 = enc_words [0x31504F43]"
  by code_simp

text \<open>The declared length of a stream is not compared with the payload: a payload that ends early gives what is there.\<close>

lemma truncated_stream_accepted:
  "extract_cms (COP1 @ enc_words [stream_header 5, 7]) = Inr (enc_words [7])"
proof -
  have w: "struct_unpack (replicate 3 FI) (enc_words [0x31504F43, stream_header 5, 7]) = Inr [0x31504F43, stream_header 5, 7]"
    by (rule struct_roundtrip, rule struct_pack_words) (simp_all add: stream_header_def)
  note c = COP1_word
  have "cms_loop (enc_words [0x31504F43, stream_header 5, 7]) [0x31504F43, stream_header 5, 7] 1 None = Inr (Some (enc_words [7]))"
    using stream_header_fields [of 5]
    by (subst cms_loop.simps, subst cms_loop.simps)
      (simp add: DA_OPTIMIZER_CONFIG_def DA_COMMAND_STREAM_def py_slice_def)
  then show ?thesis using w unfolding extract_cms_def c by (simp add: py_slice_def)
qed

lemma extract_payload:
  assumes "list_all action_ok acts"
  shows "extract_cms (cop1_payload acts) =
    (case streams acts of
       [] \<Rightarrow> Inl (ValueError ''no COMMAND_STREAM in COP1 payload'')
     | [c] \<Rightarrow> Inr c
     | _ \<Rightarrow> Inl (ValueError ''more than one COMMAND_STREAM''))"
proof -
  let ?ws = "0x31504F43 # concat (map action_words acts)"
  have p: "cop1_payload acts = enc_words ?ws" by (simp add: cop1_payload_def COP1_word)
  have "words_ok ?ws" using words_ok_actions [OF assms] by simp
  from struct_roundtrip [OF struct_pack_words [OF this refl]]
  have u: "struct_unpack (replicate (length (enc_words ?ws) div 4) FI) (enc_words ?ws) = Inr ?ws" by simp
  have s: "py_slice 0 4 (enc_words ?ws) = COP1" by (simp add: py_slice_def COP1_word)
  have "cms_loop (enc_words ?ws) ?ws 1 None = (case streams acts of [] \<Rightarrow> Inr None | [c] \<Rightarrow> Inr (Some c)
      | _ \<Rightarrow> Inl (ValueError ''more than one COMMAND_STREAM''))"
    using cms_loop_actions [OF assms, of 1 ?ws None] by simp
  then show ?thesis unfolding p extract_cms_def s u by (simp split: list.splits)
qed

section \<open>Properties\<close>

text \<open>C32. \<open>extract_cms\<close> finds the command stream of a COP1 payload: for any driver actions in any order, the words of
  the one command stream among them, and an error when there is none or more than one.\<close>

theorem command_stream_extracted:
  assumes "list_all action_ok acts"
  shows "extract_cms (cop1_payload acts) =
    (case streams acts of
       [] \<Rightarrow> Inl (ValueError ''no COMMAND_STREAM in COP1 payload'')
     | [c] \<Rightarrow> Inr c
     | _ \<Rightarrow> Inl (ValueError ''more than one COMMAND_STREAM''))"
  by (rule extract_payload [OF assms])

theorem command_stream_extracted_witness:
  "extract_cms (cop1_payload [Optimizer_config 7 8, Nop, Command_stream [1, 2]]) = Inr (enc_words [1, 2])"
  by (subst command_stream_extracted) (simp_all add: streams_def)

end
