(* ===== verification/Sha256.thy ===== *)
theory Sha256
  imports Py_Base
begin

text \<open>
  \<open>hashlib.sha256(...).hexdigest()\<close>, which the host scripts use to identify images, blobs and tensors: SHA-256 on
  32-bit words as FIPS 180-4 states it.
\<close>

unbundle bit_operations_syntax

type_synonym w32 = "32 word"

definition K256 :: "w32 list" where
  "K256 = [0x428A2F98, 0x71374491, 0xB5C0FBCF, 0xE9B5DBA5, 0x3956C25B, 0x59F111F1,
     0x923F82A4, 0xAB1C5ED5, 0xD807AA98, 0x12835B01, 0x243185BE, 0x550C7DC3,
     0x72BE5D74, 0x80DEB1FE, 0x9BDC06A7, 0xC19BF174, 0xE49B69C1, 0xEFBE4786,
     0x0FC19DC6, 0x240CA1CC, 0x2DE92C6F, 0x4A7484AA, 0x5CB0A9DC, 0x76F988DA,
     0x983E5152, 0xA831C66D, 0xB00327C8, 0xBF597FC7, 0xC6E00BF3, 0xD5A79147,
     0x06CA6351, 0x14292967, 0x27B70A85, 0x2E1B2138, 0x4D2C6DFC, 0x53380D13,
     0x650A7354, 0x766A0ABB, 0x81C2C92E, 0x92722C85, 0xA2BFE8A1, 0xA81A664B,
     0xC24B8B70, 0xC76C51A3, 0xD192E819, 0xD6990624, 0xF40E3585, 0x106AA070,
     0x19A4C116, 0x1E376C08, 0x2748774C, 0x34B0BCB5, 0x391C0CB3, 0x4ED8AA4A,
     0x5B9CCA4F, 0x682E6FF3, 0x748F82EE, 0x78A5636F, 0x84C87814, 0x8CC70208,
     0x90BEFFFA, 0xA4506CEB, 0xBEF9A3F7, 0xC67178F2]"

definition H256 :: "w32 list" where
  "H256 = [0x6A09E667, 0xBB67AE85, 0x3C6EF372, 0xA54FF53A, 0x510E527F, 0x9B05688C,
     0x1F83D9AB, 0x5BE0CD19]"

definition rotr :: "nat \<Rightarrow> w32 \<Rightarrow> w32" where
  "rotr n x = drop_bit n x OR push_bit (32 - n) x"

definition big_sigma0 :: "w32 \<Rightarrow> w32" where "big_sigma0 x = (rotr 2 x XOR rotr 13 x) XOR rotr 22 x"
definition big_sigma1 :: "w32 \<Rightarrow> w32" where "big_sigma1 x = (rotr 6 x XOR rotr 11 x) XOR rotr 25 x"
definition small_sigma0 :: "w32 \<Rightarrow> w32" where "small_sigma0 x = (rotr 7 x XOR rotr 18 x) XOR drop_bit 3 x"
definition small_sigma1 :: "w32 \<Rightarrow> w32" where "small_sigma1 x = (rotr 17 x XOR rotr 19 x) XOR drop_bit 10 x"

text \<open>The schedule is extended by one word at a time; \<open>ws\<close> holds the last sixteen.\<close>

definition next_word :: "w32 list \<Rightarrow> w32" where
  "next_word ws = small_sigma1 (ws ! 14) + ws ! 9 + small_sigma0 (ws ! 1) + ws ! 0"

fun rounds :: "w32 list \<Rightarrow> w32 list \<Rightarrow> w32 list \<Rightarrow> w32 list" where
  "rounds (k # ks) (w # ws) [a, b, c, d, e, f, g, h] =
     (let t1 = h + big_sigma1 e + ((e AND f) XOR (NOT e AND g)) + k + w;
          t2 = big_sigma0 a + ((a AND b) XOR (a AND c) XOR (b AND c))
      in rounds ks (ws @ [next_word (w # ws)]) [t1 + t2, a, b, c, d + t1, e, f, g])"
| "rounds _ _ st = st"

definition compress :: "w32 list \<Rightarrow> w32 list \<Rightarrow> w32 list" where
  "compress st block = map2 (+) st (rounds K256 block st)"

fun be_words :: "bytes \<Rightarrow> w32 list" where
  "be_words (a # b # c # d # bs) =
     (push_bit 24 (ucast a) OR push_bit 16 (ucast b) OR push_bit 8 (ucast c) OR ucast d) # be_words bs"
| "be_words _ = []"

definition be_bytes :: "nat \<Rightarrow> int \<Rightarrow> bytes" where
  "be_bytes n v = rev (le_bytes n v)"

text \<open>A bit 1, zeros up to 56 modulo 64 bytes, and the length in bits.\<close>

definition sha_pad :: "bytes \<Rightarrow> bytes" where
  "sha_pad m = m @ [0x80] @ replicate ((119 - length m mod 64) mod 64) 0 @ be_bytes 8 (8 * int (length m))"

function blocks_from :: "w32 list \<Rightarrow> w32 list \<Rightarrow> w32 list" where
  "blocks_from st ws = (if ws = [] then st else blocks_from (compress st (take 16 ws)) (drop 16 ws))"
  by pat_completeness auto
termination by (relation "measure (\<lambda>(_, ws). length ws)") auto

declare blocks_from.simps [simp del]

definition hex_char :: "nat \<Rightarrow> char" where
  "hex_char d = char_of (if d < 10 then 48 + d else 87 + d)"

definition hex_byte :: "byte \<Rightarrow> string" where
  "hex_byte b = [hex_char (unat b div 16), hex_char (unat b mod 16)]"

definition sha256 :: "bytes \<Rightarrow> string" where
  "sha256 m = concat (map hex_byte (concat (map (\<lambda>w. be_bytes 4 (uint w)) (blocks_from H256 (be_words (sha_pad m))))))"

end
