(* ===== verification/Golden.thy ===== *)
theory Golden
  imports Py_Text Sha256
begin

text \<open>
  \<open>host/analysis/ofm_compare.py\<close> and \<open>host/analysis/mlek_golden.py\<close>: reading the tensor dumps of a board log, the
  byte-wise comparison of two outputs, and the manifest entry of a golden. The log is text: a byte above 127, which
  decodes to U+FFFD, is any character above 127.
\<close>

section \<open>Tensor dumps\<close>

definition IFM_MARK :: string where "IFM_MARK = ''input tensors populated''"
definition OFM_MARK :: string where "OFM_MARK = ''output tensors post inference''"

text \<open>\<open>HEX.findall\<close>, each value as a byte.\<close>

definition is_lower_hex :: "char \<Rightarrow> bool" where
  "is_lower_hex c \<longleftrightarrow> is_digit c \<or> among CHR ''a'' CHR ''f'' c"

fun hex_cells :: "string \<Rightarrow> bytes" where
  "hex_cells (z # x # a # b # k # cs) =
     (if z = CHR ''0'' \<and> x = CHR ''x'' \<and> is_lower_hex a \<and> is_lower_hex b \<and> k = CHR '',''
      then word_of_int (16 * digit_value a + digit_value b) # hex_cells cs
      else hex_cells (x # a # b # k # cs))"
| "hex_cells _ = []"

definition strip_tabs :: "string \<Rightarrow> string" where
  "strip_tabs = dropWhile (\<lambda>c. c = CHR 0x09)"

fun dump_lines :: "string list \<Rightarrow> bytes \<Rightarrow> bytes" where
  "dump_lines [] out = out"
| "dump_lines (l # ls) out =
     (if prefix ''0x'' (strip_tabs l) then dump_lines ls (out @ hex_cells l)
      else if strip_blank l \<noteq> [] \<and> out \<noteq> [] then out
      else dump_lines ls out)"

definition dump_section :: "string \<Rightarrow> string \<Rightarrow> exn + bytes" where
  "dump_section txt mark =
     (case find_sub mark txt of
        None \<Rightarrow> Inl IndexError
      | Some i \<Rightarrow> Inr (dump_lines (tl (splitlines (drop (i + length mark) txt))) []))"

section \<open>Comparing two outputs\<close>

definition int8 :: "byte \<Rightarrow> int" where
  "int8 b = (if uint b > 127 then uint b - 256 else uint b)"

record ofm_diff =
  od_length :: nat
  od_mismatch_count :: nat
  od_positions :: "nat list"
  od_a_values :: "int list"
  od_b_values :: "int list"
  od_signed_diff :: "int list"
  od_max_abs_diff :: int

definition compare_ofm :: "bytes \<Rightarrow> bytes \<Rightarrow> exn + ofm_diff" where
  "compare_ofm a b =
     (if length a \<noteq> length b then Inl (ValueError ''length'')
      else let pos = filter (\<lambda>i. a ! i \<noteq> b ! i) [0..<length a];
               diff = map (\<lambda>i. int8 (a ! i) - int8 (b ! i)) pos
           in Inr \<lparr>od_length = length a, od_mismatch_count = length pos, od_positions = pos,
                   od_a_values = map (\<lambda>i. int8 (a ! i)) pos, od_b_values = map (\<lambda>i. int8 (b ! i)) pos,
                   od_signed_diff = diff, od_max_abs_diff = foldr max (map abs diff) 0\<rparr>)"

section \<open>The manifest entry\<close>

definition TA_LINES :: "string list" where
  "TA_LINES = [''Configured TA_SRAM'' @ [CHR 0x09] @ ''@0x51102000'', ''Configured TA_EXT'' @ [CHR 0x09] @ ''@0x51102400'']"

record blob_meta =
  mt_ifm_len :: nat
  mt_ofm_len :: nat
  mt_vela_sha256 :: string
  mt_model_sha256 :: string
  mt_cms_sha256 :: string
  mt_ifm_sha256 :: string
  mt_golden_sha256 :: string
  mt_tflite_ofm_sha256 :: string
  mt_blob_sha256 :: string

record frozen_entry =
  fz_model_sha256 :: string
  fz_cms_sha256 :: string

datatype validity_check = G1_lengths | G2_same_vela_output | G3_ta_configured | G4_model_and_cms_unchanged | G5_blob_holds_dump

definition validity :: "string \<Rightarrow> blob_meta \<Rightarrow> frozen_entry \<Rightarrow> string \<Rightarrow> exn + (validity_check \<times> bool) list" where
  "validity txt meta frozen mlek_vela_sha256 =
     bind_res (dump_section txt IFM_MARK) (\<lambda>ifm.
     bind_res (dump_section txt OFM_MARK) (\<lambda>ofm.
       Inr [(G1_lengths, length ifm = mt_ifm_len meta \<and> length ofm = mt_ofm_len meta),
            (G2_same_vela_output, mlek_vela_sha256 = mt_vela_sha256 meta),
            (G3_ta_configured, list_all (\<lambda>t. occurs_in t txt) TA_LINES),
            (G4_model_and_cms_unchanged, mt_model_sha256 meta = fz_model_sha256 frozen \<and> mt_cms_sha256 meta = fz_cms_sha256 frozen),
            (G5_blob_holds_dump, mt_ifm_sha256 meta = sha256 ifm \<and> mt_golden_sha256 meta = sha256 ofm)]))"

definition check_text :: "validity_check \<Rightarrow> string" where
  "check_text k = (case k of G1_lengths \<Rightarrow> ''G1_lengths'' | G2_same_vela_output \<Rightarrow> ''G2_same_vela_output''
     | G3_ta_configured \<Rightarrow> ''G3_ta_configured'' | G4_model_and_cms_unchanged \<Rightarrow> ''G4_model_and_cms_unchanged''
     | G5_blob_holds_dump \<Rightarrow> ''G5_blob_holds_dump'')"

fun joined :: "string \<Rightarrow> string list \<Rightarrow> string" where
  "joined sep [] = []"
| "joined sep [x] = x"
| "joined sep (x # xs) = x @ sep @ joined sep xs"

text \<open>The entry's own fields; the rest of the frozen entry is copied.\<close>

record golden_entry =
  ge_frozen :: frozen_entry
  ge_blob_sha256 :: string
  ge_input_sha256 :: string
  ge_ofm_sha256 :: string
  ge_mlek_vela_sha256 :: string
  ge_validity :: "(validity_check \<times> bool) list"
  ge_tflite_ofm_sha256 :: string
  ge_diagnostic :: ofm_diff

definition golden_entry_of :: "string \<Rightarrow> blob_meta \<Rightarrow> frozen_entry \<Rightarrow> string \<Rightarrow> bytes \<Rightarrow> exn + golden_entry" where
  "golden_entry_of txt meta frozen mlek_vela_sha256 tflite_ofm =
     bind_res (validity txt meta frozen mlek_vela_sha256) (\<lambda>g.
     if \<not> list_all snd g
     then Inl (ValueError (''golden rejected: '' @ joined '', '' (map (\<lambda>(k, _). check_text k) (filter (\<lambda>(_, ok). \<not> ok) g))))
     else if sha256 tflite_ofm \<noteq> mt_tflite_ofm_sha256 meta
     then Inl (ValueError ''tflite_ofm.bin is not the packer's tflite_runtime OFM for this input'')
     else bind_res (dump_section txt OFM_MARK) (\<lambda>ofm.
       bind_res (compare_ofm ofm tflite_ofm) (\<lambda>diag.
         Inr \<lparr>ge_frozen = frozen, ge_blob_sha256 = mt_blob_sha256 meta, ge_input_sha256 = mt_ifm_sha256 meta,
              ge_ofm_sha256 = mt_golden_sha256 meta, ge_mlek_vela_sha256 = mlek_vela_sha256, ge_validity = g,
              ge_tflite_ofm_sha256 = mt_tflite_ofm_sha256 meta, ge_diagnostic = diag\<rparr>)))"

text \<open>\<open>main\<close> of \<open>mlek_golden.py\<close>: exit 1 on a \<open>ValueError\<close>, any other exception leaves it.\<close>

definition golden_main :: "string \<Rightarrow> blob_meta \<Rightarrow> frozen_entry \<Rightarrow> string \<Rightarrow> bytes \<Rightarrow> exn + int \<times> golden_entry option" where
  "golden_main uart meta frozen vsha tfl =
     (case golden_entry_of (filter (\<lambda>c. c \<noteq> CHR 0x0D) uart) meta frozen vsha tfl of
        Inr e \<Rightarrow> Inr (0, Some e)
      | Inl (ValueError _) \<Rightarrow> Inr (1, None)
      | Inl e \<Rightarrow> Inl e)"

section \<open>Reading a dump back\<close>

text \<open>What the board prints for a row of a tensor.\<close>

definition cell :: "byte \<Rightarrow> string" where
  "cell b = ''0x'' @ hex_byte b @ '', ''"

definition dump_row :: "bytes \<Rightarrow> string" where
  "dump_row bs = concat (map cell bs)"

lemma hex_char_value: "d < 16 \<Longrightarrow> is_lower_hex (hex_char d) \<and> digit_value (hex_char d) = int d \<and> \<not> is_newline (hex_char d)"
proof -
  assume "d < 16"
  then have "d \<in> set [0..<16]" by simp
  then show ?thesis
    by (auto simp: upt_rec hex_char_def is_lower_hex_def is_digit_def among_def digit_value_def is_newline_def
        less_eq_char_def less_char_def)
qed

lemma hex_byte_split: "\<exists>a b. hex_byte w = [a, b] \<and> is_lower_hex a \<and> is_lower_hex b \<and> \<not> is_newline a \<and> \<not> is_newline b
    \<and> 16 * digit_value a + digit_value b = uint w"
proof -
  have "uint w < 256" using uint_byte_bounds [of w] by simp
  moreover have "int (unat w) = uint w" by simp
  ultimately have "unat w < 256" by linarith
  then have "unat w div 16 < 16" by simp
  moreover have "16 * int (unat w div 16) + int (unat w mod 16) = uint w"
    by (metis mult_div_mod_eq of_nat_add of_nat_mult of_nat_numeral uint_nat)
  ultimately show ?thesis using hex_char_value [of "unat w div 16"] hex_char_value [of "unat w mod 16"]
    by (simp add: hex_byte_def)
qed

lemma hex_cells_row: "hex_cells (dump_row bs) = bs" "hex_cells (CHR '' '' # dump_row bs) = bs"
proof (induction bs)
  case Nil
  case 1 show ?case by (simp add: dump_row_def)
  case 2 show ?case by (simp add: dump_row_def)
next
  case (Cons w bs)
  obtain a b where h: "hex_byte w = [a, b]" "is_lower_hex a" "is_lower_hex b" "16 * digit_value a + digit_value b = uint w"
    using hex_byte_split [of w] by blast
  have r: "dump_row (w # bs) = CHR ''0'' # CHR ''x'' # a # b # CHR '','' # CHR '' '' # dump_row bs"
    by (simp add: dump_row_def cell_def h(1))
  have e: "hex_cells (dump_row (w # bs)) = w # bs" unfolding r using h Cons.IH(2) by simp
  case 1 show ?case by (rule e)
  case 2 show ?case using e unfolding r by simp
qed

lemma lines_from_newline:
  "list_all (\<lambda>c. \<not> is_newline c) l \<Longrightarrow> lines_from cur (l @ CHR 0x0A # s) = (rev cur @ l) # lines_from [] s"
  by (induction l arbitrary: cur) (simp_all add: is_newline_def)

lemma splitlines_cons: "list_all (\<lambda>c. \<not> is_newline c) l \<Longrightarrow> splitlines (l @ CHR 0x0A # s) = l # splitlines s"
  by (simp add: splitlines_def lines_from_newline)

lemma dump_row_no_newline: "list_all (\<lambda>c. \<not> is_newline c) (dump_row bs)"
proof (induction bs)
  case (Cons w bs)
  then show ?case using hex_byte_split [of w] by (auto simp: dump_row_def cell_def is_newline_def)
qed (simp add: dump_row_def)

text \<open>The lines of a dump: each a row of values, possibly behind a tab, or empty.\<close>

fun dump_text :: "(bool \<times> bytes) list \<Rightarrow> string" where
  "dump_text [] = []"
| "dump_text ((tab, bs) # rows) = (if tab then [CHR 0x09] else []) @ dump_row bs @ CHR 0x0A # dump_text rows"

lemma hex_cells_tab [simp]: "hex_cells (CHR 0x09 # s) = hex_cells s"
  by (cases s rule: hex_cells.cases) simp_all

lemma strip_tabs_row: "strip_tabs ((if tab then [CHR 0x09] else []) @ dump_row bs) = dump_row bs"
  by (cases bs) (auto simp: strip_tabs_def dump_row_def cell_def)

lemma row_line: "bs \<noteq> [] \<Longrightarrow> prefix ''0x'' (dump_row bs)"
  by (cases bs) (simp_all add: dump_row_def cell_def)

lemma dump_lines_rows:
  "dump_lines (splitlines (dump_text rows @ s)) out = dump_lines (splitlines s) (out @ concat (map snd rows))"
proof (induction rows arbitrary: out)
  case (Cons row rows)
  obtain tab bs where row: "row = (tab, bs)" by (cases row)
  let ?l = "(if tab then [CHR 0x09] else []) @ dump_row bs"
  have lines: "splitlines (dump_text (row # rows) @ s) = ?l # splitlines (dump_text rows @ s)"
    using splitlines_cons [of ?l "dump_text rows @ s"] dump_row_no_newline [of bs] by (simp add: row is_newline_def)
  show ?case
  proof (cases "bs = []")
    case True
    then have "strip_blank ?l = []" "\<not> prefix ''0x'' (strip_tabs ?l)"
      by (simp_all add: strip_blank_def dump_row_def is_blank_def strip_tabs_def)
    then show ?thesis unfolding lines using Cons.IH [of out] by (simp add: row True del: append_assoc)
  next
    case False
    have "hex_cells ?l = bs" using hex_cells_row(1) [of bs] by simp
    then show ?thesis
      unfolding lines using Cons.IH [of "out @ bs"] row_line [OF False] strip_tabs_row [of tab bs] by (simp add: row)
  qed
qed simp

lemma compare_differences:
  assumes "compare_ofm a b = Inr d"
  shows "length a = length b"
    and "od_positions d = filter (\<lambda>i. a ! i \<noteq> b ! i) [0..<length a]"
    and "od_mismatch_count d = 0 \<longleftrightarrow> a = b"
    and "od_max_abs_diff d \<le> 255"
    and "od_signed_diff d = map (\<lambda>i. int8 (a ! i) - int8 (b ! i)) (od_positions d)"
proof -
  from assms have len: "length a = length b" and d: "od_positions d = filter (\<lambda>i. a ! i \<noteq> b ! i) [0..<length a]"
    "od_mismatch_count d = length (od_positions d)" "od_signed_diff d = map (\<lambda>i. int8 (a ! i) - int8 (b ! i)) (od_positions d)"
    "od_max_abs_diff d = foldr max (map abs (od_signed_diff d)) 0"
    by (auto simp: compare_ofm_def Let_def split: if_splits)
  show "length a = length b" "od_positions d = filter (\<lambda>i. a ! i \<noteq> b ! i) [0..<length a]"
    "od_signed_diff d = map (\<lambda>i. int8 (a ! i) - int8 (b ! i)) (od_positions d)" by (rule len d)+
  show "od_mismatch_count d = 0 \<longleftrightarrow> a = b"
    unfolding d(2) d(1) using len by (auto simp: filter_empty_conv intro: nth_equalityI)
  have range: "- 128 \<le> int8 w \<and> int8 w \<le> 127" for w
    by (insert uint_byte_bounds(1) [of w] uint_byte_bounds(2) [of w], cases "127 < uint w";
        simp only: int8_def if_True if_False; linarith)
  have bound: "\<bar>int8 x - int8 y\<bar> \<le> 255" for x y using range [of x] range [of y] by linarith
  have small: "foldr max (map abs xs) 0 \<le> 255" if "list_all (\<lambda>x. \<bar>x\<bar> \<le> 255) xs" for xs :: "int list"
    using that by (induction xs) auto
  show "od_max_abs_diff d \<le> 255" unfolding d(4)
    by (rule small) (simp add: d(3) list_all_iff bound)
qed

definition golden_conditions :: "string \<Rightarrow> blob_meta \<Rightarrow> frozen_entry \<Rightarrow> string \<Rightarrow> bytes \<Rightarrow> bytes \<Rightarrow> bytes \<Rightarrow> bool" where
  "golden_conditions txt meta frozen vsha tfl ifm ofm \<longleftrightarrow>
     length ifm = mt_ifm_len meta \<and> length ofm = mt_ofm_len meta \<and> vsha = mt_vela_sha256 meta
     \<and> list_all (\<lambda>t. occurs_in t txt) TA_LINES
     \<and> mt_model_sha256 meta = fz_model_sha256 frozen \<and> mt_cms_sha256 meta = fz_cms_sha256 frozen
     \<and> mt_ifm_sha256 meta = sha256 ifm \<and> mt_golden_sha256 meta = sha256 ofm
     \<and> mt_tflite_ofm_sha256 meta = sha256 tfl \<and> length ofm = length tfl"

lemma golden_entry_of_cases:
  "golden_entry_of txt meta frozen vsha tfl = Inr e \<longleftrightarrow>
    (\<exists>ifm ofm diag g. dump_section txt IFM_MARK = Inr ifm \<and> dump_section txt OFM_MARK = Inr ofm
      \<and> golden_conditions txt meta frozen vsha tfl ifm ofm \<and> compare_ofm ofm tfl = Inr diag
      \<and> validity txt meta frozen vsha = Inr g
      \<and> e = \<lparr>ge_frozen = frozen, ge_blob_sha256 = mt_blob_sha256 meta, ge_input_sha256 = mt_ifm_sha256 meta,
              ge_ofm_sha256 = mt_golden_sha256 meta, ge_mlek_vela_sha256 = vsha, ge_validity = g,
              ge_tflite_ofm_sha256 = mt_tflite_ofm_sha256 meta, ge_diagnostic = diag\<rparr>)"
proof (cases "dump_section txt IFM_MARK")
  case (Inl x)
  then show ?thesis by (simp add: golden_entry_of_def validity_def)
next
  case ifm: (Inr ifm)
  show ?thesis
  proof (cases "dump_section txt OFM_MARK")
    case (Inl x)
    then show ?thesis by (simp add: golden_entry_of_def validity_def ifm)
  next
    case (Inr ofm)
    then show ?thesis
      by (auto simp: golden_entry_of_def validity_def ifm golden_conditions_def compare_ofm_def Let_def bind_res_eq_Inr)
  qed
qed

section \<open>Properties\<close>

text \<open>C28. A tensor that the board dumps behind the first occurrence of a mark is read back byte for byte, whatever the
  rest of the mark's line, with or without the tab that the transport may drop, across empty lines, and up to the
  first other line, whose text and successors do not matter.\<close>

theorem dump_read_back:
  assumes "txt = pre @ mark @ eol @ CHR 0x0A # dump_text rows @ stop @ CHR 0x0A # post"
    and "find_sub mark txt = Some (length pre)"
    and "list_all (\<lambda>c. \<not> is_newline c) eol" and "list_all (\<lambda>c. \<not> is_newline c) stop"
    and "strip_blank stop \<noteq> []" and "\<not> prefix ''0x'' (strip_tabs stop)" and "concat (map snd rows) \<noteq> []"
  shows "dump_section txt mark = Inr (concat (map snd rows))"
proof -
  have "drop (length pre + length mark) txt = eol @ CHR 0x0A # dump_text rows @ stop @ CHR 0x0A # post"
    unfolding assms(1) by simp
  then have "dump_section txt mark = Inr (dump_lines (splitlines (dump_text rows @ stop @ CHR 0x0A # post)) [])"
    using splitlines_cons [OF assms(3)] by (simp add: dump_section_def assms(2))
  also have "\<dots> = Inr (concat (map snd rows))"
    unfolding dump_lines_rows splitlines_cons [OF assms(4)] using assms(5-7) by simp
  finally show ?thesis .
qed

theorem dump_read_back_witness:
  "dump_section (''x'' @ IFM_MARK @ [] @ CHR 0x0A # dump_text [(False, []), (True, [0xff, 0x80]), (False, [7])]
     @ ''INFO'' @ CHR 0x0A # []) IFM_MARK = Inr [0xff, 0x80, 7]"
proof -
  let ?t = "''x'' @ IFM_MARK @ [] @ CHR 0x0A # dump_text [(False, []), (True, [0xff, 0x80]), (False, [7 :: byte])]
     @ ''INFO'' @ CHR 0x0A # []"
  have "find_sub IFM_MARK ?t = Some (length ''x'')" by (simp add: IFM_MARK_def)
  from dump_read_back [OF refl this] show ?thesis
    by (simp add: is_newline_def strip_blank_def is_blank_def strip_tabs_def)
qed

text \<open>C29. A golden gets a manifest entry exactly when both dumps are in the log with the lengths and digests of the
  packed blob, the Vela output, the model and the command stream are the expected ones, the log shows both timing
  adapters configured, and the reference output has its digest and the length of the dump. The entry then carries the
  blob's digests, and its diagnostic lists exactly the differing positions with their signed differences.\<close>

theorem golden_entry_exact:
  "(case golden_entry_of txt meta frozen vsha tfl of
      Inl _ \<Rightarrow> \<not> (\<exists>ifm ofm. dump_section txt IFM_MARK = Inr ifm \<and> dump_section txt OFM_MARK = Inr ofm
        \<and> golden_conditions txt meta frozen vsha tfl ifm ofm)
    | Inr e \<Rightarrow> \<exists>ifm ofm. dump_section txt IFM_MARK = Inr ifm \<and> dump_section txt OFM_MARK = Inr ofm
        \<and> golden_conditions txt meta frozen vsha tfl ifm ofm
        \<and> ge_ofm_sha256 e = sha256 ofm \<and> ge_input_sha256 e = sha256 ifm \<and> ge_blob_sha256 e = mt_blob_sha256 meta
        \<and> od_positions (ge_diagnostic e) = filter (\<lambda>i. ofm ! i \<noteq> tfl ! i) [0..<length ofm]
        \<and> od_signed_diff (ge_diagnostic e) = map (\<lambda>i. int8 (ofm ! i) - int8 (tfl ! i)) (od_positions (ge_diagnostic e))
        \<and> (od_mismatch_count (ge_diagnostic e) = 0) = (ofm = tfl) \<and> od_max_abs_diff (ge_diagnostic e) \<le> 255)"
proof (cases "golden_entry_of txt meta frozen vsha tfl")
  case (Inl x)
  have "golden_entry_of txt meta frozen vsha tfl \<noteq> Inl x"
    if w: "dump_section txt IFM_MARK = Inr ifm" "dump_section txt OFM_MARK = Inr ofm"
      "golden_conditions txt meta frozen vsha tfl ifm ofm" for ifm ofm
  proof -
    obtain diag where "compare_ofm ofm tfl = Inr diag"
      using w(3) by (simp add: compare_ofm_def Let_def golden_conditions_def)
    moreover obtain g where "validity txt meta frozen vsha = Inr g" using w(1,2) by (simp add: validity_def)
    ultimately show ?thesis using iffD2 [OF golden_entry_of_cases] w by (metis Inl_Inr_False)
  qed
  with Inl show ?thesis by auto
next
  case (Inr e)
  from iffD1 [OF golden_entry_of_cases Inr] obtain ifm ofm diag g where
    e: "dump_section txt IFM_MARK = Inr ifm" "dump_section txt OFM_MARK = Inr ofm"
      "golden_conditions txt meta frozen vsha tfl ifm ofm" "compare_ofm ofm tfl = Inr diag"
      "ge_ofm_sha256 e = mt_golden_sha256 meta" "ge_input_sha256 e = mt_ifm_sha256 meta"
      "ge_blob_sha256 e = mt_blob_sha256 meta" "ge_diagnostic e = diag" by auto
  show ?thesis
    unfolding Inr sum.case e(5-8) using e(1-3) compare_differences [OF e(4)]
    by (intro exI [of _ ifm] exI [of _ ofm]) (simp add: golden_conditions_def)
qed

end
