(* ===== verification/Workload_Pack.thy ===== *)
theory Workload_Pack
  imports Baseline_Gate Vela_Payload Golden
begin

text \<open>
  \<open>host/container/pack_vela_workload.py\<close>: from a compiled model to a PMWL blob and its description, and
  \<open>host/lib/mlek_profile.py\<close> for the knob arguments. What the tflite package reads from the compiled model is the record
  \<open>tfl_model\<close>, tflite_runtime and numpy's generator are the record \<open>interp\<close>; Vela has run, its output is an argument.
\<close>

section \<open>The compiled model\<close>

record tensor =
  tn_name :: string
  tn_shape :: "int list"
  tn_buffer :: int

record tfl_op =
  op_custom :: "string option"
  op_inputs :: "int list"
  op_outputs :: "int list"

text \<open>\<open>sg.Tensors(i)\<close> and \<open>m.Buffers(i)\<close> are the accessors of the package; a buffer without data is empty.\<close>

record tfl_model =
  tm_ops :: "tfl_op list"
  tm_tensor :: "int \<Rightarrow> tensor"
  tm_buffer :: "int \<Rightarrow> bytes"
  tm_metadata :: "(string \<times> int) list"

definition tensor_size :: "tensor \<Rightarrow> int" where
  "tensor_size t = np_prod (tn_shape t)"

text \<open>\<open>offs = {ti: o for ti, o in enumerate(w[3:]) if o >= 0}\<close>, of the last table among the metadata. An empty buffer
  gives numpy's \<open>DataAsNumpy\<close> the number 0, which has no \<open>tobytes\<close>.\<close>

definition table_offsets :: "bytes \<Rightarrow> exn + (int, int) dict" where
  "table_offsets raw =
     (if raw = [] then Inl AttributeError
      else bind_res (struct_unpack (replicate (length raw div 4) Fi) raw) (\<lambda>w.
        let vs = drop 3 w in Inr (filter (\<lambda>(_, v). 0 \<le> v) (zip (map int [0..<length vs]) vs))))"

fun alloc_offsets :: "(int \<Rightarrow> bytes) \<Rightarrow> (string \<times> int) list \<Rightarrow> (int, int) dict \<Rightarrow> exn + (int, int) dict" where
  "alloc_offsets buffer [] offs = Inr offs"
| "alloc_offsets buffer ((name, b) # mds) offs =
     (if name = ''OfflineMemoryAllocation''
      then bind_res (table_offsets (buffer b)) (\<lambda>offs'. alloc_offsets buffer mds offs')
      else alloc_offsets buffer mds offs)"

record io_tensor =
  io_name :: string
  io_off :: int
  io_len :: int

record vela_info =
  vi_cms :: bytes
  vi_const :: bytes
  vi_arena_size :: int
  vi_fast_size :: int
  vi_ifms :: "io_tensor list"
  vi_ofms :: "io_tensor list"

definition io_tensor_of :: "tfl_model \<Rightarrow> (int, int) dict \<Rightarrow> int \<Rightarrow> io_tensor" where
  "io_tensor_of m offs ti =
     \<lparr>io_name = tn_name (tm_tensor m ti), io_off = the (map_of offs ti), io_len = tensor_size (tm_tensor m ti)\<rparr>"

definition inspect_vela :: "tfl_model \<Rightarrow> exn + vela_info" where
  "inspect_vela m =
     (case tm_ops m of
        [op] \<Rightarrow>
          let t = (\<lambda>k. tm_tensor m (op_inputs op ! k)); data = (\<lambda>k. tm_buffer m (tn_buffer (t k))) in
          if op_custom op \<noteq> Some ''ethos-u'' then Inl (SystemExit ''the single op is not ethos-u'')
          else if length (op_inputs op) < 5 \<or> length (op_outputs op) < 1
              \<or> length (op_inputs op) - 4 + length (op_outputs op) > IO_MAX
          then Inl (SystemExit ''expected inputs / outputs'')
          else bind_res (alloc_offsets (tm_buffer m) (tm_metadata m) []) (\<lambda>offs.
            let ifm_ts = drop 4 (op_inputs op); ofm_ts = op_outputs op in
            if \<exists>ti \<in> set (ifm_ts @ ofm_ts). map_of offs ti = None
            then Inl (SystemExit ''OfflineMemoryAllocation lacks IFM/OFM offsets'')
            else bind_res (extract_cms (data 0)) (\<lambda>cms.
              Inr \<lparr>vi_cms = cms, vi_const = data 1, vi_arena_size = tensor_size (t 2), vi_fast_size = tensor_size (t 3),
                   vi_ifms = map (io_tensor_of m offs) ifm_ts, vi_ofms = map (io_tensor_of m offs) ofm_ts\<rparr>))
      | _ \<Rightarrow> Inl (SystemExit ''needs exactly one ethos-u op''))"

text \<open>The dictionary as \<open>pmwl.pack\<close> reads it.\<close>

definition io_range :: "io_tensor \<Rightarrow> int \<times> int" where
  "io_range e = (io_off e, io_len e)"

definition pack_info_of :: "vela_info \<Rightarrow> pack_info" where
  "pack_info_of vi =
     \<lparr>pi_cms = vi_cms vi, pi_const = vi_const vi, pi_arena_size = vi_arena_size vi, pi_fast_size = vi_fast_size vi,
      pi_inputs = map io_range (vi_ifms vi), pi_outputs = map io_range (vi_ofms vi),
      pi_ifm = Some (io_range (hd (vi_ifms vi))), pi_ofm = Some (io_range (hd (vi_ofms vi)))\<rparr>"

section \<open>The reference outputs\<close>

record detail =
  dt_name :: string
  dt_index :: int

text \<open>\<open>it_draw\<close> draws the bytes of a tensor from the generator, \<open>it_view\<close> is \<open>frombuffer(...).reshape(...)\<close>, and
  \<open>it_invoke\<close> is the tensor at an index after an inference on the given inputs.\<close>

record 'g interp =
  it_inputs :: "detail list"
  it_outputs :: "detail list"
  it_rng :: "int \<Rightarrow> 'g"
  it_draw :: "'g \<Rightarrow> detail \<Rightarrow> bytes \<times> 'g"
  it_view :: "detail \<Rightarrow> bytes \<Rightarrow> exn + bytes"
  it_invoke :: "(int \<times> bytes) list \<Rightarrow> int \<Rightarrow> bytes"

fun named_details :: "detail list \<Rightarrow> string list \<Rightarrow> exn + detail list" where
  "named_details ds [] = Inr []"
| "named_details ds (n # ns) =
     (case filter (\<lambda>d. dt_name d = n) ds of
        [] \<Rightarrow> Inl (SystemExit ''Vela IFM/OFM names not all in the original model'')
      | d # _ \<Rightarrow> bind_res (named_details ds ns) (\<lambda>rest. Inr (d # rest)))"

definition by_name :: "detail list \<Rightarrow> string list \<Rightarrow> exn + detail list" where
  "by_name ds names = (if names = [] then Inr ds else named_details ds names)"

fun input_tensors :: "'g interp \<Rightarrow> bytes option \<Rightarrow> 'g \<Rightarrow> detail list \<Rightarrow> exn + (int \<times> bytes) list" where
  "input_tensors I ifm g [] = Inr []"
| "input_tensors I ifm g (d # ds) =
     bind_res (case ifm of Some b \<Rightarrow> bind_res (it_view I d b) (\<lambda>x. Inr (x, g)) | None \<Rightarrow> Inr (it_draw I g d)) (\<lambda>(x, g').
     bind_res (input_tensors I ifm g' ds) (\<lambda>xs. Inr ((dt_index d, x) # xs)))"

definition reference :: "'g interp \<Rightarrow> int \<Rightarrow> bytes option \<Rightarrow> string list \<Rightarrow> string list \<Rightarrow> exn + bytes list \<times> bytes list" where
  "reference I seed ifm in_names out_names =
     bind_res (by_name (it_inputs I) in_names) (\<lambda>ins.
     bind_res (by_name (it_outputs I) out_names) (\<lambda>outs.
     if ifm \<noteq> None \<and> length ins \<noteq> 1 then Inl (SystemExit ''--ifm gives one IFM'')
     else bind_res (input_tensors I ifm (it_rng I seed) ins) (\<lambda>xs.
       Inr (map snd xs, map (\<lambda>d. it_invoke I xs (dt_index d)) outs))))"

section \<open>Knob arguments\<close>

record knob_args =
  ka_axi :: "string option"
  ka_ports :: "(string, string) dict"
  ka_axi_limit :: "(string, int) dict"
  ka_power_ctrl :: "int option"
  ka_fast_base :: "int option"
  ka_ta_profile :: "int option"

definition knob_args :: "profile \<Rightarrow> exn + knob_args" where
  "knob_args prof =
     bind_res (parse_ports (pf_ports prof)) (\<lambda>ports.
     bind_res (parse_axi_limit (pf_axi_limit prof)) (\<lambda>axi_limit.
     bind_res (int_base0 (pf_fast_base prof)) (\<lambda>fast_base.
       Inr \<lparr>ka_axi = None, ka_ports = ports, ka_axi_limit = axi_limit, ka_power_ctrl = pf_power_ctrl prof,
            ka_fast_base = Some fast_base, ka_ta_profile = pf_ta_profile prof\<rparr>)))"

definition knob_words :: "knob_args \<Rightarrow> exn + int list" where
  "knob_words ka =
     knobs (case ka_axi ka of None \<Rightarrow> [] | Some s \<Rightarrow> s) (ka_ports ka) (ka_axi_limit ka) (ka_power_ctrl ka)
       (ka_fast_base ka) (ka_ta_profile ka)"

lemma profile_knobs_words: "profile_knobs prof = bind_res (knob_args prof) knob_words"
  by (auto simp: profile_knobs_def knob_args_def knob_words_def bind_res_def split: sum.splits)

section \<open>The packer\<close>

text \<open>A profile file: the knobs, and what fixes the input and Vela.\<close>

record pack_profile =
  pp_prof :: profile
  pp_seed :: int
  pp_vela_version :: string
  pp_vela_options :: "string list"

record pack_args =
  pa_seed :: int
  pa_axi :: "string option"
  pa_axi_limit :: "string option"
  pa_power_ctrl :: "int option"
  pa_fast_base :: "int option"
  pa_ta_profile :: "int option"
  pa_ports :: "string option"
  pa_profile :: "pack_profile option"
  pa_ifm :: "bytes option"
  pa_golden :: "bytes option"

definition no_knob_flag :: "pack_args \<Rightarrow> bool" where
  "no_knob_flag a \<longleftrightarrow> pa_axi a = None \<and> pa_axi_limit a = None \<and> pa_power_ctrl a = None \<and> pa_fast_base a = None
     \<and> pa_ta_profile a = None \<and> pa_ports a = None"

text \<open>The knob arguments and the seed.\<close>

definition pack_choice :: "pack_args \<Rightarrow> string \<Rightarrow> exn + knob_args \<times> int" where
  "pack_choice a vela_version =
     (case pa_profile a of
        Some pp \<Rightarrow>
          if \<not> no_knob_flag a then Inl (SystemExit ''--profile fixes every knob'')
          else bind_res (check_vela (pp_vela_version pp) (pp_vela_options pp) vela_version) (\<lambda>_.
            bind_res (knob_args (pp_prof pp)) (\<lambda>ka. Inr (ka, pp_seed pp)))
      | None \<Rightarrow>
          bind_res (parse_ports (pa_ports a)) (\<lambda>ports.
          bind_res (parse_axi_limit (pa_axi_limit a)) (\<lambda>axi_limit.
            Inr (\<lparr>ka_axi = pa_axi a, ka_ports = ports, ka_axi_limit = axi_limit, ka_power_ctrl = pa_power_ctrl a,
                  ka_fast_base = pa_fast_base a, ka_ta_profile = pa_ta_profile a\<rparr>, pa_seed a))))"

definition goldens_of :: "bytes option \<Rightarrow> bytes list \<Rightarrow> exn + bytes list" where
  "goldens_of given golds =
     (case given of
        None \<Rightarrow> Inr golds
      | Some b \<Rightarrow> if length golds \<noteq> 1 then Inl (SystemExit ''--golden gives one OFM'') else Inr [b])"

text \<open>The description beside the blob, without the copies of the arguments; \<open>blob_meta\<close> is the part other programs read.\<close>

record pack_meta = blob_meta +
  mt_seed :: int
  mt_cms_len :: nat
  mt_const_len :: nat
  mt_arena_size :: int
  mt_fast_size :: int
  mt_ifm_off :: int
  mt_ofm_off :: int
  mt_total :: nat
  mt_header_version :: int
  mt_knobs :: "string list"
  mt_ifms :: "(io_tensor \<times> string) list"
  mt_ofms :: "(io_tensor \<times> string) list"

definition knob_text :: "int \<Rightarrow> string" where
  "knob_text w = ''0x'' @ hex_lower 8 w"

text \<open>\<open>ifms\<close> and \<open>ofms\<close> are in the description only when there is more than one of either.\<close>

definition meta_of ::
    "bytes \<Rightarrow> bytes \<Rightarrow> vela_info \<Rightarrow> bytes list \<Rightarrow> bytes list \<Rightarrow> string \<Rightarrow> int list \<Rightarrow> int \<Rightarrow> bytes \<Rightarrow> pmwl_header \<Rightarrow> pack_meta" where
  "meta_of model vela_out info ifms golds tflite_sha kw seed blob h =
     (let one = (length ifms = 1 \<and> length golds = 1); ifm = concat ifms; gold = concat golds in
      \<lparr>mt_ifm_len = length ifm, mt_ofm_len = length gold, mt_vela_sha256 = sha256 vela_out,
       mt_model_sha256 = sha256 model, mt_cms_sha256 = sha256 (vi_cms info), mt_ifm_sha256 = sha256 ifm,
       mt_golden_sha256 = sha256 gold, mt_tflite_ofm_sha256 = tflite_sha, mt_blob_sha256 = sha256 blob,
       mt_seed = seed, mt_cms_len = length (vi_cms info), mt_const_len = length (vi_const info),
       mt_arena_size = vi_arena_size info, mt_fast_size = vi_fast_size info,
       mt_ifm_off = io_off (hd (vi_ifms info)), mt_ofm_off = io_off (hd (vi_ofms info)), mt_total = length blob,
       mt_header_version = ph_field ''version'' h, mt_knobs = map knob_text kw,
       mt_ifms = (if one then [] else zip (vi_ifms info) (map sha256 ifms)),
       mt_ofms = (if one then [] else zip (vi_ofms info) (map sha256 golds))\<rparr>)"

definition pack_main ::
    "'g interp \<Rightarrow> string \<Rightarrow> tfl_model \<Rightarrow> bytes \<Rightarrow> bytes \<Rightarrow> pack_args \<Rightarrow> exn + bytes \<times> pack_meta" where
  "pack_main I vela_version tfl vela_out model a =
     bind_res (pack_choice a vela_version) (\<lambda>(ka, seed).
     bind_res (inspect_vela tfl) (\<lambda>info.
     bind_res (reference I seed (pa_ifm a) (map io_name (vi_ifms info)) (map io_name (vi_ofms info))) (\<lambda>(ifms, golds).
     let tflite_sha = sha256 (concat golds) in
     bind_res (goldens_of (pa_golden a) golds) (\<lambda>golds.
     bind_res (knob_words ka) (\<lambda>kw.
     bind_res (pack (pack_info_of info) (Many ifms) (Many golds) kw) (\<lambda>blob.
     bind_res (parse_header blob) (\<lambda>h.
       Inr (blob, meta_of model vela_out info ifms golds tflite_sha kw seed blob h))))))))"

section \<open>What a packed workload is\<close>

text \<open>\<open>blob[off:off + len]\<close> of an entry of the header.\<close>

definition entry_data :: "bytes \<Rightarrow> entry \<Rightarrow> bytes" where
  "entry_data blob e = (case e of (_, n, d) \<Rightarrow> py_slice (nat d) (nat (d + n)) blob)"

definition entry_range :: "entry \<Rightarrow> int \<times> int" where
  "entry_range e = (case e of (a, n, _) \<Rightarrow> (a, n))"

lemma pack_described:
  assumes "pack (pack_info_of info) (Many ifms) (Many golds) kws = Inr blob" "vi_ifms info \<noteq> []" "vi_ofms info \<noteq> []"
  obtains h where "parse_header blob = Inr h"
    "map entry_range (ph_inputs h) = map io_range (vi_ifms info)" "map entry_range (ph_outputs h) = map io_range (vi_ofms info)"
    "map (entry_data blob) (ph_inputs h) = ifms" "map (entry_data blob) (ph_outputs h) = golds"
    "py_slice (nat (ph_field ''cms_off'' h)) (nat (ph_field ''cms_off'' h + ph_field ''cms_len'' h)) blob = vi_cms info"
    "py_slice (nat (ph_field ''const_off'' h)) (nat (ph_field ''const_off'' h + ph_field ''const_len'' h)) blob = vi_const info"
    "ph_knobs h = full_knobs kws"
proof -
  from assms(1) obtain ins outs hw ents version cms_off const_off where
    p: "tensors (pi_inputs (pack_info_of info)) (pi_ifm (pack_info_of info)) = Inr ins"
      "tensors (pi_outputs (pack_info_of info)) (pi_ofm (pack_info_of info)) = Inr outs"
      "length (payload_list (Many ifms)) = length ins"
      "parse_header blob = Inr \<lparr>ph_words = hw, ph_knobs = full_knobs kws,
         ph_inputs = take (length ins) ents, ph_outputs = drop (length ins) ents\<rparr>"
      "hw = header_words (pack_info_of info) version cms_off const_off (ents ! 0) (ents ! length ins) (length blob)"
      "py_slice cms_off (cms_off + length (pi_cms (pack_info_of info))) blob = pi_cms (pack_info_of info)"
      "py_slice const_off (const_off + length (pi_const (pack_info_of info))) blob = pi_const (pack_info_of info)"
      "map (\<lambda>(a, ln, d). (a, ln)) ents = ins @ outs"
      "map (\<lambda>(a, ln, d). py_slice (nat d) (nat (d + ln)) blob) ents = payload_list (Many ifms) @ payload_list (Many golds)"
    by (rule pack_parse)
  have io: "ins = map io_range (vi_ifms info)" "outs = map io_range (vi_ofms info)"
    using p(1,2) assms(2,3) by (simp_all add: pack_info_of_def tensors_def)
  have e: "map entry_range ents = ins @ outs" using p(8) by (simp add: entry_range_def [abs_def])
  have d: "map (entry_data blob) ents = ifms @ golds" using p(9) by (simp add: entry_data_def [abs_def])
  have f: "ph_field ''cms_off'' h = ph_words h ! 2" "ph_field ''cms_len'' h = ph_words h ! 3"
    "ph_field ''const_off'' h = ph_words h ! 4" "ph_field ''const_len'' h = ph_words h ! 5" for h
    by (simp_all add: ph_field_def HEADER_FIELDS_def numeral_eq_Suc)
  show thesis
  proof (rule that [OF p(4)])
    show "map entry_range (ph_inputs \<lparr>ph_words = hw, ph_knobs = full_knobs kws, ph_inputs = take (length ins) ents,
        ph_outputs = drop (length ins) ents\<rparr>) = map io_range (vi_ifms info)"
      "map entry_range (ph_outputs \<lparr>ph_words = hw, ph_knobs = full_knobs kws, ph_inputs = take (length ins) ents,
        ph_outputs = drop (length ins) ents\<rparr>) = map io_range (vi_ofms info)"
      using e by (simp_all add: io flip: take_map drop_map)
    show "map (entry_data blob) (ph_inputs \<lparr>ph_words = hw, ph_knobs = full_knobs kws, ph_inputs = take (length ins) ents,
        ph_outputs = drop (length ins) ents\<rparr>) = ifms"
      "map (entry_data blob) (ph_outputs \<lparr>ph_words = hw, ph_knobs = full_knobs kws, ph_inputs = take (length ins) ents,
        ph_outputs = drop (length ins) ents\<rparr>) = golds"
      using d p(3) by (simp_all flip: take_map drop_map)
  qed (use p(6,7) in \<open>simp_all add: f p(5) header_words_def nat_int_add pack_info_of_def\<close>)
qed

lemma knob_words_full: "knob_words ka = Inr kw \<Longrightarrow> full_knobs kw = kw"
  unfolding knob_words_def by (rule knobs_full)

lemma inspect_velaD:
  assumes "inspect_vela m = Inr info"
  obtains op offs where "tm_ops m = [op]" "op_custom op = Some ''ethos-u''" "alloc_offsets (tm_buffer m) (tm_metadata m) [] = Inr offs"
    "extract_cms (tm_buffer m (tn_buffer (tm_tensor m (op_inputs op ! 0)))) = Inr (vi_cms info)"
    "vi_const info = tm_buffer m (tn_buffer (tm_tensor m (op_inputs op ! 1)))"
    "vi_arena_size info = tensor_size (tm_tensor m (op_inputs op ! 2))"
    "vi_fast_size info = tensor_size (tm_tensor m (op_inputs op ! 3))"
    "vi_ifms info = map (io_tensor_of m offs) (drop 4 (op_inputs op))" "vi_ofms info = map (io_tensor_of m offs) (op_outputs op)"
    "vi_ifms info \<noteq> []" "vi_ofms info \<noteq> []"
    "\<forall>ti \<in> set (drop 4 (op_inputs op) @ op_outputs op). map_of offs ti \<noteq> None"
proof -
  from assms obtain op where op: "tm_ops m = [op]" by (auto simp: inspect_vela_def split: list.splits)
  obtain offs where offs: "alloc_offsets (tm_buffer m) (tm_metadata m) [] = Inr offs"
    using assms by (cases "alloc_offsets (tm_buffer m) (tm_metadata m) []") (simp_all add: inspect_vela_def op Let_def split: if_splits)
  from assms have g: "op_custom op = Some ''ethos-u''" "drop 4 (op_inputs op) \<noteq> []" "op_outputs op \<noteq> []"
    by (auto simp: inspect_vela_def op Let_def split: if_splits)
  from assms have known: "\<not> (\<exists>ti \<in> set (drop 4 (op_inputs op) @ op_outputs op). map_of offs ti = None)"
    by (auto simp: inspect_vela_def op offs Let_def simp del: bex_simps split: if_splits)
  from assms known g have "extract_cms (tm_buffer m (tn_buffer (tm_tensor m (op_inputs op ! 0)))) = Inr (vi_cms info)
    \<and> vi_const info = tm_buffer m (tn_buffer (tm_tensor m (op_inputs op ! 1)))
    \<and> vi_arena_size info = tensor_size (tm_tensor m (op_inputs op ! 2))
    \<and> vi_fast_size info = tensor_size (tm_tensor m (op_inputs op ! 3))
    \<and> vi_ifms info = map (io_tensor_of m offs) (drop 4 (op_inputs op)) \<and> vi_ofms info = map (io_tensor_of m offs) (op_outputs op)"
    by (auto simp: inspect_vela_def op offs Let_def split: if_splits)
  with that [OF op g(1) offs] known g(2,3) show thesis by simp
qed

lemma goldens_of_Inr: "goldens_of given golds = Inr used \<Longrightarrow> used = (case given of None \<Rightarrow> golds | Some b \<Rightarrow> [b])"
  by (auto simp: goldens_of_def split: option.splits if_splits)

text \<open>The steps of the packer, in order.\<close>

lemma pack_mainD:
  assumes "pack_main I vela_version tfl vela_out model a = Inr (blob, meta)"
  obtains ka seed info ifms golds used kw h where
    "pack_choice a vela_version = Inr (ka, seed)" "inspect_vela tfl = Inr info"
    "reference I seed (pa_ifm a) (map io_name (vi_ifms info)) (map io_name (vi_ofms info)) = Inr (ifms, golds)"
    "used = (case pa_golden a of None \<Rightarrow> golds | Some b \<Rightarrow> [b])" "knob_words ka = Inr kw"
    "pack (pack_info_of info) (Many ifms) (Many used) kw = Inr blob" "parse_header blob = Inr h"
    "meta = meta_of model vela_out info ifms used (sha256 (concat golds)) kw seed blob h"
proof -
  from assms obtain p where c: "pack_choice a vela_version = Inr p" by (auto simp: pack_main_def)
  obtain ka seed where p: "p = (ka, seed)" by (cases p)
  from assms obtain info where i: "inspect_vela tfl = Inr info" by (auto simp: pack_main_def c p)
  from assms obtain q where r: "reference I seed (pa_ifm a) (map io_name (vi_ifms info)) (map io_name (vi_ofms info)) = Inr q"
    by (auto simp: pack_main_def c p i)
  obtain ifms golds where q: "q = (ifms, golds)" by (cases q)
  from assms obtain used where g: "goldens_of (pa_golden a) golds = Inr used"
    by (auto simp: pack_main_def c p i r q Let_def)
  from assms obtain kw where k: "knob_words ka = Inr kw" by (auto simp: pack_main_def c p i r q g Let_def)
  from assms obtain h where
    "pack (pack_info_of info) (Many ifms) (Many used) kw = Inr blob \<and> parse_header blob = Inr h
     \<and> meta = meta_of model vela_out info ifms used (sha256 (concat golds)) kw seed blob h"
    by (auto simp: pack_main_def c p i r q g k Let_def)
  then show thesis
    using that [OF c [unfolded p] i r [unfolded q] goldens_of_Inr [OF g] k] by blast
qed

definition cms_in :: "bytes \<Rightarrow> pmwl_header \<Rightarrow> bytes" where
  "cms_in blob h = py_slice (nat (ph_field ''cms_off'' h)) (nat (ph_field ''cms_off'' h + ph_field ''cms_len'' h)) blob"

definition const_in :: "bytes \<Rightarrow> pmwl_header \<Rightarrow> bytes" where
  "const_in blob h = py_slice (nat (ph_field ''const_off'' h)) (nat (ph_field ''const_off'' h + ph_field ''const_len'' h)) blob"

text \<open>What the blob says of itself and what the description says of the blob.\<close>

lemma pack_main_blob:
  assumes "pack_main I vela_version tfl vela_out model a = Inr (blob, meta)"
  obtains ka seed info ifms golds kw h where
    "pack_choice a vela_version = Inr (ka, seed)" "inspect_vela tfl = Inr info"
    "reference I seed (pa_ifm a) (map io_name (vi_ifms info)) (map io_name (vi_ofms info)) = Inr (ifms, golds)"
    "knob_words ka = Inr kw" "parse_header blob = Inr h"
    "map entry_range (ph_inputs h) = map io_range (vi_ifms info)" "map entry_range (ph_outputs h) = map io_range (vi_ofms info)"
    "map (entry_data blob) (ph_inputs h) = ifms"
    "map (entry_data blob) (ph_outputs h) = (case pa_golden a of None \<Rightarrow> golds | Some b \<Rightarrow> [b])"
    "cms_in blob h = vi_cms info" "const_in blob h = vi_const info" "ph_knobs h = kw" "mt_knobs meta = map knob_text kw"
    "mt_blob_sha256 meta = sha256 blob" "mt_cms_sha256 meta = sha256 (vi_cms info)"
    "mt_ifm_sha256 meta = sha256 (concat (map (entry_data blob) (ph_inputs h)))"
    "mt_golden_sha256 meta = sha256 (concat (map (entry_data blob) (ph_outputs h)))"
proof -
  from assms obtain ka seed info ifms golds used kw h where
    p: "pack_choice a vela_version = Inr (ka, seed)" "inspect_vela tfl = Inr info"
      "reference I seed (pa_ifm a) (map io_name (vi_ifms info)) (map io_name (vi_ofms info)) = Inr (ifms, golds)"
      "used = (case pa_golden a of None \<Rightarrow> golds | Some b \<Rightarrow> [b])" "knob_words ka = Inr kw"
      "pack (pack_info_of info) (Many ifms) (Many used) kw = Inr blob" "parse_header blob = Inr h"
      "meta = meta_of model vela_out info ifms used (sha256 (concat golds)) kw seed blob h"
    by (rule pack_mainD)
  have ne: "vi_ifms info \<noteq> []" "vi_ofms info \<noteq> []" using inspect_velaD [OF p(2)] by metis+
  from pack_described [OF p(6) ne] obtain h' where h': "parse_header blob = Inr h'"
    "map entry_range (ph_inputs h') = map io_range (vi_ifms info)" "map entry_range (ph_outputs h') = map io_range (vi_ofms info)"
    "map (entry_data blob) (ph_inputs h') = ifms" "map (entry_data blob) (ph_outputs h') = used"
    "cms_in blob h' = vi_cms info" "const_in blob h' = vi_const info" "ph_knobs h' = full_knobs kw"
    by (metis cms_in_def const_in_def)
  have e: "h' = h" using h'(1) p(7) by simp
  show thesis
    by (rule that [OF p(1,2,3,5,7)]) (use h' p(4) in \<open>simp_all add: e p(8) meta_of_def Let_def knob_words_full [OF p(5)]\<close>)
qed

section \<open>A workload of one input and one output\<close>

definition sample_profile :: profile where
  "sample_profile = \<lparr>pf_name = ''sample'', pf_ports = Some ''cmd=ext,const=ext,arena=ext,fast=sram'', pf_axi_limit = None,
     pf_power_ctrl = Some 0, pf_fast_base = ''0x31000100'', pf_ta_profile = Some 1, pf_image = [], pf_repeats = 1, pf_warmup = 0\<rparr>"

definition sample_knobs :: "int list" where
  "sample_knobs = [OFF, 10, 2, 0, 0, 4, 4, OFF, OFF, 0, 0x31000100, 1, OFF, OFF, OFF, OFF]"

definition sample_tfl :: tfl_model where
  "sample_tfl =
     \<lparr>tm_ops = [\<lparr>op_custom = Some ''ethos-u'', op_inputs = [0, 1, 2, 3, 4], op_outputs = [5]\<rparr>],
      tm_tensor = (\<lambda>i. the (map_of (map (\<lambda>(j, n, s). (j, \<lparr>tn_name = n, tn_shape = s, tn_buffer = j\<rparr>))
         [(0, ''cms'', []), (1, ''const'', []), (2, ''arena'', [32]), (3, ''fast'', [0]), (4, ''ifm'', [1, 2]), (5, ''ofm'', [3])]) i)),
      tm_buffer = (\<lambda>i. if i = 0 then cop1_payload [Command_stream [0xFFFF0000]] else if i = 1 then [7]
         else concat (map (fmt_enc Fi) [0, 0, 6, -1, -1, -1, -1, 0, 16])),
      tm_metadata = [(''min_runtime_version'', 8), (''OfflineMemoryAllocation'', 9)]\<rparr>"

definition sample_interp :: "unit interp" where
  "sample_interp = \<lparr>it_inputs = [\<lparr>dt_name = ''ifm'', dt_index = 0\<rparr>], it_outputs = [\<lparr>dt_name = ''ofm'', dt_index = 3\<rparr>],
     it_rng = (\<lambda>_. ()), it_draw = (\<lambda>g _. ([1, 2], g)), it_view = (\<lambda>_ b. Inr b), it_invoke = (\<lambda>_ _. [4, 5, 6])\<rparr>"

definition sample_args :: pack_args where
  "sample_args = \<lparr>pa_seed = 1, pa_axi = None, pa_axi_limit = None, pa_power_ctrl = None, pa_fast_base = None,
     pa_ta_profile = None, pa_ports = None,
     pa_profile = Some \<lparr>pp_prof = sample_profile, pp_seed = 1, pp_vela_version = ''4.2'', pp_vela_options = VELA_OPTIONS\<rparr>,
     pa_ifm = None, pa_golden = None\<rparr>"
lemma sample_knob_words: "bind_res (knob_args sample_profile) knob_words = Inr sample_knobs"
  by code_simp

lemma sample_table: "table_offsets (concat (map (fmt_enc Fi) [0, 0, 6, -1, -1, -1, -1, 0, 16])) = Inr [(4, 0), (5, 16)]"
  by code_simp

definition sample_vela :: vela_info where
  "sample_vela = \<lparr>vi_cms = enc_words [0xFFFF0000], vi_const = [7], vi_arena_size = 32, vi_fast_size = 0,
     vi_ifms = [\<lparr>io_name = ''ifm'', io_off = 0, io_len = 2\<rparr>], vi_ofms = [\<lparr>io_name = ''ofm'', io_off = 16, io_len = 3\<rparr>]\<rparr>"

lemma sample_inspected: "inspect_vela sample_tfl = Inr sample_vela"
  using sample_table extract_payload [of "[Command_stream [0xFFFF0000]]"]
  by (simp add: inspect_vela_def sample_tfl_def sample_vela_def IO_MAX_def Let_def io_tensor_of_def tensor_size_def np_prod_def streams_def)

lemma sample_blob: "\<exists>blob. pack (pack_info_of sample_vela) (Many [[1, 2]]) (Many [[4, 5, 6]]) sample_knobs = Inr blob"
proof -
  have v: "blob_version (Suc (Suc 0)) (padded_knobs sample_knobs) = 3" by code_simp
  have k: "words_ok (take 16 (padded_knobs sample_knobs))" by code_simp
  have l: "16 \<le> length (padded_knobs sample_knobs)" by code_simp
  have stop: "stop_ok (fmt_enc FI 0xFFFF0000) = Inr ()" by code_simp
  show ?thesis using l
    by (simp add: pack_def sample_vela_def pack_info_of_def io_range_def tensors_def layout_defs v knob_len_def align_def Let_def stop
        struct_pack_words_iff header_words_def MAGIC_def k del: replicate.simps)
qed

lemma sample_packed:
  obtains blob meta h where "pack_main sample_interp ''4.2'' sample_tfl [] [] sample_args = Inr (blob, meta)"
    "parse_header blob = Inr h"
    "meta = meta_of [] [] sample_vela [[1, 2]] [[4, 5, 6]] (sha256 [4, 5, 6]) sample_knobs 1 blob h"
proof -
  from sample_knob_words obtain ka where ka: "knob_args sample_profile = Inr ka" "knob_words ka = Inr sample_knobs" by auto
  have c: "pack_choice sample_args ''4.2'' = Inr (ka, 1)"
    by (simp add: pack_choice_def sample_args_def no_knob_flag_def check_vela_def ka)
  have r: "reference sample_interp 1 None [''ifm''] [''ofm''] = Inr ([[1, 2]], [[4, 5, 6]])"
    by (simp add: reference_def by_name_def sample_interp_def)
  obtain blob where b: "pack (pack_info_of sample_vela) (Many [[1, 2]]) (Many [[4, 5, 6]]) sample_knobs = Inr blob"
    using sample_blob by blast
  moreover obtain h where "parse_header blob = Inr h" using pack_parse [OF b] by metis
  ultimately show thesis using that c sample_inspected r ka(2)
    by (simp add: pack_main_def sample_vela_def goldens_of_def sample_args_def Let_def)
qed

section \<open>Properties\<close>

text \<open>C34. A packed workload is the compiled model: the blob's IFMs and OFMs stand in the arena where the model's allocation
  table puts them and have the sizes of their shapes; it holds the command stream of the driver payload, the constants,
  the interpreter's inputs and, unless a golden is given, its outputs, and the knob words of the profile or the flags;
  and the digests of the description are those of what the blob holds.\<close>

theorem packed_workload:
  assumes "pack_main I vela_version tfl vela_out model a = Inr (blob, meta)"
  shows "\<exists>op offs ka seed kw ifms golds h.
    tm_ops tfl = [op] \<and> alloc_offsets (tm_buffer tfl) (tm_metadata tfl) [] = Inr offs
    \<and> pack_choice a vela_version = Inr (ka, seed) \<and> knob_words ka = Inr kw \<and> parse_header blob = Inr h
    \<and> reference I seed (pa_ifm a) (map (\<lambda>ti. tn_name (tm_tensor tfl ti)) (drop 4 (op_inputs op)))
        (map (\<lambda>ti. tn_name (tm_tensor tfl ti)) (op_outputs op)) = Inr (ifms, golds)
    \<and> map entry_range (ph_inputs h)
        = map (\<lambda>ti. (the (map_of offs ti), tensor_size (tm_tensor tfl ti))) (drop 4 (op_inputs op))
    \<and> map entry_range (ph_outputs h)
        = map (\<lambda>ti. (the (map_of offs ti), tensor_size (tm_tensor tfl ti))) (op_outputs op)
    \<and> map (entry_data blob) (ph_inputs h) = ifms
    \<and> map (entry_data blob) (ph_outputs h) = (case pa_golden a of None \<Rightarrow> golds | Some b \<Rightarrow> [b])
    \<and> extract_cms (tm_buffer tfl (tn_buffer (tm_tensor tfl (op_inputs op ! 0)))) = Inr (cms_in blob h)
    \<and> const_in blob h = tm_buffer tfl (tn_buffer (tm_tensor tfl (op_inputs op ! 1)))
    \<and> ph_knobs h = kw \<and> mt_knobs meta = map knob_text kw \<and> mt_blob_sha256 meta = sha256 blob
    \<and> mt_cms_sha256 meta = sha256 (cms_in blob h) \<and> mt_ifm_sha256 meta = sha256 (concat ifms)
    \<and> mt_golden_sha256 meta = sha256 (concat (map (entry_data blob) (ph_outputs h)))"
proof -
  from assms obtain ka seed info ifms golds kw h where
    b: "pack_choice a vela_version = Inr (ka, seed)" "inspect_vela tfl = Inr info"
      "reference I seed (pa_ifm a) (map io_name (vi_ifms info)) (map io_name (vi_ofms info)) = Inr (ifms, golds)"
      "knob_words ka = Inr kw" "parse_header blob = Inr h"
      "map entry_range (ph_inputs h) = map io_range (vi_ifms info)" "map entry_range (ph_outputs h) = map io_range (vi_ofms info)"
      "map (entry_data blob) (ph_inputs h) = ifms"
      "map (entry_data blob) (ph_outputs h) = (case pa_golden a of None \<Rightarrow> golds | Some b \<Rightarrow> [b])"
      "cms_in blob h = vi_cms info" "const_in blob h = vi_const info" "ph_knobs h = kw" "mt_knobs meta = map knob_text kw"
      "mt_blob_sha256 meta = sha256 blob" "mt_cms_sha256 meta = sha256 (vi_cms info)"
      "mt_ifm_sha256 meta = sha256 (concat (map (entry_data blob) (ph_inputs h)))"
      "mt_golden_sha256 meta = sha256 (concat (map (entry_data blob) (ph_outputs h)))"
    by (rule pack_main_blob)
  from b(2) obtain op offs where
    i: "tm_ops tfl = [op]" "alloc_offsets (tm_buffer tfl) (tm_metadata tfl) [] = Inr offs"
      "extract_cms (tm_buffer tfl (tn_buffer (tm_tensor tfl (op_inputs op ! 0)))) = Inr (vi_cms info)"
      "vi_const info = tm_buffer tfl (tn_buffer (tm_tensor tfl (op_inputs op ! 1)))"
      "vi_ifms info = map (io_tensor_of tfl offs) (drop 4 (op_inputs op))" "vi_ofms info = map (io_tensor_of tfl offs) (op_outputs op)"
    by (rule inspect_velaD)
  have n: "map io_name (map (io_tensor_of tfl offs) ts) = map (\<lambda>ti. tn_name (tm_tensor tfl ti)) ts"
    "map io_range (map (io_tensor_of tfl offs) ts) = map (\<lambda>ti. (the (map_of offs ti), tensor_size (tm_tensor tfl ti))) ts" for ts
    by (simp_all add: io_tensor_of_def io_range_def)
  note b' = b(3,6,7) [unfolded i(5,6) n]
  show ?thesis
    by (rule exI [of _ op], rule exI [of _ offs], rule exI [of _ ka], rule exI [of _ seed], rule exI [of _ kw],
        rule exI [of _ ifms], rule exI [of _ golds], rule exI [of _ h])
      (use b' b i in \<open>simp add: b(8)\<close>)
qed

lemma packed_workload_witness:
  "\<exists>blob meta h. pack_main sample_interp ''4.2'' sample_tfl [] [] sample_args = Inr (blob, meta) \<and> parse_header blob = Inr h
     \<and> map entry_range (ph_inputs h) = [(0, 2)] \<and> mt_blob_sha256 meta = sha256 blob"
proof -
  obtain blob meta where p: "pack_main sample_interp ''4.2'' sample_tfl [] [] sample_args = Inr (blob, meta)" by (rule sample_packed)
  from packed_workload [OF p] show ?thesis
  proof (elim exE conjE, goal_cases)
    case (1 op offs ka seed kw ifms golds h)
    have "op = \<lparr>op_custom = Some ''ethos-u'', op_inputs = [0, 1, 2, 3, 4], op_outputs = [5]\<rparr>" "offs = [(4, 0), (5, 16)]"
      using 1(1,2) sample_table by (simp_all add: sample_tfl_def)
    with 1(7) have "map entry_range (ph_inputs h) = [(0, 2)]"
      by (simp add: sample_tfl_def tensor_size_def np_prod_def)
    with p 1(5) \<open>mt_blob_sha256 meta = sha256 blob\<close> show ?case
      by (intro exI [of _ blob] exI [of _ meta] exI [of _ h] conjI)
  qed
qed
end
