(* ===== verification/Boot_Run.thy ===== *)
theory Boot_Run
  imports Workload_Pack Campaign "HOL-Library.Product_Lexorder"
begin

text \<open>
  \<open>main\<close> of \<open>host/board/run_pmu_events.py\<close> around the campaign: the identity of the blob, the event ids of the command
  line, the provenance, and the summary that the baseline gate reads; and \<open>main\<close> of \<open>host/analysis/baseline_gate.py\<close>
  with the reference data of \<open>host/lib/reference.py\<close>.
  The last section follows a workload from the packer over the board to the gate.
\<close>

section \<open>The identity of a blob\<close>

record blob_id =
  bi_blob_sha256 :: string
  bi_blob_knobs :: "string list"
  bi_cms_sha256 :: string
  bi_ifm_sha256 :: string
  bi_golden_sha256 :: string

definition blob_identity :: "bytes \<Rightarrow> pmwl_header \<Rightarrow> blob_id" where
  "blob_identity blob hdr =
     \<lparr>bi_blob_sha256 = sha256 blob, bi_blob_knobs = map knob_text (ph_knobs hdr), bi_cms_sha256 = sha256 (cms_in blob hdr),
      bi_ifm_sha256 = sha256 (concat (map (entry_data blob) (ph_inputs hdr))),
      bi_golden_sha256 = sha256 (concat (map (entry_data blob) (ph_outputs hdr)))\<rparr>"

section \<open>The command line\<close>

text \<open>\<open>[int(x) for x in txt.replace("\n", ",").split(",") if x.strip()]\<close>\<close>

fun ints_of :: "string list \<Rightarrow> exn + int list" where
  "ints_of [] = Inr []"
| "ints_of (x # xs) =
     (if strip_blank x = [] then ints_of xs
      else bind_res (int_of_text x) (\<lambda>n. bind_res (ints_of xs) (\<lambda>ns. Inr (n # ns))))"

definition ids_of_text :: "string \<Rightarrow> exn + int list" where
  "ids_of_text txt = ints_of (split_char CHR '','' (map (\<lambda>c. if c = CHR 0x0A then CHR '','' else c) txt))"

text \<open>\<open>ba_ids\<close> is the text of \<open>--ids\<close> or of the file it names.\<close>

record boot_args =
  ba_blob :: bytes
  ba_ids :: "string option"
  ba_repeats :: nat
  ba_mode :: mode
  ba_keep_model :: bool
  ba_build_id :: string
  ba_app_sha256 :: string
  ba_vectors_sha256 :: string
  ba_ddr_sha256 :: string
  ba_captured_at :: string

text \<open>The columns that are texts.\<close>

definition provenance :: "boot_args \<Rightarrow> (string, string) dict" where
  "provenance a =
     [(''board_serial'', ''FTDI-00FT46259002B''), (''fpga_image'', ''FI101-r1p0 (109762 v0100)''), (''build_id'', ba_build_id a),
      (''authorization'', ''owner-verbal-2026-09-23''), (''app_sha256'', ba_app_sha256 a), (''vectors_sha256'', ba_vectors_sha256 a),
      (''ddr_sha256'', ba_ddr_sha256 a), (''captured_at_utc'', ba_captured_at a)]"

section \<open>The program\<close>

definition ofm_mismatches :: "raw list \<Rightarrow> (int \<times> int) list" where
  "ofm_mismatches rs =
     sorted_set (concat (map (\<lambda>r. case r of RawPing _ \<Rightarrow> []
       | RawRun w \<Rightarrow> (case rw_ofm_mismatch w of Some (a # b # _) \<Rightarrow> [(a, b)] | _ \<Rightarrow> [])) rs))"

text \<open>\<open>summary.json\<close>, as the gate reads it; \<open>cov\<close> is the rule of a coverage refusal.\<close>

definition summary_json ::
    "boot_args \<Rightarrow> blob_id \<Rightarrow> int list option \<Rightarrow> raw list \<Rightarrow> string option \<Rightarrow> string option \<Rightarrow> boot" where
  "summary_json a bi ids raw refusal cov =
     \<lparr>bt_provenance = provenance a, bt_blob_sha256 = Some (bi_blob_sha256 bi), bt_cms_sha256 = Some (bi_cms_sha256 bi),
      bt_ifm_sha256 = Some (bi_ifm_sha256 bi), bt_golden_sha256 = Some (bi_golden_sha256 bi),
      bt_blob_knobs = Some (bi_blob_knobs bi),
      bt_requested_ids = (case ids of None \<Rightarrow> None | Some xs \<Rightarrow> if xs = [] then None else Some (sorted_set xs)),
      bt_coverage = (case cov of Some rule \<Rightarrow> rule
         | None \<Rightarrow> (case ids of None \<Rightarrow> ''COMPLETE''
              | Some xs \<Rightarrow> ''COMPLETE_SUBSET('' @ decimal (int (length (remdups xs))) @ '')'')),
      bt_refusal = refusal, bt_runs = Some (int (length raw) - 1)\<rparr>"

record boot_files =
  bf_raw :: "raw list"
  bf_rows :: "row list"
  bf_summary :: summary
  bf_json :: boot
  bf_ofm_mismatches :: "(int \<times> int) list"

text \<open>What is refused before the board is touched: a blob that does not parse and ids that are no numbers or not known.\<close>

definition boot_plan ::
    "boot_args \<Rightarrow> (int, string) dict \<Rightarrow> int list \<Rightarrow> exn + config \<times> blob_id \<times> (int \<times> int list) list" where
  "boot_plan a names trm =
     bind_res (parse_header (ba_blob a)) (\<lambda>hdr.
     bind_res (case ba_ids a of None \<Rightarrow> Inr None | Some t \<Rightarrow>
         if t = [] then Inr None else bind_res (ids_of_text t) (\<lambda>xs. Inr (Some xs))) (\<lambda>ids.
     bind_res (event_sets (map fst names) ids) (\<lambda>sets.
       Inr (\<lparr>cf_known = names, cf_trm = trm, cf_ids = ids, cf_repeats = ba_repeats a, cf_mode = ba_mode a,
             cf_keep_model = ba_keep_model a, cf_blob = ba_blob a, cf_cms_len = ph_field ''cms_len'' hdr\<rparr>,
            blob_identity (ba_blob a) hdr, sets))))"

text \<open>\<open>main\<close>: the files it writes and its exit code. An exception other than a refusal leaves it before the files.\<close>

definition boot_main ::
    "'s ops \<Rightarrow> boot_args \<Rightarrow> (int, string) dict \<Rightarrow> int list \<Rightarrow> 's \<Rightarrow> (exn + int \<times> boot_files) option" where
  "boot_main R a names trm l =
     (case boot_plan a names trm of
        Inl e \<Rightarrow> Some (Inl e)
      | Inr (cfg, bi, sets) \<Rightarrow>
          (case campaign R cfg sets \<lparr>cp_link = l, cp_raw = [], cp_rows = []\<rparr> of
             None \<Rightarrow> None
           | Some (Inl e, _) \<Rightarrow> Some (Inl e)
           | Some (Inr refusal, t) \<Rightarrow>
               let sm = summarise cfg (cp_rows t) refusal in
               Some (Inr (sm_exit sm, \<lparr>bf_raw = cp_raw t, bf_rows = cp_rows t, bf_summary = sm,
                  bf_json = summary_json a bi (cf_ids cfg) (cp_raw t) refusal (sm_coverage sm),
                  bf_ofm_mismatches = ofm_mismatches (cp_raw t)\<rparr>))))"

section \<open>The baseline gate's program\<close>

text \<open>\<open>host/lib/reference.py\<close>, over the contents of its JSON files: the event ids with their names, the ids of the manual,
  and the MLEK counters of a workload, of one boot and as a median.\<close>

definition driver_ids :: "(int \<times> string) list \<Rightarrow> (int, string) dict" where
  "driver_ids rows = fold (\<lambda>(v, n) d. dict_put v n d) rows []"

definition trm_ids :: "(int \<times> string \<times> string) list \<Rightarrow> int list" where
  "trm_ids rows = remdups (map fst rows)"

record mlek_workload =
  mk_b1 :: "(string, int) dict"
  mk_active_median :: int

definition mlek_active :: "(string, mlek_workload) dict \<Rightarrow> (string, int) dict" where
  "mlek_active ws = map (\<lambda>(n, w). (n, mk_active_median w)) ws"

definition mlek_b1 :: "(string, mlek_workload) dict \<Rightarrow> string \<Rightarrow> exn + (string, int) dict" where
  "mlek_b1 ws name = bind_res (dict_get name ws) (\<lambda>w. Inr (mk_b1 w))"

text \<open>Per workload of the manifest, in the order of the names: its name, what its directory holds and the manifest entry.\<close>

record baseline_job =
  bj_name :: string
  bj_summary :: "boot option"
  bj_rows :: "csv list option"
  bj_man :: workload

definition mlek_of :: "(string, mlek_workload) dict \<Rightarrow> string \<Rightarrow> exn + (string, int) dict" where
  "mlek_of ws name =
     bind_res (mlek_b1 ws name) (\<lambda>b1. bind_res (dict_get name (mlek_active ws)) (\<lambda>a.
       Inr (dict_put ''ACTIVE_median'' a b1)))"

definition baseline_entry :: "(string, mlek_workload) dict \<Rightarrow> profile \<Rightarrow> int list \<Rightarrow> baseline_job \<Rightarrow> exn + gate_result \<times> outcome_status" where
  "baseline_entry ws prof ids j =
     bind_res (workload_gate run_checks (bj_summary j) (bj_rows j) prof (bj_man j) ids) (\<lambda>g.
     bind_res (if gr_gate g \<noteq> GATE_UNPROVEN then (case bj_rows j of None \<Rightarrow> Inr [] | Some rows \<Rightarrow> load_runs rows) else Inr []) (\<lambda>runs.
     bind_res (mlek_of ws (bj_name j)) (\<lambda>mlek.
     bind_res (outcome g runs mlek) (\<lambda>out. Inr (g, out)))))"

fun baseline_entries :: "(string, mlek_workload) dict \<Rightarrow> profile \<Rightarrow> int list \<Rightarrow> baseline_job list \<Rightarrow> exn + (gate_result \<times> outcome_status) list" where
  "baseline_entries ws prof ids [] = Inr []"
| "baseline_entries ws prof ids (j # js) =
     bind_res (baseline_entry ws prof ids j) (\<lambda>e. bind_res (baseline_entries ws prof ids js) (\<lambda>es. Inr (e # es)))"

definition baseline_main :: "(string, mlek_workload) dict \<Rightarrow> profile \<Rightarrow> int list \<Rightarrow> baseline_job list \<Rightarrow> exn + int \<times> outcome_status" where
  "baseline_main ws prof ids_file jobs =
     bind_res (baseline_entries ws prof (sort ids_file) jobs) (\<lambda>es.
       let verdict = overall (map snd es) in Inr (if verdict = MLEK_EQUIVALENT then 0 else 1, verdict))"

section \<open>What a complete campaign archives\<close>

text \<open>\<open>records cfg m n\<close>: when \<open>m\<close> returns, it has appended \<open>n\<close> entries to \<open>raw\<close>.\<close>

definition records :: "('s camp, 'a) prog \<Rightarrow> nat \<Rightarrow> bool" where
  "records m n \<longleftrightarrow> (\<forall>s x t. m s = Some (Inr x, t) \<longrightarrow> length (cp_raw t) = length (cp_raw s) + n)"

named_theorems records_intros "how many entries the steps of the campaign append to raw"

lemma records_raises [records_intros]: "records (raises e) n"
  by (simp add: records_def)

lemma records_quiet [records_intros]:
  "records (returns x) 0" "records (lift_res v) 0" "records (on_link m) 0"
  "records (modify (\<lambda>s. s\<lparr>cp_rows := f s\<rparr>)) 0"
  by (auto simp: records_def on_link_def lift_res_def split: option.splits sum.splits)

lemma records_raw [records_intros]: "records (modify (\<lambda>s. s\<lparr>cp_raw := cp_raw s @ [w]\<rparr>)) (Suc 0)"
  by (auto simp: records_def)

lemma records_recast [records_intros]: "records m n \<Longrightarrow> records (recast h m) n"
  by (fastforce simp: records_def recast_def split: option.splits sum.splits)

lemma records_andthen: "records m a \<Longrightarrow> (\<And>x. records (f x) b) \<Longrightarrow> records (andthen m f) (a + b)"
  by (fastforce simp: records_def andthen_Some)

lemma records_then [records_intros]: "records m 0 \<Longrightarrow> (\<And>x. records (f x) b) \<Longrightarrow> records (andthen m f) b"
  using records_andthen [of m 0 f b] by simp

lemma records_if [records_intros]: "records m n \<Longrightarrow> records m' n \<Longrightarrow> records (if c then m else m') n"
  by simp

lemma records_state: "(\<And>s. records (m s) n) \<Longrightarrow> records (\<lambda>s. m s s) n"
  by (simp add: records_def)

lemma records_for_each: "(\<And>x. x \<in> set xs \<Longrightarrow> records (body x) n) \<Longrightarrow> records (for_each xs body) (length xs * n)"
  by (induction xs) (simp_all add: records_quiet records_andthen)

lemma records_add_rows: "records (add_rows mk slot evs :: ('s camp, unit) prog) 0"
proof (induction evs arbitrary: slot)
  case Nil
  have e: "add_rows mk slot [] = (returns () :: ('s camp, unit) prog)" by (rule ext) simp
  show ?case unfolding e by (rule records_quiet)
next
  case (Cons ev evs)
  have e: "(add_rows mk slot (ev # evs) :: ('s camp, unit) prog) = andthen (lift_res (mk slot ev)) (\<lambda>r.
       andthen (modify (\<lambda>s. s\<lparr>cp_rows := cp_rows s @ [r]\<rparr>)) (\<lambda>_. add_rows mk (Suc slot) evs))" by (rule ext) simp
  show ?case unfolding e by (intro records_intros Cons.IH)
qed

lemma records_keep_run: "records (keep_run cfg set_id codes rep rc m p :: ('s camp, unit) prog) (Suc 0)"
proof (cases "run_validity (record_of cfg rc m p) codes (cf_mode cfg)")
  case (Inl e)
  then show ?thesis unfolding keep_run_def Inl andthen_lift by (intro records_intros)
next
  case (Inr v)
  obtain ok failed where v: "v = (ok, failed)" by fastforce
  have one: "records (andthen (modify (\<lambda>s. s\<lparr>cp_raw := cp_raw s @ [RawRun (raw_of set_id rep rc m p)]\<rparr>)) (\<lambda>_.
      add_rows (row_of cfg set_id rep rc m p ok failed) 0 codes) :: ('s camp, unit) prog) (Suc 0)"
    using records_andthen [OF records_raw records_add_rows] by simp
  show ?thesis unfolding keep_run_def Inr v andthen_lift prod.case
    by (intro records_then [OF records_quiet(2)] records_if records_raises one)
qed

lemma records_measure_rep: "records (measure_rep R cfg set_id codes rep) (Suc 0)"
proof -
  have "records (case op_last R (cp_link s) of None \<Rightarrow> raises (Refusal ''RULE_RECORD_SCHEMA'')
        | Some m \<Rightarrow> (case me_pmu m of None \<Rightarrow> raises (Refusal ''RULE_RECORD_SCHEMA'')
            | Some p \<Rightarrow> keep_run cfg set_id codes rep rc m p)) (Suc 0)" for rc and s :: "'a camp"
    by (simp add: records_raises records_keep_run split: option.split)
  from records_state [OF this] show ?thesis unfolding measure_rep_def
    by (rule records_then [rotated]) (intro records_intros)
qed

lemma records_measure_set: "records (measure_set R cfg first_id st) (cf_repeats cfg)"
proof (cases st)
  case (Pair set_id codes)
  have c: "records (configure_set R cfg first set_id codes) 0" for first
    unfolding configure_set_def by (intro records_intros)
  have "records (for_each (map int [1..<Suc (cf_repeats cfg)]) (measure_rep R cfg set_id codes)) (cf_repeats cfg)"
    using records_for_each [of "map int [1..<Suc (cf_repeats cfg)]" "measure_rep R cfg set_id codes" "Suc 0", OF records_measure_rep]
    by (simp only: length_map length_upt diff_Suc_1 mult_Suc_right mult_0_right add_0_right)
  then show ?thesis unfolding Pair measure_set_def prod.case Let_def
    by (intro records_then c records_recast records_if records_quiet)
qed

lemma records_campaign_body: "records (campaign_body R cfg sets) (Suc (length sets * cf_repeats cfg))"
proof -
  have "records (andthen (modify (\<lambda>s. s\<lparr>cp_raw := cp_raw s @ [RawPing c]\<rparr>)) (\<lambda>_.
         if ct_state c \<noteq> 1 then raises (Refusal ''RULE_PING'')
         else if \<exists>n \<in> set (error_counters c). n \<noteq> 0 then raises (Refusal ''RULE_PING'')
         else for_each sets (measure_set R cfg (fst (hd sets))))) (Suc 0 + length sets * cf_repeats cfg)" for c
    by (intro records_andthen records_raw records_if records_raises records_for_each records_measure_set)
  from records_then [OF records_quiet(3) this] show ?thesis unfolding campaign_body_def by simp
qed

lemma campaign_records:
  assumes "campaign R cfg sets \<lparr>cp_link = l, cp_raw = [], cp_rows = []\<rparr> = Some (Inr None, t)"
  shows "length (cp_raw t) = Suc (length sets * cf_repeats cfg)"
proof -
  from assms obtain x where "campaign_body R cfg sets \<lparr>cp_link = l, cp_raw = [], cp_rows = []\<rparr> = Some (Inr x, t)"
    by (auto simp: campaign_def split: option.splits sum.splits exn.splits)
  with records_campaign_body [of R cfg sets] show ?thesis by (auto simp: records_def)
qed

section \<open>From the packer to the gate\<close>

lemma golden_entry_fields:
  assumes "golden_entry_of txt meta frozen v tflite_ofm = Inr e"
  shows "ge_frozen e = frozen" "ge_blob_sha256 e = mt_blob_sha256 meta" "ge_input_sha256 e = mt_ifm_sha256 meta"
    "ge_ofm_sha256 e = mt_golden_sha256 meta" "mt_cms_sha256 meta = fz_cms_sha256 frozen"
  using assms by (auto simp: golden_entry_of_def validity_def split: if_splits)

text \<open>The manifest entry of a golden, as the gate reads it.\<close>

definition workload_of :: "golden_entry \<Rightarrow> workload" where
  "workload_of e = \<lparr>wl_blob_sha256 = ge_blob_sha256 e, wl_cms_sha256 = fz_cms_sha256 (ge_frozen e),
     wl_golden = Some \<lparr>gd_input_sha256 = ge_input_sha256 e, gd_ofm_sha256 = ge_ofm_sha256 e\<rparr>\<rparr>"

lemma truncate_meta:
  "mt_blob_sha256 (blob_meta.truncate m) = mt_blob_sha256 m" "mt_cms_sha256 (blob_meta.truncate m) = mt_cms_sha256 m"
  "mt_ifm_sha256 (blob_meta.truncate m) = mt_ifm_sha256 m" "mt_golden_sha256 (blob_meta.truncate m) = mt_golden_sha256 m"
  by (simp_all add: blob_meta.defs)

text \<open>The board sees the blob as the packer described it, with the knobs of the profile.\<close>

lemma packed_identity:
  assumes "pack_main I ver tfl vela_out model a = Inr (blob, meta)" "pa_profile a = Some pp"
  obtains h ks where "parse_header blob = Inr h" "profile_knobs (pp_prof pp) = Inr ks"
    "blob_identity blob h = \<lparr>bi_blob_sha256 = mt_blob_sha256 meta, bi_blob_knobs = map knob_text ks,
       bi_cms_sha256 = mt_cms_sha256 meta, bi_ifm_sha256 = mt_ifm_sha256 meta, bi_golden_sha256 = mt_golden_sha256 meta\<rparr>"
proof -
  from assms(1) obtain ka seed info ifms golds kw h where b: "pack_choice a ver = Inr (ka, seed)" "inspect_vela tfl = Inr info"
    "reference I seed (pa_ifm a) (map io_name (vi_ifms info)) (map io_name (vi_ofms info)) = Inr (ifms, golds)"
    "knob_words ka = Inr kw" "parse_header blob = Inr h" "cms_in blob h = vi_cms info" "ph_knobs h = kw"
    "mt_blob_sha256 meta = sha256 blob" "mt_cms_sha256 meta = sha256 (vi_cms info)"
    "mt_ifm_sha256 meta = sha256 (concat (map (entry_data blob) (ph_inputs h)))"
    "mt_golden_sha256 meta = sha256 (concat (map (entry_data blob) (ph_outputs h)))"
    by (rule pack_main_blob)
  have "knob_args (pp_prof pp) = Inr ka" using b(1) by (auto simp: pack_choice_def assms(2) split: if_splits)
  then have "profile_knobs (pp_prof pp) = Inr kw" using b(4) by (simp add: profile_knobs_words)
  with that [OF b(5)] b(6-11) show thesis by (simp add: blob_identity_def)
qed

lemma rows_reps:
  assumes "map row_key rows = plan cfg sets" "sets \<noteq> []" "\<forall>st \<in> set sets. snd st \<noteq> []"
  shows "set (map ro_rep rows) = int ` {1..<Suc (cf_repeats cfg)}"
proof -
  have some: "\<exists>slot ev. (slot, ev) \<in> set (enumerate 0 cs)" if "cs \<noteq> []" for cs :: "int list"
    using that by (cases cs) auto
  have one: "fst ` snd ` set (set_plan cfg st) = int ` {1..<Suc (cf_repeats cfg)}" if "st \<in> set sets" for st
  proof (cases st)
    case (Pair sid cs)
    then have "cs \<noteq> []" using assms(3) that by auto
    then show ?thesis unfolding Pair set_plan_def prod.case set_concat set_map image_Union image_image
      using some [of cs] by (auto simp: image_iff)
  qed
  have "set (map ro_rep rows) = fst ` snd ` set (map row_key rows)" by (auto simp: row_key_def image_iff)
  also have "\<dots> = (\<Union>st \<in> set sets. fst ` snd ` set (set_plan cfg st))"
    unfolding assms(1) plan_def by auto
  also have "\<dots> = int ` {1..<Suc (cf_repeats cfg)}" using one assms(2) by auto
  finally show ?thesis .
qed

lemma event_sets_shape:
  assumes "event_sets known (Some ids) = Inr sets"
  shows "length sets = (length (sorted_set ids) + 7) div 8" "\<forall>st \<in> set sets. snd st \<noteq> []"
proof -
  show "length sets = (length (sorted_set ids) + 7) div 8"
    using assms by (auto simp: event_sets_def Let_def SLOTS_def split: if_splits)
  have "list_all (\<lambda>codes. 0 < length codes \<and> length codes \<le> SLOTS) (map snd sets)"
    using event_sets_cut [of known "Some ids"] assms by (simp add: Let_def)
  then show "\<forall>st \<in> set sets. snd st \<noteq> []" by (auto simp: list_all_iff)
qed

lemma boot_mainD:
  assumes "boot_main R b names trm l = Some (Inr (code, files))" "ba_ids b = Some txt" "ids_of_text txt = Inr ids" "txt \<noteq> []"
    and "parse_header (ba_blob b) = Inr hdr"
  obtains cfg sets refusal t where "event_sets (map fst (cf_known cfg)) (cf_ids cfg) = Inr sets" "cf_ids cfg = Some ids"
    "cf_repeats cfg = ba_repeats b"
    "campaign R cfg sets \<lparr>cp_link = l, cp_raw = [], cp_rows = []\<rparr> = Some (Inr refusal, t)"
    "code = (if refusal \<noteq> None then 1 else 0)" "bf_rows files = cp_rows t"
    "bf_json files = summary_json b (blob_identity (ba_blob b) hdr) (Some ids) (cp_raw t) refusal (sm_coverage (summarise cfg (cp_rows t) refusal))"
proof -
  from assms obtain sets where e: "event_sets (map fst names) (Some ids) = Inr sets"
    by (cases "event_sets (map fst names) (Some ids)") (auto simp: boot_main_def boot_plan_def)
  define cfg where "cfg = \<lparr>cf_known = names, cf_trm = trm, cf_ids = Some ids, cf_repeats = ba_repeats b, cf_mode = ba_mode b,
             cf_keep_model = ba_keep_model b, cf_blob = ba_blob b, cf_cms_len = ph_field ''cms_len'' hdr\<rparr>"
  have p: "boot_plan b names trm = Inr (cfg, blob_identity (ba_blob b) hdr, sets)"
    by (simp add: boot_plan_def assms(2-5) e cfg_def)
  from assms(1) obtain refusal t where
    c: "campaign R cfg sets \<lparr>cp_link = l, cp_raw = [], cp_rows = []\<rparr> = Some (Inr refusal, t)"
    by (auto simp: boot_main_def p split: option.splits sum.splits)
  have f: "cf_ids cfg = Some ids" "cf_repeats cfg = ba_repeats b" "map fst (cf_known cfg) = map fst names" by (simp_all add: cfg_def)
  have "code = (if refusal \<noteq> None then 1 else 0)" "bf_rows files = cp_rows t"
    "bf_json files = summary_json b (blob_identity (ba_blob b) hdr) (Some ids) (cp_raw t) refusal (sm_coverage (summarise cfg (cp_rows t) refusal))"
    using assms(1) by (auto simp: boot_main_def p c Let_def f summarise_def)
  with that [OF _ f(1,2) c] e show thesis by (simp add: f)
qed

lemma golden_of_packed:
  assumes "golden_entry_of txt (blob_meta.truncate meta) frozen v tflite_ofm = Inr e"
  shows "wl_blob_sha256 (workload_of e) = mt_blob_sha256 meta" "wl_cms_sha256 (workload_of e) = mt_cms_sha256 meta"
    "wl_golden (workload_of e) = Some \<lparr>gd_input_sha256 = mt_ifm_sha256 meta, gd_ofm_sha256 = mt_golden_sha256 meta\<rparr>"
  using golden_entry_fields [OF assms] by (simp_all add: workload_of_def truncate_meta)

text \<open>The boot checks of a packed workload: B2 never fails, B1 looks at the image only, and B3 fails exactly for a refused
  campaign and for more ids than one set holds.\<close>

lemma boot_checks_packed:
  assumes "pack_main I ver tfl vela_out model a = Inr (blob, meta)" "pa_profile a = Some pp"
    and "golden_entry_of txt (blob_meta.truncate meta) frozen v tflite_ofm = Inr e"
    and "boot_main R b names trm l = Some (Inr (code, files))" "ba_blob b = blob" "ba_ids b = Some itxt" "ids_of_text itxt = Inr ids"
    and "ids \<noteq> []" "0 < ba_repeats b" "int (ba_repeats b) = pf_repeats (pp_prof pp)"
  shows "boot_checks (bf_json files) (pp_prof pp) (workload_of e) (sorted_set ids)
     = Inr ((if list_all (\<lambda>(k, v). map_of (provenance b) k = Some v) (pf_image (pp_prof pp)) then [] else [B1_image])
         @ (if code = 0 \<and> length (sorted_set ids) \<le> 8 then [] else [B3_set]))"
    "golden_matches (workload_of e) (bf_json files)"
    "code = 0 \<Longrightarrow> set (map ro_rep (bf_rows files)) = int ` {1..<Suc (ba_repeats b)}"
proof -
  obtain h ks where id: "parse_header blob = Inr h" "profile_knobs (pp_prof pp) = Inr ks"
    "blob_identity blob h = \<lparr>bi_blob_sha256 = mt_blob_sha256 meta, bi_blob_knobs = map knob_text ks,
       bi_cms_sha256 = mt_cms_sha256 meta, bi_ifm_sha256 = mt_ifm_sha256 meta, bi_golden_sha256 = mt_golden_sha256 meta\<rparr>"
    by (rule packed_identity [OF assms(1,2)])
  have "itxt \<noteq> []" using assms(7,8) by (auto simp: ids_of_text_def strip_blank_def)
  with boot_mainD [OF assms(4,6,7)] id(1) assms(5) obtain cfg sets refusal t where
    c: "event_sets (map fst (cf_known cfg)) (cf_ids cfg) = Inr sets" "cf_ids cfg = Some ids" "cf_repeats cfg = ba_repeats b"
      "campaign R cfg sets \<lparr>cp_link = l, cp_raw = [], cp_rows = []\<rparr> = Some (Inr refusal, t)"
      "code = (if refusal \<noteq> None then 1 else 0)" "bf_rows files = cp_rows t"
      "bf_json files = summary_json b (blob_identity blob h) (Some ids) (cp_raw t) refusal (sm_coverage (summarise cfg (cp_rows t) refusal))"
    by metis
  note gold = golden_of_packed [OF assms(3)]
  note shape = event_sets_shape [OF c(1) [unfolded c(2)]]
  have img: "(\<exists>(k, v) \<in> set (pf_image (pp_prof pp)). map_of (provenance b) k \<noteq> Some v)
      \<longleftrightarrow> \<not> list_all (\<lambda>(k, v). map_of (provenance b) k = Some v) (pf_image (pp_prof pp))"
    by (auto simp: list_all_iff)
  have kt: "map (\<lambda>w. ''0x'' @ hex_lower 8 w) ks = map knob_text ks" by (simp add: knob_text_def)
  have b3: "(bt_requested_ids (bf_json files) \<noteq> Some (sorted_set ids) \<or> \<not> prefix ''COMPLETE'' (bt_coverage (bf_json files))
        \<or> bt_refusal (bf_json files) \<noteq> None \<or> bt_runs (bf_json files) \<noteq> Some (pf_repeats (pp_prof pp)))
      \<longleftrightarrow> \<not> (code = 0 \<and> length (sorted_set ids) \<le> 8)"
  proof (cases refusal)
    case (Some rule)
    then show ?thesis by (simp add: c(5,7) summary_json_def)
  next
    case None
    have cov: "sm_coverage (summarise cfg (cp_rows t) None) = None"
      using campaign_covers [OF c(1) _ c(4) [unfolded None]] assms(9) c(3) by (simp add: Let_def)
    have raw: "int (length (cp_raw t)) - 1 = int (length sets * ba_repeats b)"
      using campaign_records [OF c(4) [unfolded None]] c(3) by simp
    have "int (length sets * ba_repeats b) = pf_repeats (pp_prof pp) \<longleftrightarrow> length sets = 1"
      unfolding assms(10) [symmetric] using assms(9) by (simp only: of_nat_eq_iff) simp
    also have "\<dots> \<longleftrightarrow> length (sorted_set ids) \<le> 8"
    proof -
      have "0 < length (sorted_set ids)" using assms(8) by simp
      then show ?thesis unfolding shape(1) by arith
    qed
    finally show ?thesis using assms(8) by (simp add: c(5,7) summary_json_def None cov raw)
  qed
  show "boot_checks (bf_json files) (pp_prof pp) (workload_of e) (sorted_set ids)
     = Inr ((if list_all (\<lambda>(k, v). map_of (provenance b) k = Some v) (pf_image (pp_prof pp)) then [] else [B1_image])
         @ (if code = 0 \<and> length (sorted_set ids) \<le> 8 then [] else [B3_set]))"
    unfolding boot_checks_def id(2) bind_res_simps Let_def kt b3
    by (simp add: c(7) summary_json_def id(3) gold img)
  show "golden_matches (workload_of e) (bf_json files)"
    by (simp add: golden_matches_def gold c(7) summary_json_def id(3))
  assume "code = 0"
  then have "refusal = None" using c(5) by (auto split: if_splits)
  with campaign_writes(3) [OF c(4)] have k: "map row_key (cp_rows t) = plan cfg sets" by simp
  have "0 < length (sorted_set ids)" using assms(8) by simp
  then have "0 < length sets" unfolding shape(1) by arith
  then have "sets \<noteq> []" by simp
  from rows_reps [OF k this shape(2)] show "set (map ro_rep (bf_rows files)) = int ` {1..<Suc (ba_repeats b)}"
    by (simp add: c(3,6))
qed

section \<open>A boot over the sample workload\<close>

definition sample_log :: string where
  "sample_log = concat (map (\<lambda>l. l @ [CHR 0x0A]) (TA_LINES @ [IFM_MARK, ''0x01, 0x02,'', OFM_MARK, ''0x04, 0x05, 0x06,'']))"

lemma sample_dumps: "dump_section sample_log IFM_MARK = Inr [1, 2]" "dump_section sample_log OFM_MARK = Inr [4, 5, 6]"
  by code_simp+

lemma sample_ta: "list_all (\<lambda>t. occurs_in t sample_log) TA_LINES"
  by code_simp

definition sample_frozen :: frozen_entry where
  "sample_frozen = \<lparr>fz_model_sha256 = sha256 [], fz_cms_sha256 = sha256 (vi_cms sample_vela)\<rparr>"

definition sample_boot :: "bytes \<Rightarrow> boot_args" where
  "sample_boot blob = \<lparr>ba_blob = blob, ba_ids = Some ''17'', ba_repeats = 1, ba_mode = Exact, ba_keep_model = False, ba_build_id = [],
     ba_app_sha256 = [], ba_vectors_sha256 = [], ba_ddr_sha256 = [], ba_captured_at = []\<rparr>"

lemma sample_ops_sel:
  "op_ping sample_ops = returns sample_counters" "op_reset sample_ops = returns ()"
  "op_set_mode sample_ops = (\<lambda>m codes i. returns [m, m, int (length codes), i])" "op_run sample_ops = (\<lambda>_. returns 0)"
  "op_last sample_ops = (\<lambda>_. Some sample_measurement)"
  by (simp_all add: sample_ops_def)

lemma sample_chunks: "send_chunks sample_ops blob offs s = Some (Inr (), s)"
  by (induction offs) (simp_all add: sample_ops_def andthen_def)

lemma sample_ids: "ids_of_text ''17'' = Inr [17]"
  by code_simp

lemma sample_golden:
  assumes "meta = meta_of [] [] sample_vela [[1, 2]] [[4, 5, 6]] (sha256 [4, 5, 6]) sample_knobs 1 blob h"
  shows "\<exists>e. golden_entry_of sample_log (blob_meta.truncate meta) sample_frozen (sha256 []) [4, 5, 6] = Inr e"
proof -
  have "(\<forall>t \<in> set TA_LINES. occurs_in t sample_log)" using sample_ta by (simp add: list_all_iff)
  moreover obtain d where "compare_ofm [4, 5, 6] [4, 5, 6] = Inr d" by (simp add: compare_ofm_def)
  ultimately show ?thesis
    by (simp add: golden_entry_of_def validity_def sample_dumps sample_frozen_def assms meta_of_def blob_meta.defs Let_def list_all_iff)
qed

lemma sample_boot_plan:
  assumes "parse_header blob = Inr h"
  shows "boot_plan (sample_boot blob) [(17, ''CYCLE'')] [17]
    = Inr (\<lparr>cf_known = [(17, ''CYCLE'')], cf_trm = [17], cf_ids = Some [17], cf_repeats = 1, cf_mode = Exact,
        cf_keep_model = False, cf_blob = blob, cf_cms_len = ph_field ''cms_len'' h\<rparr>, blob_identity blob h, [(1, [17])])"
proof -
  have "event_sets [17] (Some [17]) = Inr [(1, [17])]"
    by (simp add: event_sets_def sorted_set_def SLOTS_def py_slice_def)
  then show ?thesis by (simp add: boot_plan_def sample_boot_def assms sample_ids)
qed

lemma sample_boot_returns:
  assumes "parse_header blob = Inr h"
  shows "\<exists>files. boot_main sample_ops (sample_boot blob) [(17, ''CYCLE'')] [17] () = Some (Inr (0, files))"
proof -
  define cfg where "cfg = \<lparr>cf_known = [(17, ''CYCLE'')], cf_trm = [17], cf_ids = Some [17], cf_repeats = 1, cf_mode = Exact,
    cf_keep_model = False, cf_blob = blob, cf_cms_len = ph_field ''cms_len'' h\<rparr>"
  note p = sample_boot_plan [OF assms, folded cfg_def]
  have prime: "prime sample_ops blob u = Some (Inr (), u)" for u
    by (simp add: prime_def andthen_def sample_chunks) (simp add: sample_ops_def)
  have "\<exists>t. campaign sample_ops cfg [(1, [17])] \<lparr>cp_link = (), cp_raw = [], cp_rows = []\<rparr> = Some (Inr None, t)"
    by (simp add: campaign_def campaign_body_def sample_ops_sel sample_counters_def cfg_def measure_set_def configure_set_def
      on_link_def error_counters_def recast_def prime INSTRUMENTATION_EVENTS_def
      andthen_def measure_rep_def sample_measurement_def keep_run_def sample_pmu_def scalar_def run_validity_def
      exact_terms_def record_of_def required_flags_ok_def RUN_VALID_REQUIRED_MASK_def nth_opt_def row_of_def
      dict_get_def index_def Let_def upt_rec)
  then show ?thesis by (auto simp: boot_main_def p Let_def summarise_def)
qed


section \<open>Properties\<close>

text \<open>C35. A workload goes from the packer over the board to the gate: a blob packed under a profile, its golden entered in
  the manifest, and one boot over the profile's event ids with the profile's repeats. Stage 0 then passes exactly when
  the campaign was not refused, the ids fit one event set, the image is the profile's, and the run of every repeat is
  clean with its cycle event close to its window; the digests and the knobs of the blob can not make it fail.\<close>

theorem packed_workload_gate:
  assumes "pack_main I ver tfl vela_out model a = Inr (blob, meta)" "pa_profile a = Some pp"
    and "golden_entry_of txt (blob_meta.truncate meta) frozen v tflite_ofm = Inr e"
    and "boot_main R b names trm l = Some (Inr (code, files))" "ba_blob b = blob" "ba_ids b = Some itxt" "ids_of_text itxt = Inr ids"
    and "ids \<noteq> []" "0 < ba_repeats b" "int (ba_repeats b) = pf_repeats (pp_prof pp)"
  shows "(\<exists>g. workload_gate run_checks (Some (bf_json files)) (Some (map csv_row (bf_rows files))) (pp_prof pp) (workload_of e)
        (sorted_set ids) = Inr g \<and> gr_gate g = BASELINE_PASS)
    \<longleftrightarrow> code = 0 \<and> length (sorted_set ids) \<le> 8
      \<and> list_all (\<lambda>(k, v). map_of (provenance b) k = Some v) (pf_image (pp_prof pp))
      \<and> list_all (\<lambda>rep. clean_run (the (run_of_rows rep (bf_rows files))) \<and> cycle_close (the (run_of_rows rep (bf_rows files))))
          (map int [1..<Suc (ba_repeats b)])"
proof -
  note packed = boot_checks_packed [OF assms]
  have len: "int (length (sorted_set (map ro_rep rows))) = pf_repeats (pp_prof pp)"
    and reps: "set (sorted_set (map ro_rep rows)) = set (map int [1..<Suc (ba_repeats b)])"
    if "set (map ro_rep rows) = int ` {1..<Suc (ba_repeats b)}" for rows
  proof -
    have "length (sorted_set (map ro_rep rows)) = card (int ` {1..<Suc (ba_repeats b)})"
      using distinct_card [OF distinct_sorted_set, of "map ro_rep rows"] that by simp
    also have "\<dots> = ba_repeats b" by (simp add: card_image)
    finally show "int (length (sorted_set (map ro_rep rows))) = pf_repeats (pp_prof pp)" using assms(10) by simp
  qed (use that in \<open>simp del: upt_Suc\<close>)
  show ?thesis
  proof (cases "code = 0")
    case True
    note set = packed(3) [OF True]
    have all: "list_all Q (sorted_set (map ro_rep (bf_rows files))) \<longleftrightarrow> list_all Q (map int [1..<Suc (ba_repeats b)])" for Q
      unfolding list_all_iff reps [OF set] ..
    have runs: "(\<exists>runs. load_runs (map csv_row (bf_rows files)) = Inr runs \<and> int (length runs) = pf_repeats (pp_prof pp)
          \<and> list_all (\<lambda>r. clean_run r \<and> cycle_close r) runs)
        \<longleftrightarrow> list_all (\<lambda>rep. clean_run (the (run_of_rows rep (bf_rows files))) \<and> cycle_close (the (run_of_rows rep (bf_rows files))))
          (map int [1..<Suc (ba_repeats b)])"
      unfolding all [symmetric] load_runs_of_campaign using len [OF set] by (simp add: list.pred_map o_def)
    show ?thesis unfolding stage0.gate_pass_iff packed(1) runs using packed(2) True by simp
  next
    case False
    then show ?thesis unfolding stage0.gate_pass_iff packed(1) by simp
  qed
qed

theorem packed_workload_gate_witness:
  "\<exists>blob meta e files. pack_main sample_interp ''4.2'' sample_tfl [] [] sample_args = Inr (blob, meta)
     \<and> golden_entry_of sample_log (blob_meta.truncate meta) sample_frozen (sha256 []) [4, 5, 6] = Inr e
     \<and> boot_main sample_ops (sample_boot blob) [(17, ''CYCLE'')] [17] () = Some (Inr (0, files))
     \<and> ((\<exists>g. workload_gate run_checks (Some (bf_json files)) (Some (map csv_row (bf_rows files))) sample_profile (workload_of e) [17]
          = Inr g \<and> gr_gate g = BASELINE_PASS)
        \<longleftrightarrow> clean_run (the (run_of_rows 1 (bf_rows files))) \<and> cycle_close (the (run_of_rows 1 (bf_rows files))))"
proof -
  obtain blob meta h where p: "pack_main sample_interp ''4.2'' sample_tfl [] [] sample_args = Inr (blob, meta)" "parse_header blob = Inr h"
    "meta = meta_of [] [] sample_vela [[1, 2]] [[4, 5, 6]] (sha256 [4, 5, 6]) sample_knobs 1 blob h" by (rule sample_packed)
  obtain e where e: "golden_entry_of sample_log (blob_meta.truncate meta) sample_frozen (sha256 []) [4, 5, 6] = Inr e"
    using sample_golden [OF p(3)] by blast
  obtain files where f: "boot_main sample_ops (sample_boot blob) [(17, ''CYCLE'')] [17] () = Some (Inr (0, files))"
    using sample_boot_returns [OF p(2)] by blast
  have a: "pa_profile sample_args = Some \<lparr>pp_prof = sample_profile, pp_seed = 1, pp_vela_version = ''4.2'', pp_vela_options = VELA_OPTIONS\<rparr>"
    "pf_repeats sample_profile = 1" "pf_image sample_profile = []"
    by (simp_all add: sample_args_def sample_profile_def)
  have b: "ba_blob (sample_boot blob) = blob" "ba_ids (sample_boot blob) = Some ''17''" "ba_repeats (sample_boot blob) = 1"
    by (simp_all add: sample_boot_def)
  have one: "sorted_set [17] = [17 :: int]" by (simp add: sorted_set_def)
  note gate = packed_workload_gate [OF p(1) a(1) e f b(1,2) sample_ids, unfolded one b(3), simplified, unfolded a(2,3), simplified]
  show ?thesis using p(1) e f gate
    by (intro exI [of _ blob] exI [of _ meta] exI [of _ e] exI [of _ files] conjI)
qed

end
