(* ===== verification/Boot_Session.thy ===== *)
theory Boot_Session
  imports Runner_Session Boot_Run
begin

text \<open>
  A boot over the serial line: \<open>main\<close> of \<open>host/board/run_pmu_events.py\<close> on the \<open>RunnerLink\<close> of
  \<open>host/lib/runner_proto.py\<close>. A request has no deadline of its own, since each frame of another sequence number starts
  the time-out anew; it ends when the line holds finitely many bytes between two writes (locale \<open>quiet_uart\<close>). Then
  every operation of the link returns (locale \<open>ending_ops\<close>), and so does the boot.
\<close>

section \<open>Methods that return\<close>

named_theorems ends_intros "which methods return whatever their state"

definition ends :: "('s, 'a) prog \<Rightarrow> bool" where
  "ends m \<longleftrightarrow> (\<forall>s. m s \<noteq> None)"

lemma endsI: "(\<And>s. m s \<noteq> None) \<Longrightarrow> ends m"
  by (simp add: ends_def)

lemma ends_app: "ends m \<Longrightarrow> m s \<noteq> None"
  by (simp add: ends_def)

lemma endsE: assumes "ends m" obtains r t where "m s = Some (r, t)"
  using assms by (fastforce simp: ends_def)

lemma ends_basic [ends_intros]: "ends (returns x)" "ends (raises e)" "ends (lift_res r)" "ends (modify f)"
  by (simp_all add: ends_def)

lemma ends_andthen [ends_intros]: "ends m \<Longrightarrow> (\<And>x. ends (f x)) \<Longrightarrow> ends (andthen m f)"
  by (auto simp: ends_def andthen_def split: option.split sum.split)

lemma ends_if [ends_intros]: "(c \<Longrightarrow> ends m) \<Longrightarrow> (\<not> c \<Longrightarrow> ends m') \<Longrightarrow> ends (if c then m else m')"
  by simp

lemma ends_case_option [ends_intros]:
  "ends m \<Longrightarrow> (\<And>x. ends (f x)) \<Longrightarrow> ends (case v of None \<Rightarrow> m | Some x \<Rightarrow> f x)"
  by (simp split: option.split)

lemma ends_case_prod [ends_intros]: "(\<And>x y. ends (f x y)) \<Longrightarrow> ends (case p of (x, y) \<Rightarrow> f x y)"
  by (simp split: prod.split)

lemma ends_recast [ends_intros]: "ends m \<Longrightarrow> ends (recast h m)"
  by (auto simp: ends_def recast_def split: option.split sum.split)

lemma ends_on_link [ends_intros]: "ends m \<Longrightarrow> ends (on_link m)"
  by (auto simp: ends_def on_link_def split: option.split)

lemma ends_for_each [ends_intros]: "(\<And>x. ends (body x)) \<Longrightarrow> ends (for_each xs body)"
  by (induction xs) (auto simp only: for_each.simps intro!: ends_intros)

lemma ends_next_seq [ends_intros]: "ends next_seq"
  by (simp add: ends_def next_seq_eq)

lemma ends_send_raw [ends_intros]: "ends (send_raw W blob)"
  by (simp add: ends_def send_raw_def split: prod.split sum.split)

lemma ends_reply_fields [ends_intros]: "ends (reply_fields fs f)"
  by (simp add: ends_def reply_fields_def)

section \<open>Operations that return\<close>

text \<open>What the driver needs of the operations of the link so that it ends.\<close>

locale ending_ops =
  fixes R :: "'s ops"
  assumes ping_returns: "ends (op_ping R)" and reset_returns: "ends (op_reset R)"
    and set_mode_returns: "ends (op_set_mode R mode codes set_id)"
    and begin_returns: "ends (op_begin R len crc)" and chunk_returns: "ends (op_chunk R off data)"
    and end_returns: "ends (op_end R timeout)" and input_returns: "ends (op_input R data)"
    and run_returns: "ends (op_run R timeout)"
begin

lemmas ops_return = ping_returns reset_returns set_mode_returns begin_returns chunk_returns end_returns
  input_returns run_returns

lemma send_chunks_returns: "ends (send_chunks R blob offs)"
  by (induction offs) (auto simp only: send_chunks.simps intro!: ends_intros ops_return)

lemma prime_returns: "ends (prime R blob)"
  unfolding prime_def by (intro ends_intros ops_return send_chunks_returns)

lemma add_rows_returns: "ends (add_rows mk slot evs)"
  by (induction evs arbitrary: slot) (auto simp only: add_rows.simps intro!: ends_intros)

lemma keep_run_returns: "ends (keep_run cfg set_id codes rep rc m p)"
  unfolding keep_run_def by (intro ends_intros add_rows_returns)

lemma measure_rep_returns: "ends (measure_rep R cfg set_id codes rep)"
  unfolding measure_rep_def
proof (rule ends_andthen)
  fix rc
  show "ends (\<lambda>s. (case op_last R (cp_link s) of None \<Rightarrow> raises (Refusal ''RULE_RECORD_SCHEMA'')
      | Some m \<Rightarrow> (case me_pmu m of None \<Rightarrow> raises (Refusal ''RULE_RECORD_SCHEMA'')
          | Some p \<Rightarrow> keep_run cfg set_id codes rep rc m p)) s)"
    by (rule endsI) (simp add: ends_app [OF keep_run_returns] del: not_None_eq split: option.split)
qed (intro ends_intros ops_return)

lemma measure_set_returns: "ends (measure_set R cfg first_id st)"
  unfolding measure_set_def configure_set_def Let_def
  by (intro ends_intros ops_return prime_returns measure_rep_returns)

lemma campaign_returns: "ends (campaign R cfg sets)"
proof -
  have "ends (campaign_body R cfg sets)"
    unfolding campaign_body_def by (intro ends_intros ops_return measure_set_returns)
  then show ?thesis
    by (auto simp: ends_def campaign_def split: option.split sum.split exn.split)
qed

lemma boot_returns: "\<exists>r. boot_main R a names trm l = Some r"
proof -
  have "boot_main R a names trm l \<noteq> None"
    by (auto simp: boot_main_def Let_def ends_app [OF campaign_returns] simp del: not_None_eq split: sum.split option.split)
  then show ?thesis by simp
qed

end

section \<open>A line that falls silent\<close>

text \<open>A frame that is parsed is taken out of the buffer, and nothing is put in.\<close>

lemma scan_None_length: "scan b = (None, l, k) \<Longrightarrow> length l \<le> length b"
proof (induction b arbitrary: k rule: scan.induct)
  case (1 b)
  from "1.prems" show ?case
    unfolding scan.simps [of b] by (force split: if_splits prod.splits candidate.splits dest: "1.IH")
qed

lemma try_parse_length:
  assumes "try_parse s = (fo, t)"
  shows "length (rx_buf t) \<le> length (rx_buf s)" "fo = Some f \<Longrightarrow> length (rx_buf t) < length (rx_buf s)"
  using try_parse_scan [OF assms] scan_None_length scan_Some_length by (cases fo; fastforce)+

text \<open>\<open>stock\<close> bounds what the line still delivers when nothing more is written: a board answers, and is silent.\<close>

locale quiet_uart = uart +
  fixes stock :: "'a \<Rightarrow> nat"
  assumes time_stock: "stock (snd (w_time W w)) \<le> stock w"
    and read_stock: "w_read W n w = (Inr bs, v) \<Longrightarrow> length bs + stock v \<le> stock w"
    and error_stock: "w_read W n w = (Inl e, v) \<Longrightarrow> stock v \<le> stock w"
begin

abbreviation outstanding :: "'a link \<Rightarrow> nat" where
  "outstanding s \<equiv> length (rx_buf s) + stock (ln_ser s)"

lemma read_loop_outstanding:
  "read_loop V deadline s = Some (r, t) \<Longrightarrow> V = W \<Longrightarrow>
    outstanding t \<le> outstanding s \<and> (\<forall>f. r = Inr f \<longrightarrow> outstanding t < outstanding s)"
proof (induction V deadline s "(r, t)" arbitrary: r t rule: read_loop_induct)
  case (loop loop V deadline s)
  let ?s = "s\<lparr>ln_ser := snd (w_time W (ln_ser s))\<rparr>"
  have time: "stock (ln_ser ?s) \<le> stock (ln_ser s)" using time_stock by simp
  obtain fo u where u: "try_parse ?s = (fo, u)" by fastforce
  note len = try_parse_length [OF u] and ser = link_try_parse(5) [OF u]
  obtain b v where b: "w_read W 1024 (ln_ser u) = (b, v)" by fastforce
  show ?case
  proof (cases "fst (w_time W (ln_ser s)) < deadline \<and> fo = None \<and> (\<exists>chunk. b = Inr chunk)")
    case True
    then obtain chunk where chunk: "b = Inr chunk" by blast
    with loop.hyps(2) loop.prems True u b
    have "loop W deadline (u\<lparr>ln_ser := v, rx_buf := rx_buf u @ chunk\<rparr>) = Some (r, t)"
      by (simp add: andthen_apply now_time_eq parse_step_eq ser_read_eq)
    from loop.hyps(1) [OF this [folded loop.prems] loop.prems] show ?thesis
      using time len(1) ser read_stock [of 1024 "ln_ser u" chunk v] b chunk by auto
  next
    case False
    then show ?thesis
      using loop.hyps(2) loop.prems time u len ser b error_stock [of 1024 "ln_ser u" _ v]
      by (cases b; fastforce simp: andthen_apply now_time_eq parse_step_eq ser_read_eq split: if_splits option.splits)
  qed
qed

lemma read_frame_outstanding:
  assumes "read_frame W timeout s = Some (Inr f, t)"
  shows "outstanding t < outstanding s"
  using assms read_loop_outstanding [of W _ _ "Inr f" t] time_stock [of "ln_ser s"]
  by (fastforce simp: read_frame_def andthen_apply now_time_eq)

lemma reply_loop_returns: "\<exists>r t. reply_loop W command seq timeout s = Some (r, t)"
proof (induction "outstanding s" arbitrary: s rule: less_induct)
  case less
  obtain r u where u: "read_frame W timeout s = Some (r, u)" using read_frame_returns by blast
  show ?case
  proof (cases "\<exists>f. r = Inr f \<and> fr_sequence f \<noteq> seq")
    case True
    then obtain f where f: "r = Inr f" "fr_sequence f \<noteq> seq" by blast
    from less [OF read_frame_outstanding [OF u [unfolded f(1)]]] f u show ?thesis
      by (subst reply_loop.simps) (simp add: andthen_apply)
  next
    case False
    with u show ?thesis
      by (subst reply_loop.simps) (auto simp: andthen_apply split: sum.split)
  qed
qed

lemma reply_loop_ends: "ends (reply_loop W command seq timeout)"
  using reply_loop_returns by (fastforce intro: endsI)

lemma request_returns: "ends (request W command payload timeout)"
  unfolding request_def by (intro ends_intros reply_loop_ends)

lemma run_returns: "ends (run W timeout)"
proof (rule endsI)
  fix s
  have "ends (andthen (request W CMD_RUN [] timeout) (\<lambda>f. andthen (reply_fields [Fi] f) (\<lambda>v. returns (v ! 0))))"
    by (intro ends_intros request_returns)
  then show "run W timeout s \<noteq> None"
    using run_measured_returns [of timeout s] by (auto simp: run_def ends_def)
qed

end

sublocale quiet_uart \<subseteq> boot: ending_ops "link_ops W"
  by unfold_locales
    (simp_all only: link_ops_def ops.simps ping_def reset_runner_def set_instrumentation_mode_def load_model_begin_def
      load_model_chunk_def load_model_end_def load_input_def run_returns request_returns ends_intros simp_thms)

context quiet_uart
begin

lemma campaign_ends: "ends (campaign (link_ops W) cfg sets)"
  by (rule boot.campaign_returns)

end

interpretation quiet: quiet_uart fake_world fk_now "1/5" "\<lambda>w. length (fk_script w)"
  by unfold_locales auto

section \<open>A line that never falls silent\<close>

text \<open>A port on which each read brings the same bytes. \<open>run\<close> ends on it, for it is a \<open>uart\<close>; a request does not.\<close>

definition babbling :: "bytes \<Rightarrow> rat world" where
  "babbling w = \<lparr>w_time = (\<lambda>t. (t, t)), w_read = (\<lambda>n t. (Inr w, t + 1/5)), w_write = (\<lambda>_ t. (Inr (), t)),
     w_flush = (\<lambda>t. (Inr (), t))\<rparr>"

lemma babbling_simps [simp]:
  "w_time (babbling w) t = (t, t)" "w_read (babbling w) n t = (Inr w, t + 1/5)"
  "w_write (babbling w) b t = (Inr (), t)" "w_flush (babbling w) t = (Inr (), t)"
  by (simp_all add: babbling_def)

lemma babbling_read_frame:
  assumes "scan w = (Some f, [], n)" "rx_buf s = []" "1/5 < timeout"
  obtains t where "read_frame (babbling w) timeout s = Some (Inr f, t)" "rx_buf t = []"
proof -
  obtain fo u where u: "try_parse s = (fo, u)" by fastforce
  from try_parse_scan [OF u] assms(2) have e: "fo = None" "rx_buf u = []" by (simp_all add: scan_short)
  define u' where "u' = u\<lparr>rx_buf := w, ln_ser := ln_ser u + 1/5\<rparr>"
  have swap: "u\<lparr>ln_ser := ln_ser u + 1/5, rx_buf := w\<rparr> = u'" by (simp add: u'_def)
  obtain go v where v: "try_parse u' = (go, v)" by fastforce
  from try_parse_scan [OF v] assms(1) have g: "go = Some f" "rx_buf v = []" by (simp_all add: u'_def)
  have "read_loop (babbling w) (ln_ser s + timeout) s = Some (Inr f, v)"
  proof -
    have "read_loop (babbling w) (ln_ser s + timeout) u' = Some (Inr f, v)"
      using v g assms(3) link_try_parse(5) [OF u]
      by (subst read_loop.simps) (simp add: andthen_apply now_time_eq parse_step_eq u'_def)
    then show ?thesis using u e assms(3)
      by (subst read_loop.simps) (simp add: andthen_apply now_time_eq parse_step_eq ser_read_eq swap)
  qed
  with g(2) show thesis
    by (intro that [of v]) (simp_all add: read_frame_def andthen_apply now_time_eq)
qed

lemma babbling_reply_loop:
  "reply_loop W command q timeout s = Some (r, t) \<Longrightarrow> W = babbling w \<Longrightarrow> scan w = (Some f, [], n) \<Longrightarrow>
    fr_sequence f \<noteq> q \<Longrightarrow> rx_buf s = [] \<Longrightarrow> 1/5 < timeout \<Longrightarrow> False"
proof (induction W command q timeout s "(r, t)" rule: reply_loop_induct)
  case (loop loop W command q timeout s)
  obtain u where u: "read_frame (babbling w) timeout s = Some (Inr f, u)" "rx_buf u = []"
    by (rule babbling_read_frame [OF loop.prems(2,4,5)])
  with loop.hyps(2) loop.prems have "loop W command q timeout u = Some (r, t)"
    by (simp add: andthen_apply)
  from loop.hyps(1) [OF this loop.prems(1-3) u(2) loop.prems(5)] show False .
qed

text \<open>While a frame of an old sequence number arrives before each time-out, a request returns nothing and raises nothing.\<close>

lemma request_starved:
  assumes "scan w = (Some f, [], n)" "fr_sequence f \<noteq> (ln_seq s + 1) mod 2 ^ 32" "rx_buf s = []" "1/5 < timeout"
    and "build_frame command ((ln_seq s + 1) mod 2 ^ 32) payload 0 = Inr blob"
  shows "request (babbling w) command payload timeout s = None"
proof -
  let ?q = "(ln_seq s + 1) mod 2 ^ 32"
  have "reply_loop (babbling w) command ?q timeout (s\<lparr>ln_seq := ?q\<rparr>) = None"
    using babbling_reply_loop [OF _ refl assms(1) _ _ assms(4)] assms(2,3)
    by (cases "reply_loop (babbling w) command ?q timeout (s\<lparr>ln_seq := ?q\<rparr>)") fastforce+
  then show ?thesis
    using assms(5) by (simp add: request_def andthen_apply next_seq_eq send_raw_def)
qed

section \<open>Property\<close>

text \<open>C36. On a port that is silent some time after each write, a boot ends, whatever the board answers: with an
  exception, or with its files, whose rows follow the plan of event sets, repeats and slots. The exit code is 0 or 1, 0
  exactly when the summary has no refusal, and then the rows are the whole plan.\<close>

theorem boot_ends:
  assumes "quiet_uart W now tick stock" "boot_plan a names trm = Inr (cfg, bi, sets)"
  shows "(\<exists>e. boot_main (link_ops W) a names trm l = Some (Inl e))
    \<or> (\<exists>code files. boot_main (link_ops W) a names trm l = Some (Inr (code, files))
        \<and> code = (if bt_refusal (bf_json files) = None then 0 else 1)
        \<and> prefix (map row_key (bf_rows files)) (plan cfg sets) \<and> list_all (row_sound cfg) (bf_rows files)
        \<and> (code = 0 \<longrightarrow> map row_key (bf_rows files) = plan cfg sets))"
proof -
  obtain r t where r: "campaign (link_ops W) cfg sets \<lparr>cp_link = l, cp_raw = [], cp_rows = []\<rparr> = Some (r, t)"
    by (rule endsE [OF quiet_uart.campaign_ends [OF assms(1)]])
  from campaign_writes [OF r] assms(2) r show ?thesis
    by (cases r) (auto simp: boot_main_def Let_def summarise_def summary_json_def)
qed

theorem boot_ends_witness:
  "\<exists>blob cfg bi sets. boot_plan (sample_boot blob) [(17, ''CYCLE'')] [17] = Inr (cfg, bi, sets)
     \<and> boot_main (link_ops fake_world) (sample_boot blob) [(17, ''CYCLE'')] [17] (idle_link [78, 85]) \<noteq> None"
proof -
  obtain blob meta h where p: "pack_main sample_interp ''4.2'' sample_tfl [] [] sample_args = Inr (blob, meta)" "parse_header blob = Inr h"
    by (rule sample_packed)
  obtain cfg bi sets where "boot_plan (sample_boot blob) [(17, ''CYCLE'')] [17] = Inr (cfg, bi, sets)"
    using sample_boot_plan [OF p(2)] by blast
  with boot_ends [OF quiet.quiet_uart_axioms this, of "idle_link [78, 85]"] show ?thesis by auto
qed

end
