(* ===== verification/Call_Graph.thy ===== *)
theory Call_Graph
  imports Py_Text
begin

text \<open>
  The two searches of \<open>firmware/gate/check_measure_symbols.py\<close>: \<open>reachable\<close> and \<open>shortest_path\<close>, both
  breadth first over a dictionary from a function to the names it calls. A name that is called but not in
  the dictionary has no outgoing edges. The locale \<open>closure_search\<close> is what the gates rely on.
\<close>

section \<open>The searches\<close>

type_synonym 'a graph = "('a, 'a list) dict"

text \<open>\<open>sorted(graph.get(node, ()))\<close>.\<close>

definition callees :: "'a::linorder graph \<Rightarrow> 'a \<Rightarrow> 'a list" where
  "callees g v = (case map_of g v of None \<Rightarrow> [] | Some ts \<Rightarrow> sorted_set ts)"

text \<open>The inner loop: what has not been seen is added to \<open>seen\<close> and to the queue.\<close>

fun visit :: "'a list \<Rightarrow> 'a list \<Rightarrow> 'a list \<Rightarrow> 'a list \<times> 'a list" where
  "visit [] seen queue = (seen, queue)"
| "visit (n # ns) seen queue =
     (if n \<in> set seen then visit ns seen queue else visit ns (seen @ [n]) (queue @ [n]))"

definition universe :: "'a graph \<Rightarrow> 'a list \<Rightarrow> 'a set" where
  "universe g seen = set seen \<union> fst ` set g \<union> (\<Union>e\<in>set g. set (snd e))"

lemma callees_universe: "set (callees g v) \<subseteq> universe g seen"
proof (cases "map_of g v")
  case (Some ts)
  from map_of_SomeD [OF this] Some show ?thesis by (force simp: callees_def universe_def)
qed (simp add: callees_def)

lemma visit_spec:
  assumes "visit ns seen queue = (seen', queue')"
  shows "\<exists>new. seen' = seen @ new \<and> queue' = queue @ new \<and> set seen' = set seen \<union> set ns
    \<and> set new \<subseteq> set ns \<and> (distinct seen \<longrightarrow> distinct seen') \<and> set new = set ns - set seen"
  using assms
proof (induction ns arbitrary: seen queue)
  case Nil
  then show ?case by simp
next
  case (Cons n ns)
  show ?case
  proof (cases "n \<in> set seen")
    case True
    with Cons.prems have "visit ns seen queue = (seen', queue')" by simp
    from Cons.IH [OF this] True show ?thesis by auto
  next
    case False
    with Cons.prems have "visit ns (seen @ [n]) (queue @ [n]) = (seen', queue')" by simp
    from Cons.IH [OF this] obtain new where "seen' = seen @ [n] @ new" "queue' = queue @ [n] @ new"
      "set seen' = set seen \<union> {n} \<union> set ns" "set new \<subseteq> set ns" "distinct seen \<longrightarrow> distinct seen'"
      "set new = set ns - (set seen \<union> {n})"
      using False by (auto simp: Un_assoc)
    with False show ?thesis by (intro exI [of _ "n # new"]) auto
  qed
qed

text \<open>A node that finds something new leaves less to find; one that does not leaves the queue shorter.\<close>

lemma visit_decreases:
  assumes "visit (callees g node) seen queue = (s, q)"
  shows "card (universe g s - set s) < card (universe g seen - set seen) \<or> s = seen \<and> q = queue"
proof -
  from visit_spec [OF assms] obtain new where n: "s = seen @ new" "q = queue @ new"
    "set new = set (callees g node) - set seen" by blast
  have u: "universe g s = universe g seen"
    using n(1,3) callees_universe [of g node "[]"] by (auto simp: universe_def)
  show ?thesis
  proof (cases new)
    case Nil
    then show ?thesis using n by simp
  next
    case (Cons a as)
    then have "a \<in> universe g seen - set seen" "a \<in> set s"
      using n(1,3) callees_universe [of g node seen] by auto
    then have "universe g s - set s \<subset> universe g seen - set seen" using u n(1) by auto
    moreover have "finite (universe g seen - set seen)" by (simp add: universe_def)
    ultimately show ?thesis using psubset_card_mono by blast
  qed
qed

function bfs :: "'a::linorder graph \<Rightarrow> 'a list \<Rightarrow> 'a list \<Rightarrow> 'a list \<Rightarrow> 'a list \<times> 'a list" where
  "bfs g seen [] order = (seen, order)"
| "bfs g seen (node # queue) order =
     (case visit (callees g node) seen queue of (seen', queue') \<Rightarrow> bfs g seen' queue' (order @ [node]))"
  by pat_completeness auto
termination
  by (relation "measures [\<lambda>(g, seen, queue, order). card (universe g seen - set seen),
      \<lambda>(g, seen, queue, order). length queue]")
    (auto dest!: sym [of _ "visit _ _ _"] dest: visit_decreases)

text \<open>The roots that are in the graph start the search; the others are reported.\<close>

definition in_graph :: "'a graph \<Rightarrow> 'a \<Rightarrow> bool" where
  "in_graph g r \<longleftrightarrow> map_of g r \<noteq> None"

definition reachable :: "'a::linorder graph \<Rightarrow> 'a list \<Rightarrow> 'a list \<times> 'a list \<times> 'a list" where
  "reachable g roots =
     (let start = filter (in_graph g) roots;
          missing_roots = filter (\<lambda>r. \<not> in_graph g r) roots;
          (seen, order) = bfs g (remdups start) start []
      in (seen, order, missing_roots))"

section \<open>Reachability\<close>

definition edges :: "'a::linorder graph \<Rightarrow> ('a \<times> 'a) set" where
  "edges g = {(u, v). v \<in> set (callees g u)}"

lemma bfs_closure:
  "bfs g seen queue order = (seen', order') \<Longrightarrow> set seen = set order \<union> set queue \<Longrightarrow>
    \<forall>u\<in>set order. set (callees g u) \<subseteq> set seen \<Longrightarrow>
    set seen \<subseteq> set seen' \<and> set seen' = set order' \<and> (\<forall>u\<in>set seen'. set (callees g u) \<subseteq> set seen')
      \<and> set seen' \<subseteq> (edges g)\<^sup>* `` set seen \<and> (distinct seen \<longrightarrow> distinct seen')"
proof (induction g seen queue order arbitrary: seen' order' rule: bfs.induct)
  case (1 g seen order)
  then show ?case by (auto intro: rtrancl_refl)
next
  case (2 g seen node queue order)
  obtain s q where v: "visit (callees g node) seen queue = (s, q)" by fastforce
  from visit_spec [OF v] obtain new where n: "s = seen @ new" "q = queue @ new"
    "set s = set seen \<union> set (callees g node)" "distinct seen \<longrightarrow> distinct s" by blast
  have b: "bfs g s q (order @ [node]) = (seen', order')" using "2.prems"(1) v by simp
  have "set s = set (order @ [node]) \<union> set q" using n "2.prems"(2) by auto
  moreover have "\<forall>u\<in>set (order @ [node]). set (callees g u) \<subseteq> set s" using "2.prems"(3) n(3) by auto
  ultimately have IH: "set s \<subseteq> set seen' \<and> set seen' = set order' \<and> (\<forall>u\<in>set seen'. set (callees g u) \<subseteq> set seen')
      \<and> set seen' \<subseteq> (edges g)\<^sup>* `` set s \<and> (distinct s \<longrightarrow> distinct seen')"
    using "2.IH" [OF v [symmetric] b] by blast
  have "set s \<subseteq> (edges g)\<^sup>* `` set seen"
  proof
    fix x assume "x \<in> set s"
    then show "x \<in> (edges g)\<^sup>* `` set seen"
      using n(3) "2.prems"(2) by (auto simp: edges_def intro: r_into_rtrancl)
  qed
  then have "(edges g)\<^sup>* `` set s \<subseteq> (edges g)\<^sup>* `` set seen"
    by (auto dest!: subsetD intro: rtrancl_trans)
  moreover have "set seen \<subseteq> set s" using n(1) by simp
  ultimately show ?case using IH n(4) by blast
qed

lemma closed_rtrancl: "(u, v) \<in> (edges g)\<^sup>* \<Longrightarrow> u \<in> S \<Longrightarrow> \<forall>u\<in>S. set (callees g u) \<subseteq> S \<Longrightarrow> v \<in> S"
  by (induction rule: rtrancl_induct) (auto simp: edges_def)

lemma reachable_spec:
  assumes "reachable g roots = (seen, order, missing_roots)"
  shows "set seen = (edges g)\<^sup>* `` {r \<in> set roots. in_graph g r}" "set order = set seen" "distinct seen"
    "missing_roots = filter (\<lambda>r. \<not> in_graph g r) roots"
proof -
  let ?start = "filter (in_graph g) roots"
  from assms have b: "bfs g (remdups ?start) ?start [] = (seen, order)"
    and m: "missing_roots = filter (\<lambda>r. \<not> in_graph g r) roots"
    by (auto simp: reachable_def Let_def split: prod.splits)
  have "set ?start \<subseteq> set seen \<and> set seen = set order \<and> (\<forall>u\<in>set seen. set (callees g u) \<subseteq> set seen)
      \<and> set seen \<subseteq> (edges g)\<^sup>* `` set ?start \<and> distinct seen"
    using bfs_closure [OF b] by (simp only: set_remdups distinct_remdups list.set(1)) blast
  then have c: "set ?start \<subseteq> set seen" "set seen = set order"
    "\<forall>u\<in>set seen. set (callees g u) \<subseteq> set seen" "set seen \<subseteq> (edges g)\<^sup>* `` set ?start" "distinct seen"
    by blast+
  have "(edges g)\<^sup>* `` set ?start \<subseteq> set seen" using c(1,3) closed_rtrancl by blast
  with c m show "set seen = (edges g)\<^sup>* `` {r \<in> set roots. in_graph g r}" "set order = set seen" "distinct seen"
    "missing_roots = filter (\<lambda>r. \<not> in_graph g r) roots" by auto
qed

section \<open>Shortest paths\<close>

text \<open>The loop of \<open>shortest_path\<close>: \<open>prev\<close> records who found a node.\<close>

fun visit_prev :: "'a \<Rightarrow> 'a list \<Rightarrow> 'a list \<Rightarrow> 'a list \<Rightarrow> ('a, 'a) dict \<Rightarrow> 'a list \<times> 'a list \<times> ('a, 'a) dict" where
  "visit_prev node [] seen queue prev = (seen, queue, prev)"
| "visit_prev node (n # ns) seen queue prev =
     (if n \<in> set seen then visit_prev node ns seen queue prev
      else visit_prev node ns (seen @ [n]) (queue @ [n]) (dict_put n node prev))"

text \<open>\<open>while path[-1] in prev: path.append(prev[path[-1]])\<close>, then reversed. \<open>None\<close> is a loop that never ends.\<close>

partial_function (option) trace :: "('a, 'a) dict \<Rightarrow> 'a \<Rightarrow> 'a list option" where
  "trace prev v = (case map_of prev v of
       None \<Rightarrow> Some [v]
     | Some p \<Rightarrow> Option.bind (trace prev p) (\<lambda>path. Some (path @ [v])))"

lemma visit_prev_visit:
  "visit_prev node ns seen queue prev = (s, q, p) \<Longrightarrow> visit ns seen queue = (s, q)"
  by (induction ns arbitrary: seen queue prev) (auto split: if_splits)

function find_path :: "'a::linorder graph \<Rightarrow> 'a \<Rightarrow> 'a list \<Rightarrow> 'a list \<Rightarrow> ('a, 'a) dict \<Rightarrow> 'a list option" where
  "find_path g target seen [] prev = Some [target]"
| "find_path g target seen (node # queue) prev =
     (if node = target then trace prev node
      else case visit_prev node (callees g node) seen queue prev of (seen', queue', prev') \<Rightarrow>
        find_path g target seen' queue' prev')"
  by pat_completeness auto

termination
proof (relation "measures [\<lambda>(g, target, seen, queue, prev). card (universe g seen - set seen),
      \<lambda>(g, target, seen, queue, prev). length queue]", goal_cases)
  case 1
  show ?case by simp
next
  case (2 g target seen node queue prev seen' y queue' prev')
  then have "visit (callees g node) seen queue = (seen', queue')" by (metis visit_prev_visit)
  from visit_decreases [OF this] show ?case by auto
qed

definition shortest_path :: "'a::linorder graph \<Rightarrow> 'a list \<Rightarrow> 'a \<Rightarrow> 'a list option" where
  "shortest_path g roots target =
     (let start = filter (in_graph g) roots in find_path g target (remdups start) start [])"

lemma visit_prev_spec:
  assumes "visit_prev node ns seen queue prev = (s, q, p)"
  shows "\<exists>new. s = seen @ new \<and> q = queue @ new \<and> set new = set ns - set seen
    \<and> map_of p = (\<lambda>v. if v \<in> set new then Some node else map_of prev v)"
  using assms
proof (induction ns arbitrary: seen queue prev)
  case Nil
  then show ?case by simp
next
  case (Cons n ns)
  show ?case
  proof (cases "n \<in> set seen")
    case True
    with Cons.prems have "visit_prev node ns seen queue prev = (s, q, p)" by simp
    from Cons.IH [OF this] True show ?thesis by auto
  next
    case False
    with Cons.prems have "visit_prev node ns (seen @ [n]) (queue @ [n]) (dict_put n node prev) = (s, q, p)" by simp
    from Cons.IH [OF this] obtain new where "s = (seen @ [n]) @ new" "q = (queue @ [n]) @ new"
      "set new = set ns - set (seen @ [n])"
      "map_of p = (\<lambda>v. if v \<in> set new then Some node else map_of (dict_put n node prev) v)" by blast
    with False show ?thesis by (intro exI [of _ "n # new"]) (auto simp: fun_eq_iff)
  qed
qed

text \<open>What the search knows: \<open>d\<close> is the depth at which a node was found, \<open>dn\<close> the nodes already expanded.\<close>

definition search_inv ::
    "'a::linorder graph \<Rightarrow> 'a set \<Rightarrow> ('a \<Rightarrow> nat) \<Rightarrow> 'a set \<Rightarrow> 'a list \<Rightarrow> 'a list \<Rightarrow> ('a, 'a) dict \<Rightarrow> bool" where
  "search_inv g start d dn seen queue prev \<longleftrightarrow>
     set seen = dn \<union> set queue \<and> start \<subseteq> set seen
     \<and> (\<forall>v \<in> set seen. map_of prev v = None \<longrightarrow> v \<in> start)
     \<and> (\<forall>v \<in> start. d v = 0 \<and> map_of prev v = None)
     \<and> (\<forall>v p. map_of prev v = Some p \<longrightarrow> v \<in> set seen \<and> p \<in> dn \<and> v \<in> set (callees g p) \<and> d v = Suc (d p))
     \<and> (\<forall>u \<in> dn. \<forall>v \<in> set (callees g u). v \<in> set seen \<and> d v \<le> Suc (d u))
     \<and> sorted (map d queue)
     \<and> (\<forall>u \<in> dn. \<forall>x \<in> set queue. d u \<le> d x)
     \<and> (\<forall>x \<in> set queue. \<forall>y \<in> set queue. d y \<le> Suc (d x))"

lemma search_invD:
  assumes "search_inv g start d dn seen queue prev"
  shows "set seen = dn \<union> set queue" "start \<subseteq> set seen"
    "\<forall>v \<in> set seen. map_of prev v = None \<longrightarrow> v \<in> start"
    "\<forall>v \<in> start. d v = 0 \<and> map_of prev v = None"
    "\<forall>v p. map_of prev v = Some p \<longrightarrow> v \<in> set seen \<and> p \<in> dn \<and> v \<in> set (callees g p) \<and> d v = Suc (d p)"
    "\<forall>u \<in> dn. \<forall>v \<in> set (callees g u). v \<in> set seen \<and> d v \<le> Suc (d u)"
    "sorted (map d queue)" "\<forall>u \<in> dn. \<forall>x \<in> set queue. d u \<le> d x"
    "\<forall>x \<in> set queue. \<forall>y \<in> set queue. d y \<le> Suc (d x)"
  by (insert assms [unfolded search_inv_def], elim conjE, assumption)+

lemma search_inv_step:
  assumes "search_inv g start d dn seen (node # queue) prev"
    and "visit_prev node (callees g node) seen queue prev = (s, q, p)"
  shows "\<exists>d'. search_inv g start d' (insert node dn) s q p"
proof -
  from visit_prev_spec [OF assms(2)] obtain new where n: "s = seen @ new" "q = queue @ new"
    "set new = set (callees g node) - set seen"
    "map_of p = (\<lambda>v. if v \<in> set new then Some node else map_of prev v)" by blast
  define d' where "d' = (\<lambda>v. if v \<in> set new then Suc (d node) else d v)"
  note inv = search_invD [OF assms(1)]
  have seen: "set seen = dn \<union> insert node (set queue)" using inv(1) by simp
  have start: "start \<subseteq> set seen" using inv(2) .
  have root: "v \<in> set seen \<Longrightarrow> map_of prev v = None \<Longrightarrow> v \<in> start" for v using inv(3) by blast
  have start0: "v \<in> start \<Longrightarrow> d v = 0 \<and> map_of prev v = None" for v using inv(4) by blast
  have par: "map_of prev v = Some p \<Longrightarrow> v \<in> set seen \<and> p \<in> dn \<and> v \<in> set (callees g p) \<and> d v = Suc (d p)" for v p
    using inv(5) by blast
  have expd: "u \<in> dn \<Longrightarrow> v \<in> set (callees g u) \<Longrightarrow> v \<in> set seen \<and> d v \<le> Suc (d u)" for u v
    using inv(6) by blast
  have sorted: "sorted (map d queue)" using inv(7) by simp
  have dnq: "u \<in> dn \<Longrightarrow> x \<in> set (node # queue) \<Longrightarrow> d u \<le> d x" for u x using inv(8) by blast
  have span: "x \<in> set (node # queue) \<Longrightarrow> y \<in> set (node # queue) \<Longrightarrow> d y \<le> Suc (d x)" for x y
    using inv(9) by blast
  have first: "x \<in> set queue \<Longrightarrow> d node \<le> d x" for x using inv(7) by simp
  have old: "d' v = d v" if "v \<in> set seen" for v using that n(3) by (simp add: d'_def)
  have fresh: "d' v = Suc (d node)" if "v \<in> set new" for v using that by (simp add: d'_def)
  have node: "node \<in> set seen" "d' node = d node" using seen old by auto
  have dn: "u \<in> dn \<Longrightarrow> d' u = d u" "x \<in> set queue \<Longrightarrow> d' x = d x" for u x using seen old by auto
  have mq: "map d' queue = map d queue" using dn(2) by simp
  have qs: "x \<in> set q \<Longrightarrow> d node \<le> d' x \<and> d' x \<le> Suc (d node)" for x
    using n(2) dn(2) fresh first span [of node x] by auto
  have dle: "u \<in> insert node dn \<Longrightarrow> d' u \<le> d node" for u
    using dn(1) node(2) dnq [of u node] by auto
  have "sorted (map d' new)" using fresh by (simp add: sorted_iff_nth_mono)
  moreover have "\<forall>x \<in> set queue. \<forall>y \<in> set new. d' x \<le> d' y"
    using fresh dn(2) span [of node] by simp
  moreover have "sorted (map d' queue)" using sorted mq by metis
  ultimately have "sorted (map d' q)" unfolding n(2) by (auto simp: sorted_append)
  moreover have "\<forall>u \<in> insert node dn. \<forall>x \<in> set q. d' u \<le> d' x"
    using qs dle order_trans by blast
  moreover have "\<forall>x \<in> set q. \<forall>y \<in> set q. d' y \<le> Suc (d' x)"
    using qs by (meson Suc_le_mono order_trans)
  moreover have "\<forall>u \<in> insert node dn. \<forall>v \<in> set (callees g u). v \<in> set s \<and> d' v \<le> Suc (d' u)"
  proof (intro ballI)
    fix u v assume u: "u \<in> insert node dn" and v: "v \<in> set (callees g u)"
    show "v \<in> set s \<and> d' v \<le> Suc (d' u)"
    proof (cases "u \<in> dn")
      case True
      with expd v have "v \<in> set seen \<and> d v \<le> Suc (d u)" by blast
      with True dn(1) old n(1) show ?thesis by auto
    next
      case False
      with u have "u = node" by simp
      show ?thesis
      proof (cases "v \<in> set seen")
        case True
        then have "d v \<le> Suc (d node)"
          using seen dnq [of v node] span [of node v] by auto
        with True \<open>u = node\<close> node old n(1) show ?thesis by simp
      next
        case False
        then have "v \<in> set new" using v \<open>u = node\<close> n(3) by simp
        with \<open>u = node\<close> node fresh n(1) show ?thesis by simp
      qed
    qed
  qed
  moreover have "\<forall>v pp. map_of p v = Some pp \<longrightarrow> v \<in> set s \<and> pp \<in> insert node dn \<and> v \<in> set (callees g pp) \<and> d' v = Suc (d' pp)"
    using par n old fresh node dn(1) by (auto split: if_splits)
  moreover have "\<forall>v \<in> start. d' v = 0 \<and> map_of p v = None"
    using start start0 n(3,4) old by auto
  moreover have "\<forall>v \<in> set s. map_of p v = None \<longrightarrow> v \<in> start"
    using root n(1,4) by auto
  moreover have "set s = insert node dn \<union> set q" "start \<subseteq> set s" using seen start n(1,2) by auto
  ultimately show ?thesis unfolding search_inv_def by blast
qed

text \<open>A call path from one of the start nodes, and a shortest one.\<close>

definition call_path :: "'a::linorder graph \<Rightarrow> 'a set \<Rightarrow> 'a \<Rightarrow> 'a list \<Rightarrow> bool" where
  "call_path g start v path \<longleftrightarrow> path \<noteq> [] \<and> hd path \<in> start \<and> last path = v
     \<and> successively (\<lambda>u v. v \<in> set (callees g u)) path"

lemma call_path_snoc:
  "call_path g start p path \<Longrightarrow> v \<in> set (callees g p) \<Longrightarrow> call_path g start v (path @ [v])"
  by (auto simp: call_path_def successively_append_iff)

lemma call_path_reachable: "call_path g start v path \<Longrightarrow> v \<in> (edges g)\<^sup>* `` start"
proof (induction path arbitrary: v rule: rev_induct)
  case Nil
  then show ?case by (simp add: call_path_def)
next
  case (snoc x path)
  show ?case
  proof (cases "path = []")
    case True
    with snoc.prems have "v \<in> start" by (auto simp: call_path_def)
    then show ?thesis by blast
  next
    case False
    with snoc.prems have "call_path g start (last path) path" "(last path, v) \<in> edges g"
      by (auto simp: call_path_def successively_append_iff edges_def)
    with snoc.IH show ?thesis by (meson Image_iff rtrancl.rtrancl_into_rtrancl)
  qed
qed

lemma trace_path:
  assumes "search_inv g start d dn seen queue prev" "v \<in> set seen"
  shows "\<exists>path. trace prev v = Some path \<and> call_path g start v path \<and> length path = Suc (d v)"
  using assms(2)
proof (induction "d v" arbitrary: v rule: less_induct)
  case less
  note inv = search_invD [OF assms(1)]
  show ?case
  proof (cases "map_of prev v")
    case None
    then have "v \<in> start" using inv(3) less.prems by blast
    moreover from this have "d v = 0" using inv(4) by blast
    ultimately show ?thesis using None by (subst trace.simps) (simp add: call_path_def)
  next
    case (Some p)
    then have "p \<in> dn \<and> v \<in> set (callees g p) \<and> d v = Suc (d p)" using inv(5) by blast
    moreover from this have "p \<in> set seen" using inv(1) by blast
    ultimately obtain path where "trace prev p = Some path" "call_path g start p path"
      "length path = Suc (d p)" "v \<in> set (callees g p)" "d v = Suc (d p)"
      using less.hyps [of p] by auto
    then show ?thesis using Some call_path_snoc by (subst trace.simps) fastforce
  qed
qed

text \<open>Nothing has been missed: a path from the start is inside what was expanded until it meets the queue.\<close>

lemma path_meets_queue:
  assumes "search_inv g start d dn seen queue prev"
  shows "call_path g start v path \<Longrightarrow>
    v \<in> set seen \<and> d v < length path \<or> (\<exists>x \<in> set queue. d x < length path)"
proof (induction path arbitrary: v rule: rev_induct)
  case Nil
  then show ?case by (simp add: call_path_def)
next
  case (snoc x path)
  note inv = search_invD [OF assms(1)]
  show ?case
  proof (cases "path = []")
    case True
    with snoc.prems have "v \<in> start" by (auto simp: call_path_def)
    moreover from this have "d v = 0" using inv(4) by blast
    moreover have "start \<subseteq> set seen" using inv(2) .
    ultimately show ?thesis by auto
  next
    case False
    with snoc.prems have p: "call_path g start (last path) path" "v \<in> set (callees g (last path))"
      by (auto simp: call_path_def successively_append_iff)
    show ?thesis
    proof (cases "last path \<in> dn \<and> d (last path) < length path")
      case True
      then have "v \<in> set seen \<and> d v \<le> Suc (d (last path))" using inv(6) p(2) by blast
      with True show ?thesis by auto
    next
      case False
      have "set seen = dn \<union> set queue" using inv(1) .
      with snoc.IH [OF p(1)] False obtain x where "x \<in> set queue" "d x < length path" by blast
      then have "\<exists>x \<in> set queue. d x < length (path @ [v'])" for v' by (intro bexI [of _ x]) simp_all
      then show ?thesis by simp
    qed
  qed
qed

lemma find_path_correct:
  "search_inv g start d dn seen queue prev \<Longrightarrow> target \<notin> dn \<Longrightarrow>
    \<exists>path. find_path g target seen queue prev = Some path \<and>
      (call_path g start target path \<and> (\<forall>other. call_path g start target other \<longrightarrow> length path \<le> length other)
       \<or> path = [target] \<and> (\<forall>other. \<not> call_path g start target other))"
proof (induction g target seen queue prev arbitrary: d dn rule: find_path.induct)
  case (1 g target seen prev)
  have "\<not> call_path g start target other" for other
  proof
    assume "call_path g start target other"
    from path_meets_queue [OF "1.prems"(1) this] have "target \<in> set seen" by simp
    with "1.prems" search_invD(1) show False by fastforce
  qed
  then show ?case by simp
next
  case (2 g target seen node queue prev)
  show ?case
  proof (cases "node = target")
    case True
    note inv = search_invD [OF "2.prems"(1)]
    have "target \<in> set seen" using inv(1) True by simp
    from trace_path [OF "2.prems"(1) this] obtain path where path: "trace prev target = Some path"
      "call_path g start target path" "length path = Suc (d target)" by blast
    have "\<forall>x \<in> set (node # queue). d node \<le> d x" using inv(7) by simp
    then have "length path \<le> length other" if "call_path g start target other" for other
      using path_meets_queue [OF "2.prems"(1) that] path(3) True by fastforce
    with path True show ?thesis by simp
  next
    case False
    obtain s q p where v: "visit_prev node (callees g node) seen queue prev = (s, q, p)"
      using prod_cases3 by blast
    from search_inv_step [OF "2.prems"(1) v] obtain d' where "search_inv g start d' (insert node dn) s q p" ..
    from "2.IH" [OF False v [symmetric] refl this] "2.prems"(2) False v show ?thesis by simp
  qed
qed

lemma search_inv_start: "search_inv g (set start) (\<lambda>_. 0) {} (remdups start) start []"
  by (simp add: search_inv_def sorted_iff_nth_mono)

text \<open>A call path no other call path from the start is shorter than.\<close>

definition shortest_call_path :: "'a::linorder graph \<Rightarrow> 'a set \<Rightarrow> 'a \<Rightarrow> 'a list \<Rightarrow> bool" where
  "shortest_call_path g start v path \<longleftrightarrow> call_path g start v path
     \<and> (\<forall>other. call_path g start v other \<longrightarrow> length path \<le> length other)"

lemma call_path_exists: "v \<in> (edges g)\<^sup>* `` start \<longleftrightarrow> (\<exists>path. call_path g start v path)"
proof
  assume "v \<in> (edges g)\<^sup>* `` start"
  then obtain r where "(r, v) \<in> (edges g)\<^sup>*" and r: "r \<in> start" by blast
  then show "\<exists>path. call_path g start v path"
  proof (induction rule: rtrancl_induct)
    case base
    from r have "call_path g start r [r]" by (simp add: call_path_def)
    then show ?case ..
  next
    case (step y z)
    then obtain path where "call_path g start y path" "z \<in> set (callees g y)" by (auto simp: edges_def)
    then show ?case using call_path_snoc by blast
  qed
qed (use call_path_reachable in blast)

lemma shortest_path_found:
  "\<exists>path. shortest_path g roots target = Some path \<and>
    (shortest_call_path g {r \<in> set roots. in_graph g r} target path
     \<or> path = [target] \<and> target \<notin> (edges g)\<^sup>* `` {r \<in> set roots. in_graph g r})"
  using find_path_correct [OF search_inv_start, of target g "filter (in_graph g) roots"]
  by (auto simp: shortest_path_def Let_def shortest_call_path_def call_path_exists)

section \<open>What a search promises\<close>

text \<open>The contract of \<open>reachable\<close> that the gates rely on. With every root present, a property of all names in
  \<open>seen\<close> is a property of the end of every call path from the roots.\<close>

locale closure_search =
  fixes search :: "'a::linorder graph \<Rightarrow> 'a list \<Rightarrow> 'a list \<times> 'a list \<times> 'a list"
  assumes search_exact: "search g roots = (seen, order, missing_roots) \<Longrightarrow>
    set seen = (edges g)\<^sup>* `` {r \<in> set roots. in_graph g r} \<and> missing_roots = filter (\<lambda>r. \<not> in_graph g r) roots"
begin

lemma all_roots_present:
  assumes "search g roots = (seen, order, missing_roots)"
  shows "missing_roots = [] \<longleftrightarrow> (\<forall>r \<in> set roots. in_graph g r)"
  using search_exact [OF assms] by (simp add: filter_empty_conv)

lemma seen_iff_call_path:
  assumes "search g roots = (seen, order, missing_roots)" "missing_roots = []"
  shows "v \<in> set seen \<longleftrightarrow> (\<exists>path. call_path g (set roots) v path)"
proof -
  have "{r \<in> set roots. in_graph g r} = set roots" using all_roots_present [OF assms(1)] assms(2) by blast
  with search_exact [OF assms(1)] show ?thesis by (simp add: call_path_exists)
qed

lemma seen_avoids:
  assumes "search g roots = (seen, order, missing_roots)" "missing_roots = []"
  shows "(\<forall>v \<in> set seen. \<not> P v) \<longleftrightarrow> (\<forall>path v. call_path g (set roots) v path \<longrightarrow> \<not> P v)"
  using seen_iff_call_path [OF assms] by blast

end

interpretation bfs_search: closure_search reachable
  by unfold_locales (intro conjI, (erule reachable_spec)+)

section \<open>Properties\<close>

text \<open>\<open>reachable\<close> is exact: \<open>seen\<close> holds, without duplicates, exactly the names that direct
  call edges lead to from the roots that are in the graph, \<open>order\<close> lists the same names, and the roots that are
  not in the graph are reported in their order.\<close>

theorem reachable_exact:
  "case reachable g roots of (seen, order, missing_roots) \<Rightarrow>
     distinct seen \<and> set seen = (edges g)\<^sup>* `` {r \<in> set roots. in_graph g r} \<and> set order = set seen
     \<and> missing_roots = filter (\<lambda>r. \<not> in_graph g r) roots"
proof -
  obtain seen order missing_roots where r: "reachable g roots = (seen, order, missing_roots)"
    using prod_cases3 by blast
  show ?thesis using reachable_spec [OF r] by (simp add: r)
qed

text \<open>\<open>shortest_path\<close> always returns. For a name that can be reached from the roots it returns a
  call path from a root to it that no other call path is shorter than; for any other name it returns the
  name alone.\<close>

theorem shortest_path_correct:
  "case shortest_path g roots target of None \<Rightarrow> False | Some path \<Rightarrow>
     if target \<in> (edges g)\<^sup>* `` {r \<in> set roots. in_graph g r}
     then shortest_call_path g {r \<in> set roots. in_graph g r} target path else path = [target]"
proof -
  from shortest_path_found [of g roots target] obtain path where p: "shortest_path g roots target = Some path"
    "shortest_call_path g {r \<in> set roots. in_graph g r} target path
     \<or> path = [target] \<and> target \<notin> (edges g)\<^sup>* `` {r \<in> set roots. in_graph g r}" by blast
  from p(2) call_path_reachable show ?thesis by (auto simp: p(1) shortest_call_path_def)
qed

end
