(* ===== verification/Symbol_Scan.thy ===== *)
theory Symbol_Scan
  imports Call_Graph
begin

text \<open>
  \<open>firmware/gate/check_measure_symbols.py\<close>, the readers: the regular expressions as matchers over the
  character classes of \<open>Py_Text\<close>, with what they accept proved as patterns; \<open>build_graph\<close> and
  \<open>nm_symbols\<close> over the text that \<open>objdump -d\<close> and \<open>nm\<close> print, which is an argument.
\<close>

section \<open>The patterns\<close>

text \<open>\<open>FUNC_HEADER\<close>: an address, blanks, \<open><name>:\<close> and nothing but blanks after it; the name.\<close>

definition func_header :: "string \<Rightarrow> string option" where
  "func_header line =
     (let r1 = dropWhile is_hex line; r2 = dropWhile is_blank r1 in
      if takeWhile is_hex line = [] \<or> takeWhile is_blank r1 = [] then None
      else case after ''<'' r2 of None \<Rightarrow> None
        | Some r3 \<Rightarrow> (let name = takeWhile (\<lambda>c. c \<noteq> CHR ''>'') r3 in
            case after ''>:'' (dropWhile (\<lambda>c. c \<noteq> CHR ''>'') r3) of None \<Rightarrow> None
            | Some r4 \<Rightarrow> if name \<noteq> [] \<and> list_all is_blank r4 then Some name else None))"

text \<open>\<open>CALL_TARGET\<close> at the start of a text: the name and what follows the match.\<close>

definition target_at :: "string \<Rightarrow> (string \<times> string) option" where
  "target_at s =
     (case after ''<'' s of None \<Rightarrow> None
      | Some r \<Rightarrow> (let name = takeWhile (\<lambda>c. c \<noteq> CHR ''>'' \<and> c \<noteq> CHR ''+'') r;
                      r1 = dropWhile (\<lambda>c. c \<noteq> CHR ''>'' \<and> c \<noteq> CHR ''+'') r;
                      r2 = (case after ''+0x'' r1 of None \<Rightarrow> Some r1
                            | Some h \<Rightarrow> if takeWhile is_hex h = [] then None else Some (dropWhile is_hex h))
          in if name = [] then None
             else case Option.bind r2 (after ''>'') of None \<Rightarrow> None | Some r3 \<Rightarrow> Some (name, r3)))"

lemma blank_not_hex: "is_blank c \<Longrightarrow> \<not> is_hex c"
  by (auto simp: is_blank_def is_hex_def is_digit_def among_def Let_def less_eq_char_def less_char_def)

lemma span_append:
  "list_all P xs \<Longrightarrow> ys = [] \<or> \<not> P (hd ys) \<Longrightarrow> takeWhile P (xs @ ys) = xs \<and> dropWhile P (xs @ ys) = ys"
  by (cases ys) (auto simp: takeWhile_append dropWhile_append list_all_iff takeWhile_eq_all_conv)

lemma list_all_takeWhile: "list_all P (takeWhile P xs)"
  by (auto simp: list_all_iff dest: set_takeWhileD)

lemma target_at_iff:
  "target_at s = Some (name, r) \<longleftrightarrow> name \<noteq> [] \<and> CHR ''>'' \<notin> set name \<and> CHR ''+'' \<notin> set name
     \<and> (s = ''<'' @ name @ ''>'' @ r
        \<or> (\<exists>h. h \<noteq> [] \<and> list_all is_hex h \<and> s = ''<'' @ name @ ''+0x'' @ h @ ''>'' @ r))"
  (is "?L \<longleftrightarrow> ?name \<and> _ \<and> _ \<and> ?tail")
proof -
  let ?p = "\<lambda>c. c \<noteq> CHR ''>'' \<and> c \<noteq> CHR ''+''"
  have nh: "\<not> is_hex CHR ''>''" by (simp add: is_hex_def is_digit_def among_def less_eq_char_def less_char_def)
  show ?thesis
  proof
    assume L: ?L
    then obtain u where u: "s = ''<'' @ u" by (auto simp: target_at_def after_Some split: option.splits)
    have L': "(let r2 = (case after ''+0x'' (dropWhile ?p u) of None \<Rightarrow> Some (dropWhile ?p u)
            | Some h \<Rightarrow> if takeWhile is_hex h = [] then None else Some (dropWhile is_hex h))
          in if takeWhile ?p u = [] then None
             else case Option.bind r2 (after ''>'') of None \<Rightarrow> None | Some r3 \<Rightarrow> Some (takeWhile ?p u, r3)) = Some (name, r)"
      using L unfolding target_at_def u by (simp add: Let_def)
    have name: "name = takeWhile ?p u" "name \<noteq> []"
      using L' by (auto simp: Let_def split: option.splits if_splits)
    have su: "u = name @ dropWhile ?p u" using name by simp
    have "dropWhile ?p u = ''>'' @ r \<or> (\<exists>h. h \<noteq> [] \<and> list_all is_hex h \<and> dropWhile ?p u = ''+0x'' @ h @ ''>'' @ r)"
    proof (cases "after ''+0x'' (dropWhile ?p u)")
      case None
      with L' show ?thesis by (auto simp: Let_def after_Some split: option.splits if_splits)
    next
      case (Some h)
      with L' have "takeWhile is_hex h \<noteq> []" "dropWhile is_hex h = ''>'' @ r"
        by (auto simp: Let_def after_Some split: option.splits if_splits)
      moreover have "dropWhile ?p u = ''+0x'' @ takeWhile is_hex h @ dropWhile is_hex h"
        using Some by (simp add: after_Some)
      ultimately show ?thesis using list_all_takeWhile by metis
    qed
    moreover have "CHR ''>'' \<notin> set name \<and> CHR ''+'' \<notin> set name" using name(1) by (auto dest: set_takeWhileD)
    moreover have "s = ''<'' @ name @ dropWhile ?p u" using u su by (metis append.assoc)
    ultimately show "?name \<and> CHR ''>'' \<notin> set name \<and> CHR ''+'' \<notin> set name \<and> ?tail"
      using name(2) by (elim disjE exE conjE) (simp_all only: append.assoc, blast+)
  next
    assume R: "?name \<and> CHR ''>'' \<notin> set name \<and> CHR ''+'' \<notin> set name \<and> ?tail"
    then have p: "list_all ?p name" by (auto simp: list_all_iff)
    from R consider "s = ''<'' @ name @ ''>'' @ r"
      | h where "h \<noteq> []" "list_all is_hex h" "s = ''<'' @ name @ ''+0x'' @ h @ ''>'' @ r" by blast
    then show ?L
    proof cases
      case 1
      with R span_append [OF p, of "''>'' @ r"] show ?thesis by (simp add: target_at_def Let_def after_def)
    next
      case 2
      with R span_append [OF p, of "''+0x'' @ h @ ''>'' @ r"] span_append [OF 2(2), of "''>'' @ r"] nh
      show ?thesis by (simp add: target_at_def Let_def after_def)
    qed
  qed
qed

lemma target_at_shorter: "target_at s = Some (name, r) \<Longrightarrow> length r < length s"
  by (auto simp: target_at_iff)

text \<open>\<open>CALL_TARGET.findall\<close>: leftmost matches that do not overlap.\<close>

function call_targets :: "string \<Rightarrow> string list" where
  "call_targets [] = []"
| "call_targets (c # cs) =
     (case target_at (c # cs) of None \<Rightarrow> call_targets cs | Some (name, r) \<Rightarrow> name # call_targets r)"
  by pat_completeness auto
termination
  by (relation "measure length") (auto dest: target_at_shorter)

text \<open>\<open>INDIRECT\<close>: a word \<open>bl\<close> or \<open>blx\<close>, blanks, and a register that ends at a word boundary.\<close>

definition word_ends :: "string \<Rightarrow> bool" where
  "word_ends r \<longleftrightarrow> r = [] \<or> \<not> is_word (hd r)"

definition word_starts :: "string \<Rightarrow> bool" where
  "word_starts pre \<longleftrightarrow> pre = [] \<or> \<not> is_word (last pre)"

definition register_at :: "string \<Rightarrow> bool" where
  "register_at s \<longleftrightarrow>
     (case after ''r'' s of None \<Rightarrow> False
      | Some r \<Rightarrow> takeWhile is_digit r \<noteq> [] \<and> word_ends (dropWhile is_digit r))
     \<or> (\<exists>p \<in> set [''ip'', ''lr'', ''sl'', ''fp'']. case after p s of None \<Rightarrow> False | Some r \<Rightarrow> word_ends r)"

definition indirect_at :: "string \<Rightarrow> bool" where
  "indirect_at s \<longleftrightarrow>
     (case after ''bl'' s of None \<Rightarrow> False
      | Some r \<Rightarrow> (let r1 = (case after ''x'' r of None \<Rightarrow> r | Some r' \<Rightarrow> r') in
          takeWhile is_blank r1 \<noteq> [] \<and> register_at (dropWhile is_blank r1)))"

text \<open>\<open>in_word\<close>: the character before is a word character, so no word starts here.\<close>

fun indirect_search :: "bool \<Rightarrow> string \<Rightarrow> bool" where
  "indirect_search in_word [] = False"
| "indirect_search in_word (c # cs) =
     (\<not> in_word \<and> indirect_at (c # cs) \<or> indirect_search (is_word c) cs)"

text \<open>\<open>MAP_SECTION_HEADER\<close>: the two hexadecimal numerals.\<close>

definition blanks_0x_hex :: "string \<Rightarrow> (string \<times> string) option" where
  "blanks_0x_hex s =
     (if takeWhile is_blank s = [] then None
      else case after ''0x'' (dropWhile is_blank s) of None \<Rightarrow> None
        | Some r \<Rightarrow> if takeWhile is_hex r = [] then None else Some (takeWhile is_hex r, dropWhile is_hex r))"

definition map_section_header :: "string \<Rightarrow> (string \<times> string) option" where
  "map_section_header line =
     (case after ''.sec_noinit'' line of None \<Rightarrow> None
      | Some r \<Rightarrow> (case blanks_0x_hex r of None \<Rightarrow> None
         | Some (base, r1) \<Rightarrow> (case blanks_0x_hex r1 of None \<Rightarrow> None
            | Some (extent, _) \<Rightarrow> Some (base, extent))))"

text \<open>\<open>MAP_OBJECT\<close>: the last run of non-blanks, an optional closing parenthesis dropped, when it ends in \<open>.o\<close>.\<close>

definition last_run :: "string \<Rightarrow> string" where
  "last_run line = rev (takeWhile (\<lambda>c. \<not> is_blank c) (dropWhile is_blank (rev line)))"

definition object_name :: "string \<Rightarrow> string option" where
  "object_name t = (if suffix ''.o'' t \<and> length t > 2 then Some t else None)"

definition map_object :: "string \<Rightarrow> string option" where
  "map_object line =
     (let t = last_run line in
      case object_name t of Some n \<Rightarrow> Some n
      | None \<Rightarrow> if suffix '')'' t then object_name (butlast t) else None)"

subsection \<open>What the matchers accept\<close>

lemma func_header_iff:
  "func_header line = Some name \<longleftrightarrow> (\<exists>addr ws tl. line = addr @ ws @ ''<'' @ name @ ''>:'' @ tl
     \<and> addr \<noteq> [] \<and> list_all is_hex addr \<and> ws \<noteq> [] \<and> list_all is_blank ws
     \<and> name \<noteq> [] \<and> CHR ''>'' \<notin> set name \<and> list_all is_blank tl)" (is "?L \<longleftrightarrow> ?R")
proof
  let ?r1 = "dropWhile is_hex line"
  assume ?L
  then obtain r3 where r3: "after ''<'' (dropWhile is_blank ?r1) = Some r3"
    and ne: "takeWhile is_hex line \<noteq> []" "takeWhile is_blank ?r1 \<noteq> []"
    by (auto simp: func_header_def Let_def split: if_splits option.splits)
  let ?gt = "\<lambda>c. c \<noteq> CHR ''>''"
  from \<open>?L\<close> r3 ne obtain r4 where r4: "after ''>:'' (dropWhile ?gt r3) = Some r4" "name = takeWhile ?gt r3"
    "name \<noteq> []" "list_all is_blank r4"
    by (auto simp: func_header_def Let_def split: if_splits option.splits)
  have "line = takeWhile is_hex line @ takeWhile is_blank ?r1 @ dropWhile is_blank ?r1" by simp
  also have "dropWhile is_blank ?r1 = ''<'' @ takeWhile ?gt r3 @ dropWhile ?gt r3" using r3 by (simp add: after_Some)
  also have "dropWhile ?gt r3 = ''>:'' @ r4" using r4(1) by (simp add: after_Some)
  finally have "line = takeWhile is_hex line @ takeWhile is_blank ?r1 @ ''<'' @ name @ ''>:'' @ r4" using r4(2) by simp
  moreover have "CHR ''>'' \<notin> set name" using r4(2) by (auto dest: set_takeWhileD)
  ultimately show ?R using ne r4(3,4) list_all_takeWhile by blast
next
  assume ?R
  then obtain addr ws tl where line: "line = addr @ ws @ ''<'' @ name @ ''>:'' @ tl"
    and *: "addr \<noteq> []" "list_all is_hex addr" "ws \<noteq> []" "list_all is_blank ws" "name \<noteq> []"
      "CHR ''>'' \<notin> set name" "list_all is_blank tl" by blast
  have "\<not> is_hex (hd (ws @ ''<'' @ name @ ''>:'' @ tl))"
    using *(3,4) blank_not_hex by (cases ws) auto
  then have a: "takeWhile is_hex line = addr" "dropWhile is_hex line = ws @ ''<'' @ name @ ''>:'' @ tl"
    using span_append [OF *(2)] line by blast+
  have "\<not> is_blank CHR ''<''" by (simp add: is_blank_def)
  then have b: "takeWhile is_blank (dropWhile is_hex line) = ws"
    "dropWhile is_blank (dropWhile is_hex line) = ''<'' @ name @ ''>:'' @ tl"
    using span_append [OF *(4), of "''<'' @ name @ ''>:'' @ tl"] a(2) by simp_all
  have "list_all (\<lambda>c. c \<noteq> CHR ''>'') name" using *(6) by (auto simp: list_all_iff)
  from span_append [OF this, of "''>:'' @ tl"]
  have "takeWhile (\<lambda>c. c \<noteq> CHR ''>'') (name @ ''>:'' @ tl) = name"
    "dropWhile (\<lambda>c. c \<noteq> CHR ''>'') (name @ ''>:'' @ tl) = ''>:'' @ tl" by simp_all
  with a b * show ?L by (simp add: func_header_def Let_def after_def)
qed


lemma indirect_at_iff:
  "indirect_at s \<longleftrightarrow> (\<exists>x ws reg rest. s = ''bl'' @ x @ ws @ reg @ rest \<and> (x = [] \<or> x = ''x'') \<and> ws \<noteq> []
     \<and> list_all is_blank ws \<and> word_ends rest
     \<and> (reg \<in> {''ip'', ''lr'', ''sl'', ''fp''} \<or> (\<exists>ds. reg = CHR ''r'' # ds \<and> ds \<noteq> [] \<and> list_all is_digit ds)))"
  (is "_ \<longleftrightarrow> ?R")
proof
  assume "indirect_at s"
  then obtain r where r: "s = ''bl'' @ r"
    and *: "let r1 = (case after ''x'' r of None \<Rightarrow> r | Some r' \<Rightarrow> r') in
          takeWhile is_blank r1 \<noteq> [] \<and> register_at (dropWhile is_blank r1)"
    by (auto simp: indirect_at_def after_Some split: option.splits)
  obtain x r1 where x: "r = x @ r1" "x = [] \<or> x = ''x''" "takeWhile is_blank r1 \<noteq> []" "register_at (dropWhile is_blank r1)"
  proof (cases "after ''x'' r")
    case None
    then show ?thesis using * that [of "[]" r] by (simp add: Let_def)
  next
    case (Some a)
    then show ?thesis using * that [of "''x''" a] by (simp add: Let_def after_Some)
  qed
  have "\<exists>reg rest. dropWhile is_blank r1 = reg @ rest \<and> word_ends rest
     \<and> (reg \<in> {''ip'', ''lr'', ''sl'', ''fp''} \<or> (\<exists>ds. reg = CHR ''r'' # ds \<and> ds \<noteq> [] \<and> list_all is_digit ds))"
  proof (cases "after ''r'' (dropWhile is_blank r1)")
    case None
    with x(4) have "\<exists>p \<in> set [''ip'', ''lr'', ''sl'', ''fp'']. case after p (dropWhile is_blank r1) of None \<Rightarrow> False | Some r \<Rightarrow> word_ends r"
      unfolding register_at_def by simp
    then obtain p where p: "p \<in> set [''ip'', ''lr'', ''sl'', ''fp'']"
      "case after p (dropWhile is_blank r1) of None \<Rightarrow> False | Some r \<Rightarrow> word_ends r" by blast
    from p(2) obtain u where "after p (dropWhile is_blank r1) = Some u" "word_ends u" by (auto split: option.splits)
    with p(1) show ?thesis by (intro exI [of _ p] exI [of _ u]) (simp add: after_Some)
  next
    case (Some u)
    show ?thesis
    proof (cases "takeWhile is_digit u \<noteq> [] \<and> word_ends (dropWhile is_digit u)")
      case True
      then show ?thesis using Some list_all_takeWhile [of is_digit u]
        by (intro exI [of _ "CHR ''r'' # takeWhile is_digit u"] exI [of _ "dropWhile is_digit u"]) (simp add: after_Some)
    next
      case False
      with Some x(4) show ?thesis by (auto simp: register_at_def after_Some split: option.splits)
    qed
  qed
  then obtain reg rest where reg: "dropWhile is_blank r1 = reg @ rest" "word_ends rest"
    "reg \<in> {''ip'', ''lr'', ''sl'', ''fp''} \<or> (\<exists>ds. reg = CHR ''r'' # ds \<and> ds \<noteq> [] \<and> list_all is_digit ds)" by blast
  have "r1 = takeWhile is_blank r1 @ reg @ rest" using takeWhile_dropWhile_id [of is_blank r1] reg(1) by simp
  with r x(1) have "s = ''bl'' @ x @ takeWhile is_blank r1 @ reg @ rest" by simp
  with x(2,3) reg(2,3) list_all_takeWhile show ?R by blast
next
  assume ?R
  then obtain x ws reg rest where s: "s = ''bl'' @ x @ ws @ reg @ rest" and x: "x = [] \<or> x = ''x''"
    and ws: "ws \<noteq> []" "list_all is_blank ws" and rest: "word_ends rest"
    and reg: "reg \<in> {''ip'', ''lr'', ''sl'', ''fp''} \<or> (\<exists>ds. reg = CHR ''r'' # ds \<and> ds \<noteq> [] \<and> list_all is_digit ds)"
    by blast
  have "\<not> is_blank (hd (reg @ rest)) \<and> reg \<noteq> []" using reg by (auto simp: is_blank_def)
  then have sp: "takeWhile is_blank (ws @ reg @ rest) = ws" "dropWhile is_blank (ws @ reg @ rest) = reg @ rest"
    using span_append [OF ws(2), of "reg @ rest"] by auto
  have "register_at (reg @ rest)"
    using reg
  proof
    assume "reg \<in> {''ip'', ''lr'', ''sl'', ''fp''}"
    with rest show ?thesis by (auto simp: register_at_def)
  next
    assume "\<exists>ds. reg = CHR ''r'' # ds \<and> ds \<noteq> [] \<and> list_all is_digit ds"
    then obtain ds where ds: "reg = CHR ''r'' # ds" "ds \<noteq> []" "list_all is_digit ds" by blast
    have "rest = [] \<or> \<not> is_digit (hd rest)" using rest by (auto simp: word_ends_def is_word_def)
    from span_append [OF ds(3) this] ds(1,2) rest show ?thesis by (simp add: register_at_def)
  qed
  moreover have "after ''x'' (ws @ reg @ rest) = None" using ws by (cases ws) (auto simp: is_blank_def)
  ultimately show "indirect_at s" using x ws(1) sp by (auto simp: indirect_at_def s)
qed

lemma indirect_search_iff:
  "indirect_search in_word s \<longleftrightarrow> (\<exists>pre post. s = pre @ post \<and> indirect_at post
     \<and> (if pre = [] then \<not> in_word else \<not> is_word (last pre)))"
proof (induction s arbitrary: in_word)
  case Nil
  then show ?case by (simp add: indirect_at_def)
next
  case (Cons c cs)
  have "(\<exists>pre post. c # cs = pre @ post \<and> indirect_at post \<and> (if pre = [] then \<not> in_word else \<not> is_word (last pre)))
    \<longleftrightarrow> \<not> in_word \<and> indirect_at (c # cs)
      \<or> (\<exists>pre post. cs = pre @ post \<and> indirect_at post \<and> (if pre = [] then \<not> is_word c else \<not> is_word (last pre)))"
    (is "?A \<longleftrightarrow> ?B \<or> ?C")
  proof
    assume ?A
    then obtain pre post where *: "c # cs = pre @ post" "indirect_at post"
      "if pre = [] then \<not> in_word else \<not> is_word (last pre)" by blast
    then show "?B \<or> ?C" by (cases pre) (auto split: if_splits)
  next
    assume "?B \<or> ?C"
    then show ?A
    proof
      assume ?B
      then show ?A by (intro exI [of _ "[]"] exI [of _ "c # cs"]) simp
    next
      assume ?C
      then obtain pre post where "cs = pre @ post" "indirect_at post"
        "if pre = [] then \<not> is_word c else \<not> is_word (last pre)" by blast
      then show ?A by (intro exI [of _ "c # pre"] exI [of _ post]) (auto split: if_splits)
    qed
  qed
  then show ?case by (simp add: Cons.IH)
qed

section \<open>The call graph\<close>

text \<open>\<open>graph\<close>, \<open>indirect_sites\<close> and \<open>current\<close> while the disassembly is read. The sets of the graph are lists
  without duplicates.\<close>

type_synonym scan = "string graph \<times> (string, int) dict \<times> string option"

definition tab :: char where "tab = CHR 0x09"

definition set_add :: "'a \<Rightarrow> 'a list \<Rightarrow> 'a list" where
  "set_add x xs = (if x \<in> set xs then xs else xs @ [x])"

fun add_targets :: "string \<Rightarrow> string list \<Rightarrow> string graph \<Rightarrow> exn + string graph" where
  "add_targets current [] graph = Inr graph"
| "add_targets current (target # ts) graph =
     bind_res (dict_get current graph) (\<lambda>old. add_targets current ts (dict_put current (set_add target old) graph))"

definition count_site :: "string \<Rightarrow> string \<Rightarrow> (string, int) dict \<Rightarrow> exn + (string, int) dict" where
  "count_site current ops sites =
     (if indirect_search False ops
      then bind_res (dict_get current sites) (\<lambda>n. Inr (dict_put current (n + 1) sites))
      else Inr sites)"

text \<open>\<open>line.split(tab, 1)[1]\<close>.\<close>

definition mnemonic_and_ops :: "string \<Rightarrow> string" where
  "mnemonic_and_ops line = tl (dropWhile (\<lambda>c. c \<noteq> tab) line)"

fun scan_line :: "scan \<Rightarrow> string \<Rightarrow> exn + scan" where
  "scan_line (graph, sites, current) line =
     (case func_header line of
        Some name \<Rightarrow> Inr (dict_default name [] graph, dict_default name 0 sites, Some name)
      | None \<Rightarrow> (case current of
          None \<Rightarrow> Inr (graph, sites, current)
        | Some cur \<Rightarrow>
            if tab \<notin> set line then Inr (graph, sites, current)
            else bind_res (count_site cur (mnemonic_and_ops line) sites) (\<lambda>sites'.
              bind_res (add_targets cur (call_targets (mnemonic_and_ops line)) graph) (\<lambda>graph'.
                Inr (graph', sites', current)))))"

fun scan_lines :: "scan \<Rightarrow> string list \<Rightarrow> exn + scan" where
  "scan_lines st [] = Inr st"
| "scan_lines st (line # ls) = bind_res (scan_line st line) (\<lambda>st'. scan_lines st' ls)"

definition build_graph :: "string \<Rightarrow> exn + (string graph \<times> (string, int) dict)" where
  "build_graph out =
     bind_res (scan_lines ([], [], None) (splitlines out)) (\<lambda>(graph, sites, _). Inr (graph, sites))"

text \<open>\<open>nm_symbols\<close>: the last field of every line that has one, as a set.\<close>

definition nm_symbols :: "string \<Rightarrow> string list" where
  "nm_symbols out = remdups (map last (filter (\<lambda>fields. fields \<noteq> []) (map split_blank (splitlines out))))"

subsection \<open>What is read\<close>

text \<open>The instructions of a disassembly, each with the function whose header it stands under.\<close>

fun instructions :: "string option \<Rightarrow> string list \<Rightarrow> (string \<times> string) list" where
  "instructions cur [] = []"
| "instructions cur (line # ls) =
     (case func_header line of
        Some name \<Rightarrow> instructions (Some name) ls
      | None \<Rightarrow> (case cur of
          None \<Rightarrow> instructions cur ls
        | Some f \<Rightarrow> if tab \<in> set line then (f, mnemonic_and_ops line) # instructions cur ls else instructions cur ls))"

definition headers :: "string list \<Rightarrow> string set" where
  "headers ls = {name. \<exists>line \<in> set ls. func_header line = Some name}"

definition indirect_count :: "string \<Rightarrow> (string \<times> string) list \<Rightarrow> int" where
  "indirect_count f instrs = int (length (filter (\<lambda>(g, ops). g = f \<and> indirect_search False ops) instrs))"

lemma headers_simps [simp]:
  "headers [] = {}"
  "headers (line # ls) = (case func_header line of Some name \<Rightarrow> {name} | None \<Rightarrow> {}) \<union> headers ls"
  by (auto simp: headers_def split: option.splits)

lemma indirect_count_simps [simp]:
  "indirect_count f [] = 0"
  "indirect_count f ((g, ops) # is) = (if g = f \<and> indirect_search False ops then 1 else 0) + indirect_count f is"
  by (auto simp: indirect_count_def)

lemma set_callees: "set (callees g u) = (case map_of g u of None \<Rightarrow> {} | Some ts \<Rightarrow> set ts)"
  by (auto simp: callees_def split: option.splits)

lemma add_targets_spec:
  "map_of g cur = Some old \<Longrightarrow> \<exists>g' new. add_targets cur ts g = Inr g'
    \<and> map_of g' = (map_of g)(cur \<mapsto> new) \<and> set new = set old \<union> set ts"
proof (induction ts arbitrary: g old)
  case Nil
  then show ?case by (auto simp: fun_eq_iff intro!: exI [of _ old])
next
  case (Cons t ts)
  have "map_of (dict_put cur (set_add t old) g) cur = Some (set_add t old)" by simp
  from Cons.IH [OF this] obtain g' new where
    "add_targets cur ts (dict_put cur (set_add t old) g) = Inr g'"
    "map_of g' = (map_of (dict_put cur (set_add t old) g))(cur \<mapsto> new)" "set new = set (set_add t old) \<union> set ts"
    by blast
  with Cons.prems show ?case by (intro exI [of _ g'] exI [of _ new]) (auto simp: dict_get_def set_add_def)
qed

text \<open>The two dictionaries have the same keys, and the current function is one of them.\<close>

definition scan_ok :: "scan \<Rightarrow> bool" where
  "scan_ok st = (case st of (graph, sites, current) \<Rightarrow>
     dom (map_of graph) = dom (map_of sites) \<and> (\<forall>f. current = Some f \<longrightarrow> f \<in> dom (map_of graph)))"

definition sites_of :: "(string, int) dict \<Rightarrow> string \<Rightarrow> int" where
  "sites_of sites f = (case map_of sites f of None \<Rightarrow> 0 | Some n \<Rightarrow> n)"

definition scan_adds :: "scan \<Rightarrow> string set \<Rightarrow> (string \<times> string) list \<Rightarrow> scan \<Rightarrow> bool" where
  "scan_adds st hs instrs st' = (case (st, st') of ((g, s, cur), (g', s', cur')) \<Rightarrow>
     dom (map_of g') = dom (map_of g) \<union> hs \<and> dom (map_of s') = dom (map_of s) \<union> hs
     \<and> edges g' = edges g \<union> {(f, t). \<exists>ops. (f, ops) \<in> set instrs \<and> t \<in> set (call_targets ops)}
     \<and> (\<forall>f. sites_of s' f = sites_of s f + indirect_count f instrs))"

lemma scan_line_adds:
  assumes "scan_ok (g, s, cur)"
  shows "\<exists>st'. scan_line (g, s, cur) line = Inr st' \<and> scan_ok st' \<and> instructions cur (line # ls)
      = instructions cur [line] @ instructions (snd (snd st')) ls
    \<and> scan_adds (g, s, cur) (headers [line]) (instructions cur [line]) st'"
proof (cases "func_header line")
  case (Some name)
  have "edges (dict_default name [] g) = edges g"
    by (auto simp: edges_def set_callees map_of_dict_default split: option.splits if_splits)
  moreover have "sites_of (dict_default name 0 s) f = sites_of s f" for f
    by (auto simp: sites_of_def map_of_dict_default split: option.splits)
  ultimately show ?thesis using Some assms
    by (auto simp: scan_ok_def scan_adds_def map_of_dict_default split: option.splits)
next
  case None
  show ?thesis
  proof (cases "cur = None \<or> tab \<notin> set line")
    case True
    with None assms show ?thesis by (auto simp: scan_adds_def split: option.splits)
  next
    case False
    then obtain f where f: "cur = Some f" "tab \<in> set line" by auto
    let ?ops = "mnemonic_and_ops line"
    from assms f have "f \<in> dom (map_of g)" "f \<in> dom (map_of s)" by (auto simp: scan_ok_def)
    then obtain old n where old: "map_of g f = Some old" "map_of s f = Some n" by blast
    from add_targets_spec [OF old(1), of "call_targets ?ops"] obtain g' new where
      g': "add_targets f (call_targets ?ops) g = Inr g'" "map_of g' = (map_of g)(f \<mapsto> new)"
      "set new = set old \<union> set (call_targets ?ops)" by blast
    define s' where "s' = (if indirect_search False ?ops then dict_put f (n + 1) s else s)"
    have "scan_line (g, s, cur) line = Inr (g', s', cur)"
      using None f g'(1) old(2) by (simp add: count_site_def dict_get_def s'_def)
    moreover have "edges g' = edges g \<union> {(u, t). u = f \<and> t \<in> set (call_targets ?ops)}"
      using g'(2,3) old(1) by (auto simp: edges_def set_callees split: option.splits if_splits)
    moreover have "sites_of s' u = sites_of s u + indirect_count u [(f, ?ops)]" for u
      using old(2) by (auto simp: sites_of_def s'_def)
    moreover have "dom (map_of g') = dom (map_of g)" "dom (map_of s') = dom (map_of s)"
      using g'(2) old by (auto simp: s'_def)
    ultimately show ?thesis using None f assms by (auto simp: scan_ok_def scan_adds_def)
  qed
qed

lemma scan_lines_adds:
  "scan_ok st \<Longrightarrow> \<exists>st'. scan_lines st ls = Inr st' \<and> scan_adds st (headers ls) (instructions (snd (snd st)) ls) st'"
proof (induction ls arbitrary: st)
  case Nil
  then show ?case by (simp add: scan_adds_def split: prod.splits)
next
  case (Cons line ls)
  obtain g s cur where st: "st = (g, s, cur)" by (cases st)
  from scan_line_adds [of g s cur line ls] Cons.prems st obtain st1 where
    1: "scan_line st line = Inr st1" "scan_ok st1"
      "instructions cur (line # ls) = instructions cur [line] @ instructions (snd (snd st1)) ls"
      "scan_adds st (headers [line]) (instructions cur [line]) st1" by blast
  from Cons.IH [OF 1(2)] obtain st' where
    2: "scan_lines st1 ls = Inr st'" "scan_adds st1 (headers ls) (instructions (snd (snd st1)) ls) st'" by blast
  have "scan_adds st (headers (line # ls)) (instructions cur [line] @ instructions (snd (snd st1)) ls) st'"
    using 1(4) 2(2) by (auto simp: scan_adds_def indirect_count_def split: prod.splits simp del: instructions.simps)
  with 1 2 st show ?case by simp
qed

lemma build_graph_total: "\<exists>graph sites. build_graph out = Inr (graph, sites)"
proof -
  have "scan_ok ([], [], None)" by (simp add: scan_ok_def)
  from scan_lines_adds [OF this, of "splitlines out"] show ?thesis
    by (auto simp: build_graph_def split_paired_all)
qed

section \<open>Properties\<close>

text \<open>C16. \<open>build_graph\<close> never raises a \<open>KeyError\<close> on any disassembly text. Its two dictionaries have as keys exactly
  the functions that have a header; its edges are exactly the pairs of a function and a target annotated on an
  instruction line under its header; and it counts for every function the instructions with an indirect call.\<close>

theorem build_graph_exact:
  "case build_graph out of Inl e \<Rightarrow> False
   | Inr (graph, sites) \<Rightarrow> (let ls = splitlines out; instrs = instructions None ls in
       dom (map_of graph) = headers ls \<and> dom (map_of sites) = headers ls
       \<and> edges graph = {(f, t). \<exists>ops. (f, ops) \<in> set instrs \<and> t \<in> set (call_targets ops)}
       \<and> (\<forall>f. sites_of sites f = indirect_count f instrs))"
proof -
  have "scan_ok ([], [], None)" by (simp add: scan_ok_def)
  from scan_lines_adds [OF this, of "splitlines out"] obtain g s c where
    "scan_lines ([], [], None) (splitlines out) = Inr (g, s, c)"
    "scan_adds ([], [], None) (headers (splitlines out)) (instructions None (splitlines out)) (g, s, c)"
    by (auto simp: split_paired_all)
  moreover have "edges ([] :: string graph) = {}" by (simp add: edges_def callees_def)
  ultimately show ?thesis
    by (simp add: build_graph_def scan_adds_def sites_of_def Let_def)
qed

text \<open>An instruction text counts as an indirect call site exactly when, outside a word, it has \<open>bl\<close> or
  \<open>blx\<close>, blanks and a register \<open>ip\<close>, \<open>lr\<close>, \<open>sl\<close>, \<open>fp\<close> or \<open>r\<close> with digits that ends at a word boundary. In
  particular a tail call through a register, \<open>bx r3\<close>, does not count.\<close>

theorem indirect_sites_exact:
  "(indirect_search False s \<longleftrightarrow> (\<exists>pre x ws reg rest. s = pre @ ''bl'' @ x @ ws @ reg @ rest
     \<and> word_starts pre \<and> (x = [] \<or> x = ''x'') \<and> ws \<noteq> [] \<and> list_all is_blank ws
     \<and> (reg \<in> {''ip'', ''lr'', ''sl'', ''fp''} \<or> (\<exists>ds. reg = CHR ''r'' # ds \<and> ds \<noteq> [] \<and> list_all is_digit ds))
     \<and> word_ends rest))
   \<and> \<not> indirect_search False (''bx'' @ [tab] @ ''r3'')"
proof (rule conjI)
  show "\<not> indirect_search False (''bx'' @ [tab] @ ''r3'')" by (simp add: tab_def indirect_at_def)
next
  show "indirect_search False s \<longleftrightarrow> (\<exists>pre x ws reg rest. s = pre @ ''bl'' @ x @ ws @ reg @ rest
     \<and> word_starts pre \<and> (x = [] \<or> x = ''x'') \<and> ws \<noteq> [] \<and> list_all is_blank ws
     \<and> (reg \<in> {''ip'', ''lr'', ''sl'', ''fp''} \<or> (\<exists>ds. reg = CHR ''r'' # ds \<and> ds \<noteq> [] \<and> list_all is_digit ds))
     \<and> word_ends rest)" (is "_ \<longleftrightarrow> ?R")
  proof
    assume "indirect_search False s"
    then obtain pre post where "s = pre @ post" "word_starts pre" "indirect_at post"
      by (auto simp: indirect_search_iff word_starts_def split: if_splits)
    then show ?R unfolding indirect_at_iff by blast
  next
    assume ?R
    then obtain pre x ws reg rest where R: "s = pre @ ''bl'' @ x @ ws @ reg @ rest"
      "word_starts pre" "x = [] \<or> x = ''x''" "ws \<noteq> []" "list_all is_blank ws"
      "reg \<in> {''ip'', ''lr'', ''sl'', ''fp''} \<or> (\<exists>ds. reg = CHR ''r'' # ds \<and> ds \<noteq> [] \<and> list_all is_digit ds)"
      "word_ends rest" by (elim exE conjE) (rule that; assumption)
    have ind: "indirect_at (''bl'' @ x @ ws @ reg @ rest)"
      unfolding indirect_at_iff
      by (rule exI [of _ x], rule exI [of _ ws], rule exI [of _ reg], rule exI [of _ rest]) (intro conjI refl R)
    show "indirect_search False s"
      unfolding indirect_search_iff by (rule exI [of _ pre], rule exI [of _ "''bl'' @ x @ ws @ reg @ rest"]) (use R(1,2) ind in \<open>auto simp: word_starts_def\<close>)
  qed
qed


end
