(* ===== verification/Symbol_Gate.thy ===== *)
theory Symbol_Gate
  imports Symbol_Scan
begin

text \<open>
  The four gates of \<open>firmware/gate/check_measure_symbols.py\<close> over the call graph, the symbol table and the map
  file (\<open>None\<close> when it cannot be opened), and their composition in \<open>main\<close>. What a gate prints is a list of
  notes: one constructor per message, with the data it shows. The exit code is a number.
\<close>

section \<open>The lists of the gates\<close>

definition DENYLIST :: "string list" where
  "DENYLIST =
     [''printf'', ''vprintf'', ''fprintf'', ''vfprintf'', ''sprintf'', ''snprintf'', ''vsprintf'', ''vsnprintf'',
      ''puts'', ''putchar'', ''fwrite'', ''fputc'', ''fputs'', ''_write'', ''_write_r'', ''write'',
      ''serial_print'', ''serial_write'', ''serial_putc'',
      ''iprintf'', ''viprintf'', ''fiprintf'', ''vfiprintf'', ''siprintf'', ''sniprintf'',
      ''__real_printf'', ''__real_vprintf'', ''__real_puts'', ''__real_putchar'', ''__real__write'',
      ''__real__write_r'', ''__real_fputc'', ''__real_fwrite'', ''__real_fprintf'', ''__real_vfprintf'',
      ''__real_serial_print'']"

text \<open>A pattern \<open>^pre[class]*_Send$\<close>.\<close>

definition deny_pattern :: "string \<Rightarrow> (char \<Rightarrow> bool) \<Rightarrow> string \<Rightarrow> bool" where
  "deny_pattern pre cls name \<longleftrightarrow>
     (case after pre name of None \<Rightarrow> False
      | Some r \<Rightarrow> suffix ''_Send'' r \<and> list_all cls (take (length r - 5) r))"

definition DENY_PATTERNS :: "(string \<Rightarrow> bool) list" where
  "DENY_PATTERNS =
     [deny_pattern ''ARM_USART'' is_word, deny_pattern ''Driver_USART'' is_digit, deny_pattern ''USART'' is_digit]"

definition KNOWN_INDIRECT_SITES :: "string list" where
  "KNOWN_INDIRECT_SITES = [''runner_u85_irq_wrapper'']"

definition MEASURED_ROOTS :: "string list" where
  "MEASURED_ROOTS = [''run_fixed_inference'', ''runner_u85_irq_wrapper'']"

definition SEC_NOINIT_EXPECTED_BASE :: int where "SEC_NOINIT_EXPECTED_BASE = 0x90020000"
definition SEC_NOINIT_EXPECTED_SIZE :: int where "SEC_NOINIT_EXPECTED_SIZE = 0xF90"

definition SEC_NOINIT_ALLOWED_OBJECTS :: "string list" where
  "SEC_NOINIT_ALLOWED_OBJECTS =
     [''u85_AXIBus.o'', ''u85_Convolution.o'', ''u85_MaxPooling.o'', ''u85_PowerIndicative.o'',
      ''u85_PowerIndicativeMax.o'', ''u85_RegConfig.o'']"

definition INJECT_MARKER_PREFIX :: string where "INJECT_MARKER_PREFIX = ''runner_inject_''"
definition NPU_ENTRY_SYMBOL :: string where "NPU_ENTRY_SYMBOL = ''apU85Conv_TEST''"
definition TEST_HOOK_SYMBOLS :: "string list" where "TEST_HOOK_SYMBOLS = [''handle_test_skip_next_npu'']"
definition COMMAND_DISPATCH_ROOTS :: "string list" where "COMMAND_DISPATCH_ROOTS = [''dispatch'']"

definition is_denied :: "string \<Rightarrow> bool" where
  "is_denied name \<longleftrightarrow> name \<in> set DENYLIST \<or> (\<exists>p \<in> set DENY_PATTERNS. p name)"

section \<open>The layout of .sec_noinit\<close>

datatype layout_note =
    MapUnreadable | NoSection | BaseSize int int | Moved | Objects "string list"
  | Unexpected "string list" | NotContributing "string list"

text \<open>The first section header, its two numbers, and the lines after it.\<close>

fun find_section :: "string list \<Rightarrow> ((int \<times> int) \<times> string list) option" where
  "find_section [] = None"
| "find_section (line # ls) =
     (case map_section_header line of
        Some (base, extent) \<Rightarrow> Some ((numeral_value 16 base, numeral_value 16 extent), ls)
      | None \<Rightarrow> find_section ls)"

text \<open>The next output section starts in the first column.\<close>

definition section_ends :: "string \<Rightarrow> bool" where
  "section_ends line \<longleftrightarrow>
     line \<noteq> [] \<and> \<not> is_blank (hd line) \<and> (hd line = CHR ''.'' \<or> hd line \<noteq> CHR '' '')"

fun section_objects :: "string list \<Rightarrow> string list" where
  "section_objects [] = []"
| "section_objects (line # ls) =
     (if section_ends line then []
      else case map_object line of
        Some path \<Rightarrow> last (split_char CHR ''/'' path) # section_objects ls
      | None \<Rightarrow> section_objects ls)"

definition check_sec_noinit :: "string option \<Rightarrow> bool \<times> layout_note list" where
  "check_sec_noinit map_text =
     (case map_text of None \<Rightarrow> (False, [MapUnreadable])
      | Some text \<Rightarrow> (case find_section (splitlines text) of None \<Rightarrow> (False, [NoSection])
         | Some ((base, extent), ls) \<Rightarrow>
             (let objects = section_objects ls;
                  moved = (base \<noteq> SEC_NOINIT_EXPECTED_BASE \<or> extent \<noteq> SEC_NOINIT_EXPECTED_SIZE);
                  unexpected = sorted_set (filter (\<lambda>n. n \<notin> set SEC_NOINIT_ALLOWED_OBJECTS) objects);
                  not_contributing = sorted_set (filter (\<lambda>n. n \<notin> set objects) SEC_NOINIT_ALLOWED_OBJECTS)
              in (\<not> moved \<and> unexpected = [],
                  [BaseSize base extent] @ (if moved then [Moved] else []) @ [Objects (sorted_set objects)]
                  @ (if unexpected \<noteq> [] then [Unexpected unexpected] else [])
                  @ (if not_contributing \<noteq> [] then [NotContributing not_contributing] else [])))))"

section \<open>Injection markers\<close>

datatype marker_note =
    HookBuildActive | SkipActive | MarkerMissing | MarkersPresent "string list" | MarkersLeaked "string list"
  | NoMarkers | NpuLost | NpuKept | NpuStillReached | NpuSkipped

definition check_injections :: "string list \<Rightarrow> string list \<Rightarrow> bool \<Rightarrow> bool \<Rightarrow> bool \<times> marker_note list" where
  "check_injections symbols reached expect_skip expect_hooks =
     (let markers = sorted_set (filter (prefix INJECT_MARKER_PREFIX) symbols);
          npu_reached = (NPU_ENTRY_SYMBOL \<in> set reached)
      in if expect_hooks then
           (markers \<noteq> [] \<and> npu_reached,
            [HookBuildActive] @ (if markers = [] then [MarkerMissing] else [MarkersPresent markers])
            @ (if npu_reached then [NpuKept] else [NpuLost]))
         else if expect_skip then
           (markers \<noteq> [] \<and> \<not> npu_reached,
            [SkipActive] @ (if markers = [] then [MarkerMissing] else [MarkersPresent markers])
            @ (if npu_reached then [NpuStillReached] else [NpuSkipped]))
         else
           (markers = [] \<and> npu_reached,
            (if markers \<noteq> [] then [MarkersLeaked markers] else [NoMarkers])
            @ (if npu_reached then [NpuKept] else [NpuLost])))"

section \<open>Test-only command handlers\<close>

datatype hook_note =
    DispatchMissing "string list" | DispatchReaches nat | HookGateActive | HookAbsent | HookPresent "string list"
  | HookUnreached | NothingToReach | HookReached "string list" | Via "string list option"
  | HookLeaked "string list" | NoHookSymbols | HookReachable "string list" | NoHookReachable

definition check_test_hooks :: "string list \<Rightarrow> string graph \<Rightarrow> bool \<Rightarrow> bool \<times> hook_note list" where
  "check_test_hooks symbols graph expect_hooks =
     (let present = sorted_set (filter (\<lambda>h. h \<in> set symbols) TEST_HOOK_SYMBOLS) in
      case reachable graph COMMAND_DISPATCH_ROOTS of (dispatch_seen, _, missing_roots) \<Rightarrow>
      if missing_roots \<noteq> [] then (False, [DispatchMissing missing_roots])
      else (let reachable_hooks = sorted_set (filter (\<lambda>h. h \<in> set dispatch_seen) TEST_HOOK_SYMBOLS);
                paths = map (\<lambda>h. Via (shortest_path graph COMMAND_DISPATCH_ROOTS h)) reachable_hooks
            in if expect_hooks then
                 (present \<noteq> [] \<and> reachable_hooks \<noteq> [],
                  [DispatchReaches (length dispatch_seen), HookGateActive]
                  @ (if present = [] then [HookAbsent] else [HookPresent present])
                  @ (if reachable_hooks = [] then (if present \<noteq> [] then [HookUnreached] else [NothingToReach])
                     else HookReached reachable_hooks # paths))
               else
                 (present = [] \<and> reachable_hooks = [],
                  [DispatchReaches (length dispatch_seen)]
                  @ (if present \<noteq> [] then [HookLeaked present] else [NoHookSymbols])
                  @ (if reachable_hooks \<noteq> [] then HookReachable reachable_hooks # paths else [NoHookReachable]))))"

section \<open>The denylist\<close>

datatype deny_note =
    RootsMissing "string list" | RootsReach nat | IndirectTotal int nat | IndirectSite string int | MoreSites nat
  | DeniedReached nat | Denied string "string list option" | AdvisoryExit | Incomplete "string list"
  | CleanPass | KnownSites "string list"

text \<open>\<open>indirect_sites.get(f, 0)\<close> is \<open>sites_of\<close>.\<close>

definition denylist_verdict ::
    "bool \<Rightarrow> string graph \<Rightarrow> (string, int) dict \<Rightarrow> string list \<Rightarrow> string list \<Rightarrow> int \<times> deny_note list" where
  "denylist_verdict advisory graph indirect_sites seen missing_roots =
     (if missing_roots \<noteq> [] then (2, [RootsMissing missing_roots])
      else (let violations = sorted_set (filter is_denied seen);
                indirect_total = (\<Sum>f \<leftarrow> seen. sites_of indirect_sites f);
                indirect_funcs = sorted_set (filter (\<lambda>f. sites_of indirect_sites f \<noteq> 0) seen);
                unexpected_indirect = filter (\<lambda>f. f \<notin> set KNOWN_INDIRECT_SITES) indirect_funcs;
                start = [RootsReach (length seen), IndirectTotal indirect_total (length indirect_funcs)]
                  @ map (\<lambda>f. IndirectSite f (sites_of indirect_sites f)) (take 20 indirect_funcs)
                  @ (if length indirect_funcs > 20 then [MoreSites (length indirect_funcs - 20)] else [])
            in if violations \<noteq> [] then
                 (if advisory then 0 else 1,
                  start @ [DeniedReached (length violations)]
                  @ map (\<lambda>v. Denied v (shortest_path graph MEASURED_ROOTS v)) violations
                  @ (if advisory then [AdvisoryExit] else []))
               else if unexpected_indirect \<noteq> [] then (0, start @ [Incomplete unexpected_indirect])
               else (0, start @ [CleanPass] @ (if indirect_funcs \<noteq> [] then [KnownSites indirect_funcs] else []))))"

section \<open>The build gate\<close>

record args =
  advisory :: bool
  expect_injected_skip :: bool
  expect_test_hooks :: bool

text \<open>What is printed: the denylist report, then each gate's report with its verdict.\<close>

type_synonym report =
  "deny_note list \<times> (layout_note list \<times> bool) \<times> (marker_note list \<times> bool) \<times> (hook_note list \<times> bool)"

definition gate :: "args \<Rightarrow> string \<Rightarrow> string \<Rightarrow> string option \<Rightarrow> exn + (int \<times> report)" where
  "gate a objdump_out nm_out map_text =
     bind_res (build_graph objdump_out) (\<lambda>(graph, indirect_sites).
       case reachable graph MEASURED_ROOTS of (seen, order, missing_roots) \<Rightarrow>
       let symbols = nm_symbols nm_out;
           (deny_rc, deny_log) = denylist_verdict (advisory a) graph indirect_sites seen missing_roots;
           (noinit_ok, noinit_log) = check_sec_noinit map_text;
           (inj_ok, inj_log) = check_injections symbols seen (expect_injected_skip a) (expect_test_hooks a);
           (hooks_ok, hooks_log) = check_test_hooks symbols graph (expect_test_hooks a)
       in Inr (if \<not> noinit_ok \<or> \<not> inj_ok \<or> \<not> hooks_ok then 1 else deny_rc,
               deny_log, (noinit_log, noinit_ok), (inj_log, inj_ok), (hooks_log, hooks_ok)))"

section \<open>What a passing gate means\<close>

text \<open>The measured path: both roots are functions of the image and no call path from them ends in a denied name.\<close>

definition clean_path :: "string graph \<Rightarrow> bool" where
  "clean_path graph \<longleftrightarrow> (\<forall>r \<in> set MEASURED_ROOTS. in_graph graph r)
     \<and> (\<forall>path v. call_path graph (set MEASURED_ROOTS) v path \<longrightarrow> \<not> is_denied v)"

definition runs_npu :: "string graph \<Rightarrow> bool" where
  "runs_npu graph \<longleftrightarrow> (\<exists>path. call_path graph (set MEASURED_ROOTS) NPU_ENTRY_SYMBOL path)"

definition marked :: "string list \<Rightarrow> bool" where
  "marked symbols \<longleftrightarrow> (\<exists>s \<in> set symbols. prefix INJECT_MARKER_PREFIX s)"

text \<open>The dispatcher is in the image; a test-only handler is linked, or a call path from the dispatcher ends in one.\<close>

definition dispatcher_found :: "string graph \<Rightarrow> bool" where
  "dispatcher_found graph \<longleftrightarrow> (\<forall>r \<in> set COMMAND_DISPATCH_ROOTS. in_graph graph r)"

definition hook_linked :: "string list \<Rightarrow> bool" where
  "hook_linked symbols \<longleftrightarrow> (\<exists>h \<in> set TEST_HOOK_SYMBOLS. h \<in> set symbols)"

definition hook_callable :: "string graph \<Rightarrow> bool" where
  "hook_callable graph \<longleftrightarrow> (\<exists>h \<in> set TEST_HOOK_SYMBOLS. \<exists>path. call_path graph (set COMMAND_DISPATCH_ROOTS) h path)"

text \<open>The first \<open>.sec_noinit\<close> header of the map has the reviewed base and size, and every object file up to the
  next output section is on the allowlist.\<close>

definition layout_safe :: "string option \<Rightarrow> bool" where
  "layout_safe map_text \<longleftrightarrow> (\<exists>text before line rest base extent.
     map_text = Some text \<and> splitlines text = before @ line # rest
     \<and> list_all (\<lambda>l. map_section_header l = None) before \<and> map_section_header line = Some (base, extent)
     \<and> numeral_value 16 base = SEC_NOINIT_EXPECTED_BASE \<and> numeral_value 16 extent = SEC_NOINIT_EXPECTED_SIZE
     \<and> (\<forall>l \<in> set (takeWhile (\<lambda>l. \<not> section_ends l) rest). \<forall>path. map_object l = Some path \<longrightarrow>
          last (split_char CHR ''/'' path) \<in> set SEC_NOINIT_ALLOWED_OBJECTS))"

lemma find_section_eq:
  "find_section ls = Some (nums, rest) \<longleftrightarrow> (\<exists>before line base extent. ls = before @ line # rest
     \<and> list_all (\<lambda>l. map_section_header l = None) before \<and> map_section_header line = Some (base, extent)
     \<and> nums = (numeral_value 16 base, numeral_value 16 extent))"
proof (induction ls)
  case Nil
  then show ?case by simp
next
  case (Cons l ls)
  show ?case
  proof (cases "map_section_header l")
    case None
    have "(\<exists>before line base extent. l # ls = before @ line # rest
     \<and> list_all (\<lambda>l. map_section_header l = None) before \<and> map_section_header line = Some (base, extent)
     \<and> nums = (numeral_value 16 base, numeral_value 16 extent)) \<longleftrightarrow> (\<exists>before line base extent. ls = before @ line # rest
     \<and> list_all (\<lambda>l. map_section_header l = None) before \<and> map_section_header line = Some (base, extent)
     \<and> nums = (numeral_value 16 base, numeral_value 16 extent))" (is "?A \<longleftrightarrow> ?B")
    proof
      assume ?A
      then obtain before line base extent where "l # ls = before @ line # rest"
        "list_all (\<lambda>l. map_section_header l = None) before" "map_section_header line = Some (base, extent)"
        "nums = (numeral_value 16 base, numeral_value 16 extent)" by blast
      with None show ?B by (cases before) auto
    next
      assume ?B
      then obtain before line base extent where "l # ls = (l # before) @ line # rest"
        "list_all (\<lambda>l. map_section_header l = None) (l # before)" "map_section_header line = Some (base, extent)"
        "nums = (numeral_value 16 base, numeral_value 16 extent)" using None by auto
      then show ?A by blast
    qed
    with None Cons show ?thesis by simp
  next
    case (Some be)
    then show ?thesis by (cases be) (auto simp: Cons_eq_append_conv)
  qed
qed

lemma set_section_objects:
  "set (section_objects ls) = {n. \<exists>l \<in> set (takeWhile (\<lambda>l. \<not> section_ends l) ls). \<exists>path.
     map_object l = Some path \<and> n = last (split_char CHR ''/'' path)}"
  by (induction ls) (auto split: option.splits)

lemma section_objects_subset:
  "set (section_objects ls) \<subseteq> A \<longleftrightarrow> (\<forall>l \<in> set (takeWhile (\<lambda>l. \<not> section_ends l) ls). \<forall>path.
     map_object l = Some path \<longrightarrow> last (split_char CHR ''/'' path) \<in> A)"
  unfolding set_section_objects by blast

lemma layout_safe_Some:
  "layout_safe (Some content) \<longleftrightarrow> (\<exists>rest.
     find_section (splitlines content) = Some ((SEC_NOINIT_EXPECTED_BASE, SEC_NOINIT_EXPECTED_SIZE), rest)
     \<and> set (section_objects rest) \<subseteq> set SEC_NOINIT_ALLOWED_OBJECTS)" (is "_ \<longleftrightarrow> ?R")
proof -
  have "layout_safe (Some content) \<longleftrightarrow> (\<exists>before line rest base extent. splitlines content = before @ line # rest
     \<and> list_all (\<lambda>l. map_section_header l = None) before \<and> map_section_header line = Some (base, extent)
     \<and> numeral_value 16 base = SEC_NOINIT_EXPECTED_BASE \<and> numeral_value 16 extent = SEC_NOINIT_EXPECTED_SIZE
     \<and> set (section_objects rest) \<subseteq> set SEC_NOINIT_ALLOWED_OBJECTS)"
    unfolding layout_safe_def section_objects_subset [symmetric] by (simp only: option.inject simp_thms ex_simps)
  also have "\<dots> \<longleftrightarrow> ?R"
    unfolding find_section_eq prod.inject
    by (rule iffI; elim exE conjE; intro exI conjI; (assumption | rule sym, assumption | simp))
  finally show ?thesis .
qed

lemma layout_gate_exact: "fst (check_sec_noinit map_text) \<longleftrightarrow> layout_safe map_text"
proof (cases map_text)
  case None
  then show ?thesis by (simp add: check_sec_noinit_def layout_safe_def)
next
  case (Some content)
  then show ?thesis
    by (auto simp: layout_safe_Some check_sec_noinit_def Let_def filter_empty_conv split: option.splits)
qed

lemma denylist_code:
  assumes "reachable graph MEASURED_ROOTS = (seen, order, missing_roots)"
  shows "fst (denylist_verdict False graph sites seen missing_roots) = 0 \<longleftrightarrow> clean_path graph"
proof (cases "missing_roots = []")
  case True
  have "(\<forall>v \<in> set seen. \<not> is_denied v) \<longleftrightarrow> (\<forall>path v. call_path graph (set MEASURED_ROOTS) v path \<longrightarrow> \<not> is_denied v)"
    by (rule bfs_search.seen_avoids [OF assms True])
  with True bfs_search.all_roots_present [OF assms] show ?thesis
    by (auto simp: denylist_verdict_def clean_path_def Let_def filter_empty_conv)
next
  case False
  with bfs_search.all_roots_present [OF assms] show ?thesis
    by (auto simp: denylist_verdict_def clean_path_def)
qed

lemma injections_ok:
  "fst (check_injections symbols reached skip hooks) \<longleftrightarrow>
    (if hooks then marked symbols \<and> NPU_ENTRY_SYMBOL \<in> set reached
     else if skip then marked symbols \<and> NPU_ENTRY_SYMBOL \<notin> set reached
     else \<not> marked symbols \<and> NPU_ENTRY_SYMBOL \<in> set reached)"
  by (auto simp: check_injections_def marked_def Let_def filter_empty_conv)

lemma test_hooks_ok:
  "fst (check_test_hooks symbols graph hooks) \<longleftrightarrow> dispatcher_found graph \<and>
    (if hooks then hook_linked symbols \<and> hook_callable graph else \<not> hook_linked symbols \<and> \<not> hook_callable graph)"
proof -
  obtain seen order missing_roots where r: "reachable graph COMMAND_DISPATCH_ROOTS = (seen, order, missing_roots)"
    using prod_cases3 by blast
  show ?thesis
  proof (cases "missing_roots = []")
    case True
    from bfs_search.seen_iff_call_path [OF r True] True r bfs_search.all_roots_present [OF r] show ?thesis
      by (auto simp: check_test_hooks_def dispatcher_found_def hook_linked_def hook_callable_def Let_def filter_empty_conv)
  next
    case False
    with r bfs_search.all_roots_present [OF r] show ?thesis
      by (auto simp: check_test_hooks_def dispatcher_found_def)
  qed
qed

section \<open>Properties\<close>

text \<open>C17. The build gate, without \<open>--advisory\<close>, exits with 0 exactly when: no call path of the disassembly leads
  from the measured roots, which must exist, to a denied name; the first \<open>.sec_noinit\<close> section of a readable map
  has the reviewed base, size and objects; the NPU entry point is on a call path from the roots and no injection
  marker is linked; the dispatcher exists and no test-only handler is linked or on a call path from it. With
  \<open>--expect-test-hooks\<close> the marker and a linked, callable handler are required instead, with
  \<open>--expect-injected-skip\<close> the marker and an unreachable NPU entry point. It never raises.\<close>

theorem gate_exit_exact:
  "case build_graph objdump_out of Inl e \<Rightarrow> False
   | Inr (graph, sites) \<Rightarrow>
     (let symbols = nm_symbols nm_out;
          npu = NPU_ENTRY_SYMBOL \<in> (edges graph)\<^sup>* `` {r \<in> set MEASURED_ROOTS. in_graph graph r}
      in (\<exists>log. gate \<lparr>advisory = False, expect_injected_skip = skip, expect_test_hooks = hooks\<rparr>
             objdump_out nm_out map_text = Inr (0, log))
       \<longleftrightarrow> clean_path graph \<and> layout_safe map_text \<and> dispatcher_found graph
         \<and> (if hooks then marked symbols \<and> npu \<and> hook_linked symbols \<and> hook_callable graph
            else (if skip then marked symbols \<and> \<not> npu else \<not> marked symbols \<and> npu)
              \<and> \<not> hook_linked symbols \<and> \<not> hook_callable graph))"
proof (cases "build_graph objdump_out")
  case (Inl e)
  with build_graph_total [of objdump_out] show ?thesis by simp
next
  case (Inr gs)
  obtain graph sites where gs: "gs = (graph, sites)" by fastforce
  obtain seen order missing_roots where r: "reachable graph MEASURED_ROOTS = (seen, order, missing_roots)"
    using prod_cases3 by blast
  obtain dc dl where d: "denylist_verdict False graph sites seen missing_roots = (dc, dl)" by fastforce
  obtain lo ll where l: "check_sec_noinit map_text = (lo, ll)" by fastforce
  obtain io il where i: "check_injections (nm_symbols nm_out) seen skip hooks = (io, il)" by fastforce
  obtain ho hl where h: "check_test_hooks (nm_symbols nm_out) graph hooks = (ho, hl)" by fastforce
  have seen: "set seen = (edges graph)\<^sup>* `` {r \<in> set MEASURED_ROOTS. in_graph graph r}"
    using bfs_search.search_exact [OF r] by (rule conjunct1)
  have "dc = 0 \<longleftrightarrow> clean_path graph" using denylist_code [OF r, of sites] d by simp
  moreover have "lo \<longleftrightarrow> layout_safe map_text" using layout_gate_exact [of map_text] l by simp
  moreover note injections_ok [of "nm_symbols nm_out" seen skip hooks, unfolded i fst_conv seen]
    test_hooks_ok [of "nm_symbols nm_out" graph hooks, unfolded h fst_conv]
  moreover have "(\<exists>log. gate \<lparr>advisory = False, expect_injected_skip = skip, expect_test_hooks = hooks\<rparr>
      objdump_out nm_out map_text = Inr (0, log)) \<longleftrightarrow> lo \<and> io \<and> ho \<and> dc = 0"
    by (auto simp: gate_def Inr gs r d l i h Let_def)
  ultimately show ?thesis unfolding Inr gs Let_def by (auto split: if_splits)
qed

text \<open>C18. \<open>--advisory\<close> excuses the denylist and nothing else: the reports of the other three gates and their verdicts
  are the same, an exit code 1 becomes 0 only when those three pass, and a missing root (2) is not excused.\<close>

theorem advisory_excuses_denylist_only:
  "case gate (a\<lparr>advisory := False\<rparr>) objdump_out nm_out map_text of
     Inl e \<Rightarrow> gate (a\<lparr>advisory := True\<rparr>) objdump_out nm_out map_text = Inl e
   | Inr (code, deny_log, (noinit_log, noinit_ok), (inj_log, inj_ok), (hooks_log, hooks_ok)) \<Rightarrow>
     (\<exists>deny_log'. gate (a\<lparr>advisory := True\<rparr>) objdump_out nm_out map_text
       = Inr (if noinit_ok \<and> inj_ok \<and> hooks_ok \<and> code = 1 then 0 else code,
              deny_log', (noinit_log, noinit_ok), (inj_log, inj_ok), (hooks_log, hooks_ok)))"
proof (cases "build_graph objdump_out")
  case (Inl e)
  then show ?thesis by (simp add: gate_def)
next
  case (Inr gs)
  obtain graph sites where gs: "gs = (graph, sites)" by fastforce
  obtain seen order missing_roots where r: "reachable graph MEASURED_ROOTS = (seen, order, missing_roots)"
    using prod_cases3 by blast
  have "fst (denylist_verdict True graph sites seen missing_roots)
      = (let c = fst (denylist_verdict False graph sites seen missing_roots) in if c = 1 then 0 else c)"
    by (auto simp: denylist_verdict_def Let_def)
  then obtain dc dl dl' where d: "denylist_verdict False graph sites seen missing_roots = (dc, dl)"
    "denylist_verdict True graph sites seen missing_roots = (if dc = 1 then 0 else dc, dl')"
    by (metis prod.collapse)
  obtain lo ll where l: "check_sec_noinit map_text = (lo, ll)" by fastforce
  obtain io il where i: "check_injections (nm_symbols nm_out) seen (expect_injected_skip a) (expect_test_hooks a) = (io, il)"
    by fastforce
  obtain ho hl where h: "check_test_hooks (nm_symbols nm_out) graph (expect_test_hooks a) = (ho, hl)" by fastforce
  show ?thesis by (auto simp: gate_def Inr gs r d l i h Let_def)
qed

text \<open>C19. The denylist report names exactly the denied names that are reachable from the measured roots, each with a
  call path from a root to it that is as short as any.\<close>

theorem violations_reported:
  "case reachable graph MEASURED_ROOTS of (seen, order, missing_roots) \<Rightarrow>
     if missing_roots = []
     then {v. \<exists>path. Denied v path \<in> set (snd (denylist_verdict adv graph sites seen missing_roots))}
            = {v. is_denied v \<and> (\<exists>path. call_path graph (set MEASURED_ROOTS) v path)}
          \<and> {(v, path). Denied v path \<in> set (snd (denylist_verdict adv graph sites seen missing_roots))}
            \<subseteq> {(v, Some path) | v path. shortest_call_path graph (set MEASURED_ROOTS) v path}
     else snd (denylist_verdict adv graph sites seen missing_roots) = [RootsMissing missing_roots]"
proof -
  obtain seen order missing_roots where r: "reachable graph MEASURED_ROOTS = (seen, order, missing_roots)"
    using prod_cases3 by blast
  show ?thesis
  proof (cases "missing_roots = []")
    case True
    have all: "{r \<in> set MEASURED_ROOTS. in_graph graph r} = set MEASURED_ROOTS"
      using bfs_search.all_roots_present [OF r] True by blast
    have listed: "Denied v path \<in> set (snd (denylist_verdict adv graph sites seen missing_roots))
        \<longleftrightarrow> v \<in> set seen \<and> is_denied v \<and> path = shortest_path graph MEASURED_ROOTS v" for v path
      using True by (auto simp: denylist_verdict_def Let_def filter_empty_conv)
    note seen = bfs_search.seen_iff_call_path [OF r True]
    have short: "\<exists>path. shortest_path graph MEASURED_ROOTS v = Some path
        \<and> shortest_call_path graph (set MEASURED_ROOTS) v path" if "v \<in> set seen" for v
      using shortest_path_found [of graph MEASURED_ROOTS v, unfolded all] that seen [of v] by (auto simp: call_path_exists)
    from True listed short seen show ?thesis unfolding r by fastforce
  next
    case False
    then show ?thesis unfolding r by (simp add: denylist_verdict_def)
  qed
qed

end
