(* ===== verification/Stage_Analysis.thy ===== *)
theory Stage_Analysis
  imports Baseline_Gate
begin

text \<open>
  \<open>host/analysis/stage1.py\<close> and \<open>host/analysis/stage2a.py\<close>: the derived metrics of a RUN, the rows and the
  statistics of a workload, and the statuses of the hypotheses; the two programs and what they write are in \<open>Stage_Output\<close>. \<open>fl\<close> is the rounding of an exact result to a double:
  Python's \<open>/\<close> on integers and every operation on floats round once, and the comparisons are exact. The
  statistics have the exact variance; its root and the coefficient of variation, which no decision reads, are in
  \<open>Stage_Output\<close>. Of a row the identifying columns other than the run number are left out.
\<close>

section \<open>Derived metrics\<close>

definition M_CONFIGURED :: int where "M_CONFIGURED = 1024"

definition RAW1 :: "string list" where
  "RAW1 = [''npu_active'', ''mac_active'', ''sram_rd_beats'', ''sram_wr_beats'', ''ext_rd_beats'', ''ext_wr_beats'',
     ''sram_enabled'', ''ext_enabled'']"

definition DERIVED1 :: "string list" where
  "DERIVED1 = [''mac_throughput'', ''peak_mac_efficiency'', ''mac_active_ratio'', ''mac_active_cycle_efficiency'',
     ''decomposition_residual'', ''sram_beats_per_mac'', ''ext_beats_per_mac'', ''sram_beats_per_npu_cycle'',
     ''ext_beats_per_npu_cycle'', ''sram_enabled_per_npu_cycle'', ''ext_enabled_per_npu_cycle'']"

text \<open>\<open>run[name]\<close> in an arithmetic expression.\<close>

definition event_int :: "run \<Rightarrow> string \<Rightarrow> exn + int" where
  "event_int r name = bind_res (dict_get name (rn_events r)) (\<lambda>v. case v of None \<Rightarrow> Inl TypeError | Some n \<Rightarrow> Inr n)"

definition quot :: "(rat \<Rightarrow> rat) \<Rightarrow> int \<Rightarrow> int \<Rightarrow> exn + rat" where
  "quot fl x y = (if y = 0 then Inl ZeroDivisionError else Inr (fl (of_int x / of_int y)))"

text \<open>\<open>x / y if y else None\<close>\<close>

definition quot_or_none :: "(rat \<Rightarrow> rat) \<Rightarrow> int \<Rightarrow> int \<Rightarrow> int \<Rightarrow> exn + rat option" where
  "quot_or_none fl x y cond = (if cond = 0 then Inr None else bind_res (quot fl x y) (\<lambda>q. Inr (Some q)))"

type_synonym cells = "(string, rat option) dict"

text \<open>\<open>stage1.derive\<close>. \<open>n_mac\<close> is \<open>None\<close> for a workload without MACs; 0 counts as such.\<close>

definition mac_metrics :: "(rat \<Rightarrow> rat) \<Rightarrow> int \<Rightarrow> int \<Rightarrow> int \<Rightarrow> int \<Rightarrow> int option \<Rightarrow> exn + cells" where
  "mac_metrics fl a m sram ext n_mac =
     (case (if n_mac = Some 0 then None else n_mac) of
        Some n \<Rightarrow>
          bind_res (quot fl n (M_CONFIGURED * a)) (\<lambda>peak.
          bind_res (quot fl m a) (\<lambda>share.
          bind_res (quot_or_none fl n (M_CONFIGURED * m) m) (\<lambda>aeff.
          bind_res (quot fl n a) (\<lambda>throughput.
          bind_res (quot fl sram n) (\<lambda>sm.
          bind_res (quot fl ext n) (\<lambda>em.
            Inr [(''mac_throughput'', Some throughput), (''peak_mac_efficiency'', Some peak),
                 (''mac_active_ratio'', Some share), (''mac_active_cycle_efficiency'', aeff),
                 (''decomposition_residual'', map_option (\<lambda>e. fl (peak - fl (share * e))) aeff),
                 (''sram_beats_per_mac'', Some sm), (''ext_beats_per_mac'', Some em)]))))))
      | None \<Rightarrow>
          bind_res (quot fl m a) (\<lambda>share.
            Inr [(''mac_throughput'', None), (''peak_mac_efficiency'', None), (''mac_active_cycle_efficiency'', None),
                 (''decomposition_residual'', None), (''sram_beats_per_mac'', None), (''ext_beats_per_mac'', None),
                 (''mac_active_ratio'', Some share)]))"

definition derive1 :: "(rat \<Rightarrow> rat) \<Rightarrow> run \<Rightarrow> int option \<Rightarrow> exn + cells" where
  "derive1 fl r n_mac =
     bind_res (event_int r ''npu_active'') (\<lambda>a.
     bind_res (event_int r ''mac_active'') (\<lambda>m.
     bind_res (event_int r ''sram_rd_beats'') (\<lambda>srd.
     bind_res (event_int r ''sram_wr_beats'') (\<lambda>swr.
     bind_res (event_int r ''ext_rd_beats'') (\<lambda>erd.
     bind_res (event_int r ''ext_wr_beats'') (\<lambda>ewr.
     bind_res (quot fl (srd + swr) a) (\<lambda>sc.
     bind_res (quot fl (erd + ewr) a) (\<lambda>ec.
     bind_res (event_int r ''sram_enabled'') (\<lambda>se.
     bind_res (quot fl se a) (\<lambda>sec.
     bind_res (event_int r ''ext_enabled'') (\<lambda>ee.
     bind_res (quot fl ee a) (\<lambda>eec.
     bind_res (mac_metrics fl a m (srd + swr) (erd + ewr) n_mac) (\<lambda>macs.
       Inr ([(''sram_beats_per_npu_cycle'', Some sc), (''ext_beats_per_npu_cycle'', Some ec),
             (''sram_enabled_per_npu_cycle'', Some sec), (''ext_enabled_per_npu_cycle'', Some eec),
             (''sram_total_beats'', Some (of_int (srd + swr))), (''ext_total_beats'', Some (of_int (erd + ewr)))]
            @ macs))))))))))))))"

definition RAW2 :: "string list" where
  "RAW2 = [''npu_active'', ''mac_active'', ''mac_dpu_active'', ''mac_stalled_by_w_or_acc'', ''mac_stalled_by_ib'',
     ''ao_active'', ''wd_active'', ''wd_stalled'']"

definition DERIVED2 :: "string list" where
  "DERIVED2 = [''mac_active_ratio'', ''dpu_active_ratio'', ''dpu_given_mac_active'', ''ao_active_ratio'', ''wd_active_ratio'',
     ''wd_stalled_ratio'', ''mac_ib_stall_ratio'', ''mac_w_or_acc_stall_ratio'', ''mac_active_cycle_efficiency'']"

text \<open>\<open>stage2a.derive\<close>: the ratios of the events named on the right to the NPU activity.\<close>

definition SHARES2 :: "(string \<times> string) list" where
  "SHARES2 = [(''ao_active_ratio'', ''ao_active''), (''wd_active_ratio'', ''wd_active''), (''wd_stalled_ratio'', ''wd_stalled''),
     (''mac_ib_stall_ratio'', ''mac_stalled_by_ib''), (''mac_w_or_acc_stall_ratio'', ''mac_stalled_by_w_or_acc'')]"

fun shares :: "(rat \<Rightarrow> rat) \<Rightarrow> run \<Rightarrow> int \<Rightarrow> (string \<times> string) list \<Rightarrow> exn + cells" where
  "shares fl r a [] = Inr []"
| "shares fl r a ((name, event) # ns) =
     bind_res (bind_res (event_int r event) (\<lambda>e. quot fl e a)) (\<lambda>q.
     bind_res (shares fl r a ns) (\<lambda>d. Inr ((name, Some q) # d)))"

definition derive2 :: "(rat \<Rightarrow> rat) \<Rightarrow> run \<Rightarrow> int option \<Rightarrow> exn + cells" where
  "derive2 fl r n_mac =
     bind_res (event_int r ''npu_active'') (\<lambda>a.
     bind_res (event_int r ''mac_active'') (\<lambda>m.
     bind_res (quot fl m a) (\<lambda>share.
     bind_res (event_int r ''mac_dpu_active'') (\<lambda>dpu.
     bind_res (quot fl dpu a) (\<lambda>dr.
     bind_res (quot_or_none fl dpu m m) (\<lambda>dm.
     bind_res (shares fl r a SHARES2) (\<lambda>others.
     bind_res (case n_mac of None \<Rightarrow> if m = 0 then Inr None else Inl TypeError
               | Some n \<Rightarrow> quot_or_none fl n (M_CONFIGURED * m) m) (\<lambda>ae.
       Inr ([(''mac_active_ratio'', Some share), (''dpu_active_ratio'', Some dr), (''dpu_given_mac_active'', dm)]
            @ others @ [(''mac_active_cycle_efficiency'', ae)])))))))))"

text \<open>\<open>stage2a.diagnostics\<close>.\<close>

definition diagnostics :: "run \<Rightarrow> exn + (string, bool) dict" where
  "diagnostics r =
     bind_res (event_int r ''npu_active'') (\<lambda>a.
     bind_res (event_int r ''mac_active'') (\<lambda>m.
     bind_res (event_int r ''mac_stalled_by_ib'') (\<lambda>ib.
     bind_res (event_int r ''mac_stalled_by_w_or_acc'') (\<lambda>wa.
     bind_res (event_int r ''mac_dpu_active'') (\<lambda>dpu.
       Inr [(''S1_mac_plus_ib_le_npu'', m + ib \<le> a), (''S2_mac_plus_ib_plus_wacc_le_npu'', m + ib + wa \<le> a),
            (''S3_dpu_le_npu'', dpu \<le> a)])))))"

section \<open>Statistics\<close>

record stat =
  st_n :: nat
  st_median :: rat
  st_mean :: rat
  st_variance :: "rat option"
  st_min :: rat
  st_max :: rat
  st_deterministic :: bool

type_synonym metrics = "(string, stat) dict"

text \<open>\<open>statistics.median\<close>: the mean of the two middle values of an even number of them.\<close>

definition middle :: "(rat \<Rightarrow> rat) \<Rightarrow> rat list \<Rightarrow> rat" where
  "middle fl xs = (let s = sort xs; n = length s in
     if odd n then s ! (n div 2) else fl ((s ! (n div 2 - 1) + s ! (n div 2)) / 2))"

text \<open>\<open>statistics.variance\<close>, which \<open>stdev\<close> takes the root of; only of more than one value.\<close>

definition variance :: "rat list \<Rightarrow> rat" where
  "variance xs = (let n = length xs; m = sum_list xs / of_nat n in sum_list (map (\<lambda>x. (x - m) * (x - m)) xs) / of_nat (n - 1))"

definition stats :: "(rat \<Rightarrow> rat) \<Rightarrow> rat list \<Rightarrow> exn + stat" where
  "stats fl xs = (if xs = [] then Inl StatisticsError
     else let lo = Min (set xs); hi = Max (set xs) in
       Inr \<lparr>st_n = length xs, st_median = middle fl xs, st_mean = fl (fl (sum_list xs) / of_nat (length xs)),
            st_variance = (if length xs > 1 then Some (variance xs) else None), st_min = lo, st_max = hi, st_deterministic = (lo = hi)\<rparr>)"

section \<open>The rows of a workload\<close>

record stage_row =
  sg_run :: run
  sg_measured :: bool
  sg_values :: cells
  sg_diagnostics :: "(string, bool) dict"
  sg_output_valid :: bool
  sg_knobs_honoured :: bool
  sg_overflow :: bool
  sg_consistency_valid :: bool
  sg_run_valid :: bool
  sg_failed_checks :: "run_check list"

text \<open>What the two stages differ in: the events of a row, the derived metrics and the diagnostics.\<close>

record stage =
  sp_raw :: "string list"
  sp_derived :: "string list"
  sp_derive :: "run \<Rightarrow> int option \<Rightarrow> exn + cells"
  sp_diagnose :: "run \<Rightarrow> exn + (string, bool) dict"

definition stage1 :: "(rat \<Rightarrow> rat) \<Rightarrow> stage" where
  "stage1 fl = \<lparr>sp_raw = RAW1, sp_derived = DERIVED1, sp_derive = derive1 fl, sp_diagnose = (\<lambda>_. Inr [])\<rparr>"

definition stage2a :: "(rat \<Rightarrow> rat) \<Rightarrow> stage" where
  "stage2a fl = \<lparr>sp_raw = RAW2, sp_derived = DERIVED2, sp_derive = derive2 fl, sp_diagnose = diagnostics\<rparr>"

record job =
  jb_name :: string
  jb_workload :: workload
  jb_n_mac :: "int option"
  jb_summary :: "boot option"
  jb_runs :: "csv list option"

definition complete_run :: "stage \<Rightarrow> run \<Rightarrow> bool" where
  "complete_run sp r = (list_all (\<lambda>k. event_of r k \<noteq> None) (sp_raw sp) \<and> event_of r ''npu_active'' \<noteq> Some 0)"

definition raw_values :: "stage \<Rightarrow> run \<Rightarrow> cells" where
  "raw_values sp r = map (\<lambda>k. (k, map_option of_int (event_of r k))) (sp_raw sp)
     @ [(''pmccntr'', map_option of_int (rn_window_cycles r))]"

definition stage_row_of :: "stage \<Rightarrow> profile \<Rightarrow> int option \<Rightarrow> gate_result \<Rightarrow> run \<Rightarrow> exn + stage_row" where
  "stage_row_of sp prof n_mac g r =
     (let failed = (case map_of (gr_failed_runs g) (rn_rep r) of None \<Rightarrow> [] | Some f \<Rightarrow> f);
          row = \<lparr>sg_run = r, sg_measured = (\<not> rn_rep r \<le> pf_warmup prof),
                 sg_values = raw_values sp r @ map (\<lambda>k. (k, None)) (sp_derived sp), sg_diagnostics = [],
                 sg_output_valid = (R3_output \<notin> set failed), sg_knobs_honoured = (rn_run_rc r \<noteq> Some 0x7D),
                 sg_overflow = rn_overflow r,
                 sg_consistency_valid = (R5_active \<notin> set failed \<and> R6s_mac_le_npu \<notin> set failed),
                 sg_run_valid = (gr_gate g = BASELINE_PASS \<and> failed = []), sg_failed_checks = failed\<rparr>
      in if complete_run sp r
         then bind_res (sp_derive sp r n_mac) (\<lambda>d. bind_res (sp_diagnose sp r) (\<lambda>s.
                Inr (row\<lparr>sg_values := raw_values sp r @ d, sg_diagnostics := s\<rparr>)))
         else Inr row)"

fun stage_rows :: "stage \<Rightarrow> profile \<Rightarrow> int option \<Rightarrow> gate_result \<Rightarrow> run list \<Rightarrow> exn + stage_row list" where
  "stage_rows sp prof n_mac g [] = Inr []"
| "stage_rows sp prof n_mac g (r # rs) =
     bind_res (stage_row_of sp prof n_mac g r) (\<lambda>row.
     bind_res (stage_rows sp prof n_mac g rs) (\<lambda>rows. Inr (row # rows)))"

definition value_of :: "string \<Rightarrow> stage_row \<Rightarrow> rat option" where
  "value_of k row = (case map_of (sg_values row) k of None \<Rightarrow> None | Some v \<Rightarrow> v)"

text \<open>The metrics of a passing workload: a name with a missing value in a measured RUN is left out.\<close>

fun metrics_of :: "(rat \<Rightarrow> rat) \<Rightarrow> stage_row list \<Rightarrow> string list \<Rightarrow> exn + metrics" where
  "metrics_of fl measured [] = Inr []"
| "metrics_of fl measured (k # ks) =
     (if list_all (\<lambda>p. value_of k p \<noteq> None) measured
      then bind_res (stats fl (map (\<lambda>p. the (value_of k p)) measured)) (\<lambda>s.
           bind_res (metrics_of fl measured ks) (\<lambda>d. Inr ((k, s) # d)))
      else metrics_of fl measured ks)"

text \<open>\<open>sum(not p[k] for p in measured)\<close>\<close>

fun violations :: "string \<Rightarrow> stage_row list \<Rightarrow> exn + nat" where
  "violations k [] = Inr 0"
| "violations k (p # ps) =
     bind_res (dict_get k (sg_diagnostics p)) (\<lambda>ok. bind_res (violations k ps) (\<lambda>n. Inr (if ok then n else Suc n)))"

fun violations_of :: "stage_row list \<Rightarrow> string list \<Rightarrow> exn + (string, nat) dict" where
  "violations_of ps [] = Inr []"
| "violations_of ps (k # ks) = bind_res (violations k ps) (\<lambda>n. bind_res (violations_of ps ks) (\<lambda>d. Inr ((k, n) # d)))"

definition diagnostic_violations :: "stage \<Rightarrow> stage_row list \<Rightarrow> exn + (string, nat) dict" where
  "diagnostic_violations sp measured =
     (case measured of [] \<Rightarrow> Inl IndexError
      | p # _ \<Rightarrow> bind_res (sp_diagnose sp (sg_run p)) (\<lambda>d. violations_of measured (map fst d)))"

record entry =
  en_workload :: string
  en_n_mac :: "int option"
  en_gate :: gate_result
  en_valid :: bool
  en_metrics :: metrics
  en_violations :: "(string, nat) dict"

definition metric_names :: "stage \<Rightarrow> string list" where
  "metric_names sp = sp_raw sp @ [''pmccntr''] @ sp_derived sp"

definition analyse_job :: "(rat \<Rightarrow> rat) \<Rightarrow> stage \<Rightarrow> profile \<Rightarrow> int list \<Rightarrow> job \<Rightarrow> exn + stage_row list \<times> entry" where
  "analyse_job fl sp prof ids w =
     bind_res (workload_gate stage1_checks (jb_summary w) (jb_runs w) prof (jb_workload w) ids) (\<lambda>g.
     bind_res (case jb_runs w of None \<Rightarrow> Inr [] | Some rows \<Rightarrow> load_runs rows) (\<lambda>runs.
     bind_res (stage_rows sp prof (jb_n_mac w) g runs) (\<lambda>rows.
     let e = \<lparr>en_workload = jb_name w, en_n_mac = jb_n_mac w, en_gate = g, en_valid = (gr_gate g = BASELINE_PASS),
              en_metrics = [], en_violations = []\<rparr>
     in if gr_gate g = BASELINE_PASS
        then bind_res (metrics_of fl (filter sg_measured rows) (metric_names sp)) (\<lambda>d.
             bind_res (diagnostic_violations sp (filter sg_measured rows)) (\<lambda>v.
               Inr (rows, e\<lparr>en_metrics := d, en_violations := v\<rparr>)))
        else Inr (rows, e))))"

fun analyse :: "(rat \<Rightarrow> rat) \<Rightarrow> stage \<Rightarrow> profile \<Rightarrow> int list \<Rightarrow> job list \<Rightarrow> exn + stage_row list \<times> (string, entry) dict" where
  "analyse fl sp prof ids [] = Inr ([], [])"
| "analyse fl sp prof ids (w # ws) =
     bind_res (analyse_job fl sp prof ids w) (\<lambda>(rows, e).
     bind_res (analyse fl sp prof ids ws) (\<lambda>(rest, summary). Inr (rows @ rest, (jb_name w, e) # summary)))"

section \<open>Hypotheses\<close>

datatype separation = HIGHER | LOWER | OVERLAP

definition separation_of :: "stat \<Rightarrow> stat \<Rightarrow> separation" where
  "separation_of x y = (if st_min x > st_max y then HIGHER else if st_max x < st_min y then LOWER else OVERLAP)"

definition reproduced :: "metrics \<Rightarrow> metrics \<Rightarrow> exn + bool" where
  "reproduced metrics ref =
     bind_res (dict_get ''mac_active'' metrics) (\<lambda>mac.
     bind_res (dict_get ''npu_active'' metrics) (\<lambda>npu.
     bind_res (dict_get ''mac_active'' ref) (\<lambda>ref_mac.
     bind_res (dict_get ''npu_active'' ref) (\<lambda>ref_npu.
       Inr (st_deterministic ref_mac \<and> st_min mac = st_max mac \<and> st_max mac = st_median ref_mac
          \<and> st_min ref_npu \<le> st_median npu \<and> st_median npu \<le> st_max ref_npu)))))"

datatype status = SUPPORTED | PARTIAL_SUPPORT | CORRELATED_ONLY | REFUTED | STATUS_UNRESOLVED

datatype source = TRM | Driver

definition INACTIVITY :: "(string \<times> string \<times> source) list" where
  "INACTIVITY = [(''H1'', ''wd_stalled_ratio'', TRM), (''H2'', ''mac_ib_stall_ratio'', Driver),
     (''H3b'', ''mac_w_or_acc_stall_ratio'', Driver), (''H4'', ''ao_active_ratio'', TRM)]"

definition STALLS :: "string list" where
  "STALLS = [''wd_stalled_ratio'', ''mac_ib_stall_ratio'', ''mac_w_or_acc_stall_ratio'']"

definition inactivity_status :: "(rat \<Rightarrow> rat) \<Rightarrow> metrics \<Rightarrow> metrics \<Rightarrow> string \<Rightarrow> source \<Rightarrow> exn + status" where
  "inactivity_status fl opm refm metric src =
     bind_res (dict_get metric opm) (\<lambda>x.
     bind_res (dict_get metric refm) (\<lambda>y.
     bind_res (dict_get ''mac_active_ratio'' refm) (\<lambda>ry.
     bind_res (dict_get ''mac_active_ratio'' opm) (\<lambda>rx.
       let sep = separation_of x y; excess = fl (st_median x - st_median y); gap = fl (st_median ry - st_median rx) in
       Inr (if separation_of rx ry \<noteq> LOWER then STATUS_UNRESOLVED
            else if sep = HIGHER then
              (case (src, excess \<ge> gap) of (TRM, True) \<Rightarrow> SUPPORTED | (TRM, False) \<Rightarrow> PARTIAL_SUPPORT
               | (Driver, True) \<Rightarrow> PARTIAL_SUPPORT | (Driver, False) \<Rightarrow> CORRELATED_ONLY)
            else if sep = OVERLAP \<and> excess > 0 then STATUS_UNRESOLVED else REFUTED)))))"

fun separated_higher :: "metrics \<Rightarrow> metrics \<Rightarrow> string list \<Rightarrow> exn + string list" where
  "separated_higher opm refm [] = Inr []"
| "separated_higher opm refm (s # ss) =
     bind_res (dict_get s opm) (\<lambda>x. bind_res (dict_get s refm) (\<lambda>y.
       bind_res (separated_higher opm refm ss) (\<lambda>hs.
         Inr ((if separation_of x y = HIGHER then [s] else []) @ hs))))"

text \<open>H5 and H6.\<close>

definition efficiency_status :: "metrics \<Rightarrow> metrics \<Rightarrow> exn + status \<times> status" where
  "efficiency_status opm refm =
     bind_res (dict_get ''mac_active_cycle_efficiency'' opm) (\<lambda>ex.
     bind_res (dict_get ''mac_active_cycle_efficiency'' refm) (\<lambda>ey.
     bind_res (dict_get ''dpu_given_mac_active'' opm) (\<lambda>dx.
     bind_res (dict_get ''dpu_given_mac_active'' refm) (\<lambda>dy.
     bind_res (separated_higher opm refm STALLS) (\<lambda>stalls_higher.
       let low = (separation_of ex ey = LOWER); c = separation_of dx dy in
       Inr (if \<not> low then (REFUTED, REFUTED)
            else (if c = LOWER then REFUTED else if stalls_higher \<noteq> [] then STATUS_UNRESOLVED else SUPPORTED,
                  case c of LOWER \<Rightarrow> SUPPORTED | HIGHER \<Rightarrow> REFUTED | OVERLAP \<Rightarrow> STATUS_UNRESOLVED)))))))"

text \<open>The texts of the routes.\<close>

datatype route = Weight_supply | Ifm_supply | Split_52 | Output_side | Shape_sweep | Dpu_sweep | Pattern_6

definition ROUTES :: "(string \<times> status list \<times> route) list" where
  "ROUTES = [(''H1'', [SUPPORTED, PARTIAL_SUPPORT], Weight_supply),
     (''H2'', [PARTIAL_SUPPORT, CORRELATED_ONLY], Ifm_supply),
     (''H3b'', [PARTIAL_SUPPORT, CORRELATED_ONLY], Split_52),
     (''H4'', [SUPPORTED, PARTIAL_SUPPORT], Output_side),
     (''H5'', [SUPPORTED], Shape_sweep), (''H6'', [SUPPORTED], Dpu_sweep)]"

fun inactivity_all :: "(rat \<Rightarrow> rat) \<Rightarrow> metrics \<Rightarrow> metrics \<Rightarrow> (string \<times> string \<times> source) list \<Rightarrow> exn + (string, status) dict" where
  "inactivity_all fl opm refm [] = Inr []"
| "inactivity_all fl opm refm ((h, metric, src) # hs) =
     bind_res (inactivity_status fl opm refm metric src) (\<lambda>s.
       bind_res (inactivity_all fl opm refm hs) (\<lambda>d. Inr ((h, s) # d)))"

record judgement =
  ju_hypotheses :: "(string, status) dict"
  ju_component_evidence :: bool
  ju_routes :: "route list"

definition status_in :: "(string, status) dict \<Rightarrow> string \<Rightarrow> status list \<Rightarrow> bool" where
  "status_in h k hit = (case map_of h k of None \<Rightarrow> False | Some s \<Rightarrow> s \<in> set hit)"

text \<open>One operator against the reference.\<close>

definition judge :: "(rat \<Rightarrow> rat) \<Rightarrow> metrics \<Rightarrow> metrics \<Rightarrow> exn + judgement" where
  "judge fl opm refm =
     bind_res (inactivity_all fl opm refm INACTIVITY) (\<lambda>inact.
     bind_res (efficiency_status opm refm) (\<lambda>(h5, h6).
       let h = inact @ [(''H3'', STATUS_UNRESOLVED), (''H5'', h5), (''H6'', h6)];
           no_component = \<not> list_ex (\<lambda>k. status_in h k [SUPPORTED, PARTIAL_SUPPORT]) (map fst INACTIVITY);
           routes = map (\<lambda>(_, _, why). why) (filter (\<lambda>(k, hit, _). status_in h k hit) ROUTES)
       in Inr \<lparr>ju_hypotheses = h, ju_component_evidence = (\<not> no_component),
               ju_routes = routes @ (if no_component then [Pattern_6] else [])\<rparr>))"

definition REF :: string where "REF = ''conv3x3''"
definition OPERATORS :: "string list" where "OPERATORS = [''dw3x3'', ''pw1x1'']"

text \<open>\<open>summary[name]["metrics"]\<close>; the key is only there for a valid workload.\<close>

definition metrics_in :: "(string, entry) dict \<Rightarrow> string \<Rightarrow> exn + metrics" where
  "metrics_in summary name = bind_res (dict_get name summary) (\<lambda>e. if en_valid e then Inr (en_metrics e) else Inl KeyError)"

fun judge_all :: "(rat \<Rightarrow> rat) \<Rightarrow> (string, entry) dict \<Rightarrow> metrics \<Rightarrow> string list \<Rightarrow> exn + (string, judgement) dict" where
  "judge_all fl summary refm [] = Inr []"
| "judge_all fl summary refm (n # ns) =
     bind_res (metrics_in summary n) (\<lambda>opm. bind_res (judge fl opm refm) (\<lambda>v.
       bind_res (judge_all fl summary refm ns) (\<lambda>d. Inr ((n, v) # d))))"

definition hypotheses :: "(rat \<Rightarrow> rat) \<Rightarrow> (string, entry) dict \<Rightarrow> exn + (string, judgement) dict" where
  "hypotheses fl summary = bind_res (metrics_in summary REF) (\<lambda>refm. judge_all fl summary refm OPERATORS)"

section \<open>Comparisons\<close>

record comparison =
  cm_ratio_of_medians :: "rat option"
  cm_separation :: separation

fun compare_metrics :: "(rat \<Rightarrow> rat) \<Rightarrow> metrics \<Rightarrow> metrics \<Rightarrow> string list \<Rightarrow> exn + (string, comparison) dict" where
  "compare_metrics fl ma mb [] = Inr []"
| "compare_metrics fl ma mb (k # ks) =
     bind_res (dict_get k mb) (\<lambda>y. bind_res (dict_get k ma) (\<lambda>x.
       bind_res (compare_metrics fl ma mb ks) (\<lambda>d.
         Inr ((k, \<lparr>cm_ratio_of_medians = (if st_median y = 0 then None else Some (fl (st_median x / st_median y))),
                   cm_separation = separation_of x y\<rparr>) # d))))"

definition PAIRS :: "(string \<times> string) list" where
  "PAIRS = [(''dw3x3'', ''conv3x3''), (''pw1x1'', ''conv3x3''), (''dw3x3'', ''pw1x1'')]"

fun compare_pairs :: "(rat \<Rightarrow> rat) \<Rightarrow> (string, entry) dict \<Rightarrow> (string \<times> string) list \<Rightarrow>
    exn + (string, (string, comparison) dict) dict" where
  "compare_pairs fl summary [] = Inr []"
| "compare_pairs fl summary ((a, b) # ps) =
     bind_res (metrics_in summary a) (\<lambda>ma. bind_res (metrics_in summary b) (\<lambda>mb.
     bind_res (compare_metrics fl ma mb (RAW2 @ DERIVED2)) (\<lambda>c.
     bind_res (compare_pairs fl summary ps) (\<lambda>d. Inr ((a @ ''_vs_'' @ b, c) # d)))))"

definition comparisons :: "(rat \<Rightarrow> rat) \<Rightarrow> (string, entry) dict \<Rightarrow> exn + (string, (string, comparison) dict) dict" where
  "comparisons fl summary = compare_pairs fl summary PAIRS"

section \<open>The verdict of stage 2a\<close>

definition STAGE1_REF :: "(string, string) dict" where
  "STAGE1_REF = [(''conv3x3'', ''conv3x3@a2''), (''dw3x3'', ''dw3x3''), (''pw1x1'', ''pw1x1@a2'')]"

definition STAGE1_SHOWN :: "string list" where
  "STAGE1_SHOWN = [''peak_mac_efficiency'', ''mac_active_cycle_efficiency'', ''sram_beats_per_mac'', ''ext_beats_per_mac'']"

fun shown :: "metrics \<Rightarrow> string list \<Rightarrow> exn + rat list" where
  "shown ref [] = Inr []"
| "shown ref (k # ks) = bind_res (dict_get k ref) (\<lambda>s. bind_res (shown ref ks) (\<lambda>ms. Inr (st_median s # ms)))"

text \<open>Whether each entry is valid and reproduces its reference, over the metrics of the stage 1 summary.\<close>

fun check_entries :: "(string, metrics) dict \<Rightarrow> (string, entry) dict \<Rightarrow> exn + (string, bool) dict" where
  "check_entries s1 [] = Inr []"
| "check_entries s1 ((name, e) # es) =
     bind_res (dict_get name STAGE1_REF) (\<lambda>k. bind_res (dict_get k s1) (\<lambda>ref.
     bind_res (shown ref STAGE1_SHOWN) (\<lambda>_.
     bind_res (if en_valid e then reproduced (en_metrics e) ref else Inr False) (\<lambda>ok.
     bind_res (check_entries s1 es) (\<lambda>d. Inr ((name, ok) # d))))))"

record stage2a_doc =
  dc_reproduced :: "(string, bool) dict"
  dc_comparisons :: "(string, (string, comparison) dict) dict option"
  dc_hypotheses :: "(string, judgement) dict option"
  dc_exit :: int

definition stage2a_verdict :: "(rat \<Rightarrow> rat) \<Rightarrow> (string, metrics) dict \<Rightarrow> (string, entry) dict \<Rightarrow> exn + stage2a_doc" where
  "stage2a_verdict fl s1 summary =
     bind_res (check_entries s1 summary) (\<lambda>rs.
     if list_all snd rs
     then bind_res (comparisons fl summary) (\<lambda>c. bind_res (hypotheses fl summary) (\<lambda>h.
            Inr \<lparr>dc_reproduced = rs, dc_comparisons = Some c, dc_hypotheses = Some h, dc_exit = 0\<rparr>))
     else Inr \<lparr>dc_reproduced = rs, dc_comparisons = None, dc_hypotheses = None, dc_exit = 1\<rparr>)"

section \<open>From the runs to the statistics\<close>

lemma sum_list_sq_zero: "sum_list (map (\<lambda>x. (f x) * (f x)) xs) = (0 :: rat) \<longleftrightarrow> (\<forall>x \<in> set xs. f x = 0)"
proof (induction xs)
  case (Cons x xs)
  have "0 \<le> sum_list (map (\<lambda>x. (f x) * (f x)) xs)" by (intro sum_list_nonneg) auto
  with Cons show ?case by (simp add: add_nonneg_eq_0_iff)
qed simp

text \<open>The variance is 0 exactly when the smallest value is the greatest.\<close>

lemma variance_deterministic:
  assumes "stats fl xs = Inr s" "st_variance s = Some v"
  shows "0 \<le> v" "v = 0 \<longleftrightarrow> st_deterministic s"
proof -
  define m where "m = sum_list xs / of_nat (length xs)"
  from assms have n: "1 < length xs" and v: "v = sum_list (map (\<lambda>x. (x - m) * (x - m)) xs) / of_nat (length xs - 1)"
    and det: "st_deterministic s \<longleftrightarrow> Min (set xs) = Max (set xs)"
    by (auto simp: stats_def variance_def m_def Let_def split: if_splits)
  show "0 \<le> v" unfolding v by (intro divide_nonneg_nonneg sum_list_nonneg) auto
  have "v = 0 \<longleftrightarrow> (\<forall>x \<in> set xs. x = m)"
    using n sum_list_sq_zero [of "\<lambda>x. x - m" xs] by (simp add: v)
  also have "\<dots> \<longleftrightarrow> Min (set xs) = Max (set xs)"
  proof
    assume "\<forall>x \<in> set xs. x = m"
    moreover have "Min (set xs) \<in> set xs" "Max (set xs) \<in> set xs" using n by (auto intro!: Min_in Max_in)
    ultimately show "Min (set xs) = Max (set xs)" by metis
  next
    assume e: "Min (set xs) = Max (set xs)"
    have "x = Min (set xs)" if "x \<in> set xs" for x
      using Min_le [OF finite_set that] Max_ge [OF finite_set that] unfolding e by (rule antisym [rotated])
    then have "xs = replicate (length xs) (Min (set xs))" by (simp add: replicate_eqI)
    then have "sum_list xs = of_nat (length xs) * Min (set xs)" by (metis sum_list_replicate)
    then have "m = Min (set xs)" using n by (cases xs) (simp_all add: m_def)
    then show "\<forall>x \<in> set xs. x = m" using \<open>\<And>x. x \<in> set xs \<Longrightarrow> x = Min (set xs)\<close> by simp
  qed
  finally show "v = 0 \<longleftrightarrow> st_deterministic s" by (simp add: det)
qed

lemma stats_bounds: "stats fl xs = Inr s \<Longrightarrow> v \<in> set xs \<Longrightarrow> st_min s \<le> v \<and> v \<le> st_max s"
  by (auto simp: stats_def Let_def split: if_splits)

lemma metrics_of_get:
  "metrics_of fl ps ks = Inr d \<Longrightarrow> dict_get k d = Inr s \<Longrightarrow>
    list_all (\<lambda>p. value_of k p \<noteq> None) ps \<and> stats fl (map (\<lambda>p. the (value_of k p)) ps) = Inr s"
proof (induction ks arbitrary: d)
  case (Cons k' ks)
  show ?case
  proof (cases "list_all (\<lambda>p. value_of k' p \<noteq> None) ps")
    case True
    with Cons.prems obtain s' d' where d: "stats fl (map (\<lambda>p. the (value_of k' p)) ps) = Inr s'"
      "metrics_of fl ps ks = Inr d'" "d = (k', s') # d'" by (auto simp: bind_res_eq_Inr)
    then show ?thesis using Cons.IH [OF d(2)] Cons.prems(2) True by (cases "k = k'") (auto simp: dict_get_def)
  next
    case False
    with Cons show ?thesis by simp
  qed
qed (simp add: dict_get_def)

lemma metrics_of_value:
  assumes "metrics_of fl ps ks = Inr d" and "dict_get k d = Inr s" and "p \<in> set ps"
  shows "\<exists>v. value_of k p = Some v \<and> st_min s \<le> v \<and> v \<le> st_max s"
proof -
  from metrics_of_get [OF assms(1,2)]
  have a: "\<forall>p \<in> set ps. value_of k p \<noteq> None" and s: "stats fl (map (\<lambda>p. the (value_of k p)) ps) = Inr s"
    by (auto simp: list_all_iff)
  have "the (value_of k p) \<in> set (map (\<lambda>p. the (value_of k p)) ps)" using assms(3) by simp
  from stats_bounds [OF s this] a assms(3) show ?thesis by auto
qed

text \<open>The share of the NPU activity an event took, exactly.\<close>

definition share :: "string \<Rightarrow> run \<Rightarrow> rat" where
  "share ev r = of_int (the (event_of r ev)) / of_int (the (event_of r ''npu_active''))"

definition SHARE_EVENTS :: "(string \<times> string) list" where
  "SHARE_EVENTS = (''mac_active_ratio'', ''mac_active'') # SHARES2"

lemma event_int_event_of: "event_int r k = Inr v \<Longrightarrow> event_of r k = Some v"
  by (auto simp: event_int_def event_of_def dict_get_def bind_res_eq_Inr split: option.splits)

lemma quot_eq: "quot fl x y = Inr q \<Longrightarrow> q = fl (of_int x / of_int y)"
  by (auto simp: quot_def split: if_splits)

lemma shares_value:
  "shares fl r a ns = Inr d \<Longrightarrow> event_of r ''npu_active'' = Some a \<Longrightarrow> map_of ns k = Some ev \<Longrightarrow>
    map_of d k = Some (Some (fl (share ev r)))"
proof (induction ns arbitrary: d)
  case (Cons n ns)
  obtain k' ev' where n: "n = (k', ev')" by (cases n)
  from Cons.prems(1) obtain e q d' where e: "event_int r ev' = Inr e" "quot fl e a = Inr q"
    "shares fl r a ns = Inr d'" "d = (k', Some q) # d'" by (auto simp: n bind_res_eq_Inr)
  show ?case
    using Cons.IH [OF e(3)] Cons.prems(2,3) e(4) quot_eq [OF e(2)] event_int_event_of [OF e(1)]
    by (cases "k = k'") (auto simp: n share_def)
qed simp

lemma derive2_value:
  assumes d: "derive2 fl r n = Inr d" and k: "map_of SHARE_EVENTS k = Some ev"
  shows "map_of d k = Some (Some (fl (share ev r)))"
proof -
  from d obtain a m q x y z others w where
    r: "event_int r ''npu_active'' = Inr a" "event_int r ''mac_active'' = Inr m" "quot fl m a = Inr q"
      "shares fl r a SHARES2 = Inr others"
      "d = [(''mac_active_ratio'', Some q), (''dpu_active_ratio'', x), (''dpu_given_mac_active'', y)] @ others
         @ [(''mac_active_cycle_efficiency'', w)]"
    unfolding derive2_def bind_res_eq_Inr by auto
  show ?thesis
  proof (cases "k = ''mac_active_ratio''")
    case True
    then show ?thesis
      using k r(5) quot_eq [OF r(3)] event_int_event_of [OF r(1)] event_int_event_of [OF r(2)]
      by (simp add: SHARE_EVENTS_def share_def)
  next
    case False
    with k have s: "map_of SHARES2 k = Some ev" by (simp add: SHARE_EVENTS_def)
    then have "k \<noteq> ''dpu_active_ratio''" "k \<noteq> ''dpu_given_mac_active''" by (auto simp: SHARES2_def split: if_splits)
    with False s show ?thesis
      using r(5) shares_value [OF r(4) event_int_event_of [OF r(1)] s] by simp
  qed
qed

lemma share_names:
  "map_of SHARE_EVENTS k = Some ev \<Longrightarrow> k \<notin> set (RAW2 @ [''pmccntr'']) \<and> k \<in> set DERIVED2"
  by (auto simp: SHARE_EVENTS_def SHARES2_def RAW2_def DERIVED2_def split: if_splits)

lemma map_of_raw_values: "k \<notin> set (sp_raw sp @ [''pmccntr'']) \<Longrightarrow> map_of (raw_values sp r) k = None"
  by (auto simp: raw_values_def map_of_eq_None_iff)

lemma map_of_const: "k \<in> set ks \<Longrightarrow> map_of (map (\<lambda>k. (k, c)) ks) k = Some c"
  by (induction ks) auto

lemma row_share:
  assumes row: "stage_row_of (stage2a fl) prof n g r = Inr row" and k: "map_of SHARE_EVENTS k = Some ev"
    and some: "value_of k row \<noteq> None"
  shows "value_of k row = Some (fl (share ev r))"
proof -
  have raw: "map_of (raw_values (stage2a fl) r) k = None"
    using share_names [OF k] by (intro map_of_raw_values) (simp add: stage2a_def)
  show ?thesis
  proof (cases "complete_run (stage2a fl) r")
    case True
    with row obtain d s where d: "derive2 fl r n = Inr d" "sg_values row = raw_values (stage2a fl) r @ d"
      unfolding stage_row_of_def Let_def by (auto simp: bind_res_eq_Inr stage2a_def)
    show ?thesis using derive2_value [OF d(1) k] raw by (simp add: value_of_def d(2) map_add_def)
  next
    case False
    with row have "sg_values row = raw_values (stage2a fl) r @ map (\<lambda>k. (k, None)) DERIVED2"
      unfolding stage_row_of_def Let_def by (auto simp: stage2a_def)
    then have "map_of (sg_values row) k = Some None"
      using raw share_names [OF k] map_of_const [of k DERIVED2 None] by (simp add: map_add_def)
    then show ?thesis using some by (simp add: value_of_def)
  qed
qed

lemma stage_rows_run:
  "stage_rows sp prof n g rs = Inr rows \<Longrightarrow> r \<in> set rs \<Longrightarrow> \<exists>row \<in> set rows. stage_row_of sp prof n g r = Inr row"
  by (induction rs arbitrary: rows) (auto simp: bind_res_eq_Inr)

lemma stage_row_measured: "stage_row_of sp prof n g r = Inr row \<Longrightarrow> sg_measured row = (pf_warmup prof < rn_rep r)"
  unfolding stage_row_of_def Let_def by (auto simp: bind_res_eq_Inr split: if_splits)

section \<open>The judgement\<close>

lemma inactivity_all_spec:
  "inactivity_all fl opm refm hs = Inr d \<Longrightarrow>
    map fst d = map fst hs
    \<and> list_all2 (\<lambda>(h, metric, src) (h', s). h = h' \<and> inactivity_status fl opm refm metric src = Inr s) hs d"
  by (induction hs arbitrary: d) (auto simp: bind_res_eq_Inr)

lemma inactivity_separates:
  "inactivity_status fl opm refm metric src = Inr s \<Longrightarrow> s \<in> {SUPPORTED, PARTIAL_SUPPORT, CORRELATED_ONLY} \<Longrightarrow>
    \<exists>x y rx ry. dict_get metric opm = Inr x \<and> dict_get metric refm = Inr y \<and> st_max y < st_min x
      \<and> dict_get ''mac_active_ratio'' opm = Inr rx \<and> dict_get ''mac_active_ratio'' refm = Inr ry \<and> st_max rx < st_min ry"
  by (auto simp: inactivity_status_def bind_res_eq_Inr Let_def separation_of_def split: if_splits)

lemma driver_not_supported: "inactivity_status fl opm refm metric Driver = Inr s \<Longrightarrow> s \<noteq> SUPPORTED"
  by (auto simp: inactivity_status_def bind_res_eq_Inr Let_def split: if_splits bool.splits)

lemma trm_not_correlated: "inactivity_status fl opm refm metric TRM = Inr s \<Longrightarrow> s \<noteq> CORRELATED_ONLY"
  by (auto simp: inactivity_status_def bind_res_eq_Inr Let_def split: if_splits bool.splits)

lemma efficiency_exclusive: "efficiency_status opm refm = Inr (h5, h6) \<Longrightarrow> \<not> (h5 = SUPPORTED \<and> h6 = SUPPORTED)"
  by (auto simp: efficiency_status_def bind_res_eq_Inr Let_def split: if_splits separation.splits)

lemma judge_statuses:
  assumes "judge fl opm refm = Inr j"
  obtains s1 s2 s3 s4 h5 h6 where
    "ju_hypotheses j = [(''H1'', s1), (''H2'', s2), (''H3b'', s3), (''H4'', s4), (''H3'', STATUS_UNRESOLVED), (''H5'', h5), (''H6'', h6)]"
    "inactivity_status fl opm refm ''wd_stalled_ratio'' TRM = Inr s1"
    "inactivity_status fl opm refm ''mac_ib_stall_ratio'' Driver = Inr s2"
    "inactivity_status fl opm refm ''mac_w_or_acc_stall_ratio'' Driver = Inr s3"
    "inactivity_status fl opm refm ''ao_active_ratio'' TRM = Inr s4"
    "efficiency_status opm refm = Inr (h5, h6)"
    "ju_component_evidence j = list_ex (\<lambda>s. s \<in> {SUPPORTED, PARTIAL_SUPPORT}) [s1, s2, s3, s4]"
    "ju_routes j = map (\<lambda>(_, _, why). why) (filter (\<lambda>(k, hit, _). status_in (ju_hypotheses j) k hit) ROUTES)
       @ (if ju_component_evidence j then [] else [Pattern_6])"
proof -
  from assms obtain inact h5 h6 where i: "inactivity_all fl opm refm INACTIVITY = Inr inact"
    and e: "efficiency_status opm refm = Inr (h5, h6)"
    and h: "ju_hypotheses j = inact @ [(''H3'', STATUS_UNRESOLVED), (''H5'', h5), (''H6'', h6)]"
    and ev: "ju_component_evidence j = list_ex (\<lambda>k. status_in (ju_hypotheses j) k [SUPPORTED, PARTIAL_SUPPORT]) (map fst INACTIVITY)"
    and r: "ju_routes j = map (\<lambda>(_, _, why). why) (filter (\<lambda>(k, hit, _). status_in (ju_hypotheses j) k hit) ROUTES)
       @ (if ju_component_evidence j then [] else [Pattern_6])"
    unfolding judge_def bind_res_eq_Inr Let_def by auto
  from i obtain s1 s2 s3 s4 where s: "inact = [(''H1'', s1), (''H2'', s2), (''H3b'', s3), (''H4'', s4)]"
    "inactivity_status fl opm refm ''wd_stalled_ratio'' TRM = Inr s1"
    "inactivity_status fl opm refm ''mac_ib_stall_ratio'' Driver = Inr s2"
    "inactivity_status fl opm refm ''mac_w_or_acc_stall_ratio'' Driver = Inr s3"
    "inactivity_status fl opm refm ''ao_active_ratio'' TRM = Inr s4"
    unfolding INACTIVITY_def by (auto simp: bind_res_eq_Inr)
  have "ju_component_evidence j = list_ex (\<lambda>s. s \<in> {SUPPORTED, PARTIAL_SUPPORT}) [s1, s2, s3, s4]"
    unfolding ev by (simp add: h s(1) INACTIVITY_def status_in_def)
  with that s(2-5) e r h show ?thesis unfolding s(1) by simp
qed

text \<open>What the contract of stage 2a asks of a judgement.\<close>

definition contract_judgement :: "judgement \<Rightarrow> bool" where
  "contract_judgement j \<longleftrightarrow>
     (let h = map_of (ju_hypotheses j) in
        h ''H3'' = Some STATUS_UNRESOLVED
        \<and> h ''H2'' \<noteq> Some SUPPORTED \<and> h ''H3b'' \<noteq> Some SUPPORTED
        \<and> h ''H1'' \<noteq> Some CORRELATED_ONLY \<and> h ''H4'' \<noteq> Some CORRELATED_ONLY
        \<and> (h ''H5'', h ''H6'') \<noteq> (Some SUPPORTED, Some SUPPORTED)
        \<and> ju_component_evidence j
            = list_ex (\<lambda>k. h k \<in> {Some SUPPORTED, Some PARTIAL_SUPPORT}) [''H1'', ''H2'', ''H3b'', ''H4'']
        \<and> (Pattern_6 \<in> set (ju_routes j)) = (\<not> ju_component_evidence j)
        \<and> ju_routes j \<noteq> [] \<and> distinct (ju_routes j))"

lemma judge_contract: "judge fl opm refm = Inr j \<Longrightarrow> contract_judgement j"
proof (erule judge_statuses, goal_cases)
  case (1 s1 s2 s3 s4 h5 h6)
  let ?whys = "\<lambda>xs. map (\<lambda>(_, _, why). why) xs"
  let ?hits = "filter (\<lambda>(k, hit, _). status_in (ju_hypotheses j) k hit) ROUTES"
  have "Pattern_6 \<notin> set (?whys ROUTES)" "distinct (?whys ROUTES)" by (simp_all add: ROUTES_def)
  then have n: "Pattern_6 \<notin> set (?whys ?hits)" "distinct (?whys ?hits)" by (force simp: distinct_map_filter)+
  have e: "?hits \<noteq> []" if "ju_component_evidence j"
    using that trm_not_correlated [OF 1(2)] driver_not_supported [OF 1(3)] driver_not_supported [OF 1(4)]
    unfolding 1(7) by (auto simp: ROUTES_def status_in_def 1(1))
  have r: "(Pattern_6 \<in> set (ju_routes j)) = (\<not> ju_component_evidence j)" "ju_routes j \<noteq> []" "distinct (ju_routes j)"
    unfolding 1(8) using n e by auto
  show ?case
    unfolding contract_judgement_def Let_def using r 1(7) driver_not_supported [OF 1(3)] driver_not_supported [OF 1(4)]
      trm_not_correlated [OF 1(2)] trm_not_correlated [OF 1(5)] efficiency_exclusive [OF 1(6)]
    by (simp add: 1(1))
qed

lemma judge_all_spec:
  "judge_all fl summary refm ns = Inr js \<Longrightarrow> map fst js = ns \<and> list_all (\<lambda>(_, j). contract_judgement j) js"
  by (induction ns arbitrary: js) (auto simp: bind_res_eq_Inr intro: judge_contract)

text \<open>What the contract of stage 2a (section 5) asks of a workload: it is valid; the MAC activity of its stage 1
  reference is deterministic and every measured RUN equals it; the median of its NPU activity lies in the range
  that was measured for the reference.\<close>

definition reproduces :: "metrics \<Rightarrow> metrics \<Rightarrow> bool" where
  "reproduces m ref \<longleftrightarrow> (\<exists>mac npu ref_mac ref_npu.
     map_of m ''mac_active'' = Some mac \<and> map_of ref ''mac_active'' = Some ref_mac
     \<and> map_of m ''npu_active'' = Some npu \<and> map_of ref ''npu_active'' = Some ref_npu
     \<and> st_deterministic ref_mac \<and> st_min mac = st_median ref_mac \<and> st_max mac = st_median ref_mac
     \<and> st_min ref_npu \<le> st_median npu \<and> st_median npu \<le> st_max ref_npu)"

definition reproduces_stage1 :: "(string, metrics) dict \<Rightarrow> string \<Rightarrow> entry \<Rightarrow> bool" where
  "reproduces_stage1 s1 name e \<longleftrightarrow> en_valid e \<and> (\<exists>k ref. map_of STAGE1_REF name = Some k
     \<and> map_of s1 k = Some ref \<and> reproduces (en_metrics e) ref)"

lemma reproduced_spec: "reproduced m ref = Inr ok \<Longrightarrow> ok = reproduces m ref"
  by (auto simp: reproduced_def reproduces_def bind_res_eq_Inr dict_get_def split: option.splits)

lemma check_entries_spec:
  "check_entries s1 es = Inr rs \<Longrightarrow> rs = map (\<lambda>(name, e). (name, reproduces_stage1 s1 name e)) es"
proof (induction es arbitrary: rs)
  case (Cons x es)
  obtain name e where x: "x = (name, e)" by fastforce
  from Cons.prems obtain k ref ok d where k: "dict_get name STAGE1_REF = Inr k" "dict_get k s1 = Inr ref"
    and ok: "(if en_valid e then reproduced (en_metrics e) ref else Inr False) = Inr ok"
    and d: "check_entries s1 es = Inr d" "rs = (name, ok) # d"
    by (auto simp: x bind_res_eq_Inr)
  have "ok = reproduces_stage1 s1 name e"
    using k ok reproduced_spec [of "en_metrics e" ref]
    by (auto simp: reproduces_stage1_def dict_get_def split: option.splits if_splits)
  with Cons.IH [OF d(1)] d(2) x show ?case by simp
qed simp

lemma list_all_snd_map: "list_all snd (map (\<lambda>(k, v). (k, P k v)) xs) = list_all (\<lambda>(k, v). P k v) xs"
  by (induction xs) auto

section \<open>Properties\<close>

text \<open>C25. The verdict of stage 2a marks as reproduced exactly the workloads that reproduce their stage 1 reference
  in the sense of the contract, exits 0 exactly when all of them do (and are valid), and only then are there
  comparisons and hypotheses. The judgements are those of the two operators and keep the contract: H3 is never
  decided, a driver-derived counter alone supports nothing, a counter of the manual is never merely
  correlated, H5 and H6 are not both supported, pattern 6 is the route exactly without component evidence,
  and every operator has at least one route, none twice.\<close>

theorem stage2a_interpretation_gated:
  "case stage2a_verdict fl s1 summary of Inl _ \<Rightarrow> True
   | Inr doc \<Rightarrow>
       dc_reproduced doc = map (\<lambda>(name, e). (name, reproduces_stage1 s1 name e)) summary
       \<and> dc_exit doc = (if list_all (\<lambda>(name, e). reproduces_stage1 s1 name e) summary then 0 else 1)
       \<and> (case dc_hypotheses doc of
            None \<Rightarrow> dc_exit doc = 1 \<and> dc_comparisons doc = None
          | Some js \<Rightarrow> dc_exit doc = 0 \<and> dc_comparisons doc \<noteq> None \<and> list_all (\<lambda>(_, e). en_valid e) summary
              \<and> map fst js = OPERATORS \<and> list_all (\<lambda>(_, j). contract_judgement j) js)"
proof (cases "check_entries s1 summary")
  case (Inr rs)
  note rs = check_entries_spec [OF Inr]
  have all: "list_all snd rs = list_all (\<lambda>(name, e). reproduces_stage1 s1 name e) summary"
    unfolding rs by (rule list_all_snd_map)
  show ?thesis
  proof (cases "list_all snd rs")
    case True
    have valid: "list_all (\<lambda>(_, e). en_valid e) summary"
      using True unfolding all by (auto simp: list_all_iff reproduces_stage1_def)
    show ?thesis
    proof (cases "stage2a_verdict fl s1 summary")
      case v: (Inr doc)
      with Inr True obtain c js where "hypotheses fl summary = Inr js"
        and doc: "doc = \<lparr>dc_reproduced = rs, dc_comparisons = Some c, dc_hypotheses = Some js, dc_exit = 0\<rparr>"
        by (auto simp: stage2a_verdict_def bind_res_eq_Inr)
      then obtain refm where "judge_all fl summary refm OPERATORS = Inr js" by (auto simp: hypotheses_def bind_res_eq_Inr)
      from judge_all_spec [OF this] show ?thesis using rs valid True all by (simp add: v doc)
    qed simp
  next
    case False
    then show ?thesis using rs all by (simp add: stage2a_verdict_def Inr)
  qed
qed (simp add: stage2a_verdict_def)

text \<open>C26. When a counter is given as support (or partial support, or correlation) for an operator's low MAC activity,
  then in every measured RUN of the operator its exact share of the NPU activity is above the share in every measured
  RUN of the reference, and the exact share of MAC activity is below: the rounding of the quotients, of which only
  monotonicity is used, cannot fake a separation.\<close>

theorem counter_evidence_separates_runs:
  assumes "mono fl"
    and "stage_rows (stage2a fl) prof n g xs = Inr rows" and "stage_rows (stage2a fl) prof n' g' ys = Inr rows'"
    and "metrics_of fl (filter sg_measured rows) (metric_names (stage2a fl)) = Inr opm"
    and "metrics_of fl (filter sg_measured rows') (metric_names (stage2a fl)) = Inr refm"
    and "inactivity_status fl opm refm metric src = Inr s" and "s \<in> {SUPPORTED, PARTIAL_SUPPORT, CORRELATED_ONLY}"
    and "map_of SHARES2 metric = Some ev"
    and "x \<in> set xs" and "pf_warmup prof < rn_rep x" and "y \<in> set ys" and "pf_warmup prof < rn_rep y"
  shows "share ev y < share ev x \<and> share ''mac_active'' x < share ''mac_active'' y"
proof -
  from stage_rows_run [OF assms(2,9)] stage_rows_run [OF assms(3,11)] obtain p q where
    p: "p \<in> set rows" "stage_row_of (stage2a fl) prof n g x = Inr p" and
    q: "q \<in> set rows'" "stage_row_of (stage2a fl) prof n' g' y = Inr q" by blast
  have pm: "p \<in> set (filter sg_measured rows)" using p stage_row_measured [OF p(2)] assms(10) by simp
  have qm: "q \<in> set (filter sg_measured rows')" using q stage_row_measured [OF q(2)] assms(12) by simp
  have left: "st_min m \<le> fl (share e x) \<and> fl (share e x) \<le> st_max m"
    if "dict_get k opm = Inr m" "map_of SHARE_EVENTS k = Some e" for k e m
    using metrics_of_value [OF assms(4) that(1) pm] row_share [OF p(2) that(2)] by auto
  have right: "st_min m \<le> fl (share e y) \<and> fl (share e y) \<le> st_max m"
    if "dict_get k refm = Inr m" "map_of SHARE_EVENTS k = Some e" for k e m
    using metrics_of_value [OF assms(5) that(1) qm] row_share [OF q(2) that(2)] by auto
  from inactivity_separates [OF assms(6,7)] obtain a b c d where
    s: "dict_get metric opm = Inr a" "dict_get metric refm = Inr b" "st_max b < st_min a"
      "dict_get ''mac_active_ratio'' opm = Inr c" "dict_get ''mac_active_ratio'' refm = Inr d" "st_max c < st_min d"
    by auto
  have k: "map_of SHARE_EVENTS metric = Some ev" "map_of SHARE_EVENTS ''mac_active_ratio'' = Some ''mac_active''"
    using assms(8) by (auto simp: SHARE_EVENTS_def SHARES2_def split: if_splits)
  have "fl (share ev y) < fl (share ev x)" "fl (share ''mac_active'' x) < fl (share ''mac_active'' y)"
    using left [OF s(1) k(1)] right [OF s(2) k(1)] s(3) left [OF s(4) k(2)] right [OF s(5) k(2)] s(6) by linarith+
  with monoD [OF assms(1)] show ?thesis by (meson not_le)
qed

definition sample_profile :: profile where
  "sample_profile = \<lparr>pf_name = [], pf_ports = None, pf_axi_limit = None, pf_power_ctrl = None, pf_fast_base = ''0'',
     pf_ta_profile = None, pf_image = [], pf_repeats = 1, pf_warmup = 0\<rparr>"

definition sample_run :: "int \<Rightarrow> int \<Rightarrow> run" where
  "sample_run mac stalled = \<lparr>rn_rep = 1, rn_valid = True, rn_overflow = False, rn_window_cycles = Some 100, rn_run_rc = Some 0,
     rn_vendor_rc = Some 0, rn_ofm_mismatch = Some 0,
     rn_events = map (\<lambda>k. (k, Some (if k = ''npu_active'' then 100 else if k = ''wd_stalled'' then stalled else mac))) RAW2\<rparr>"

definition sample_metrics :: "int \<Rightarrow> int \<Rightarrow> exn + metrics" where
  "sample_metrics mac stalled =
     bind_res (stage_rows (stage2a id) sample_profile (Some 4096) (no_result BASELINE_PASS) [sample_run mac stalled])
       (\<lambda>rows. metrics_of id (filter sg_measured rows) (metric_names (stage2a id)))"

lemma sample_evidence:
  "\<exists>rows rows' opm refm.
     stage_rows (stage2a id) sample_profile (Some 4096) (no_result BASELINE_PASS) [sample_run 40 30] = Inr rows
     \<and> stage_rows (stage2a id) sample_profile (Some 4096) (no_result BASELINE_PASS) [sample_run 60 5] = Inr rows'
     \<and> metrics_of id (filter sg_measured rows) (metric_names (stage2a id)) = Inr opm
     \<and> metrics_of id (filter sg_measured rows') (metric_names (stage2a id)) = Inr refm
     \<and> inactivity_status id opm refm ''wd_stalled_ratio'' TRM = Inr SUPPORTED"
proof -
  have "(case (sample_metrics 40 30, sample_metrics 60 5) of
      (Inr opm, Inr refm) \<Rightarrow> inactivity_status id opm refm ''wd_stalled_ratio'' TRM = Inr SUPPORTED | _ \<Rightarrow> False)"
    by code_simp
  then show ?thesis by (auto simp: sample_metrics_def bind_res_eq_Inr split: sum.splits prod.splits)
qed

theorem counter_evidence_separates_runs_witness:
  "share ''wd_stalled'' (sample_run 60 5) < share ''wd_stalled'' (sample_run 40 30)
   \<and> share ''mac_active'' (sample_run 40 30) < share ''mac_active'' (sample_run 60 5)"
proof -
  from sample_evidence obtain rows rows' opm refm where e:
    "stage_rows (stage2a id) sample_profile (Some 4096) (no_result BASELINE_PASS) [sample_run 40 30] = Inr rows"
    "stage_rows (stage2a id) sample_profile (Some 4096) (no_result BASELINE_PASS) [sample_run 60 5] = Inr rows'"
    "metrics_of id (filter sg_measured rows) (metric_names (stage2a id)) = Inr opm"
    "metrics_of id (filter sg_measured rows') (metric_names (stage2a id)) = Inr refm"
    "inactivity_status id opm refm ''wd_stalled_ratio'' TRM = Inr SUPPORTED" by blast
  have m: "mono (id :: rat \<Rightarrow> rat)" by (simp add: mono_def)
  show ?thesis
    by (rule counter_evidence_separates_runs [OF m e])
      (simp_all add: SHARES2_def sample_run_def sample_profile_def)
qed

end
