(* ===== verification/Stage_Output.thy ===== *)
theory Stage_Output
  imports Stage_Analysis Golden
begin

text \<open>
  What \<open>host/analysis/stage1.py\<close> and \<open>host/analysis/stage2a.py\<close> write: \<open>per_run.csv\<close> and \<open>summary.csv\<close> by their cells, the
  tables as text, and the order in which a missing value or a foreign column stops the program: a program
  gives its exit code or exception, and the files as they are then. The square root of an exact variance, as a double, is
  the argument \<open>rt\<close>. Of the JSON file it is modelled when it is written, not its text.
\<close>

section \<open>Numbers as text\<close>

text \<open>Rounding to the nearest integer, ties to the even one, and \<open>f"{x:.df}"\<close> of a double \<open>x\<close>, which is exact.\<close>

definition half_even :: "rat \<Rightarrow> nat" where
  "half_even q = (let f = nat \<lfloor>q\<rfloor>; r = q - of_nat f in
     if r < 1 / 2 then f else if r > 1 / 2 then f + 1 else if even f then f else f + 1)"

definition padded_digits :: "nat \<Rightarrow> nat \<Rightarrow> string" where
  "padded_digits d n = (let ds = digits_of 10 n in replicate (d - length ds) CHR ''0'' @ ds)"

text \<open>\<open>,\<close>: a comma before every third digit from the right.\<close>

fun thousands_rev :: "string \<Rightarrow> string" where
  "thousands_rev (a # b # c # d # ds) = a # b # c # CHR '','' # thousands_rev (d # ds)"
| "thousands_rev ds = ds"

definition thousands :: "string \<Rightarrow> string" where
  "thousands ds = rev (thousands_rev (rev ds))"

definition fixed_text :: "(string \<Rightarrow> string) \<Rightarrow> nat \<Rightarrow> rat \<Rightarrow> string" where
  "fixed_text sep3 d x =
     (let n = half_even (\<bar>x\<bar> * 10 ^ d) in
      (if x < 0 then ''-'' else []) @ sep3 (digits_of 10 (n div 10 ^ d))
      @ (if d = 0 then [] else CHR ''.'' # padded_digits d (n mod 10 ^ d)))"

text \<open>\<open>f"{x:.df}"\<close>, \<open>f"{x:,.df}"\<close> and \<open>f"{x:.d%}"\<close>, which multiplies by 100 first.\<close>

definition fixed :: "nat \<Rightarrow> rat \<Rightarrow> string" where
  "fixed = fixed_text (\<lambda>ds. ds)"

definition grouped :: "nat \<Rightarrow> rat \<Rightarrow> string" where
  "grouped = fixed_text thousands"

definition percent :: "(rat \<Rightarrow> rat) \<Rightarrow> nat \<Rightarrow> rat \<Rightarrow> string" where
  "percent fl d x = fixed d (fl (100 * x)) @ ''%''"

text \<open>\<open>f"{n:,}"\<close>\<close>

definition grouped_int :: "int \<Rightarrow> string" where
  "grouped_int n = (if n < 0 then ''-'' else []) @ thousands (digits_of 10 (nat \<bar>n\<bar>))"

section \<open>Rows as dictionaries\<close>

datatype csv_cell = Txt string | Num rat | Flag bool | Blank

type_synonym columns = "(string, csv_cell) dict"

definition int_cell :: "int option \<Rightarrow> csv_cell" where
  "int_cell v = (case v of None \<Rightarrow> Blank | Some n \<Rightarrow> Num (of_int n))"

definition value_cell :: "rat option \<Rightarrow> csv_cell" where
  "value_cell v = (case v of None \<Rightarrow> Blank | Some q \<Rightarrow> Num q)"

fun run_check_text :: "run_check \<Rightarrow> string" where
  "run_check_text R1_valid = ''R1_valid''"
| "run_check_text R2_rc = ''R2_rc''"
| "run_check_text R3_output = ''R3_output''"
| "run_check_text R4_overflow = ''R4_overflow''"
| "run_check_text R5_active = ''R5_active''"
| "run_check_text R6_cycle = ''R6_cycle''"
| "run_check_text R6s_mac_le_npu = ''R6s_mac_le_npu''"

text \<open>The manifest's class, operator and shape of a workload; the last two are copied as they are.\<close>

record labels =
  lb_class :: string
  lb_operator :: csv_cell
  lb_shape :: csv_cell

definition golden_cell :: "(golden \<Rightarrow> string) \<Rightarrow> job \<Rightarrow> csv_cell" where
  "golden_cell f w = (case wl_golden (jb_workload w) of None \<Rightarrow> Blank | Some g \<Rightarrow> Txt (f g))"

definition phase_cell :: "stage_row \<Rightarrow> csv_cell" where
  "phase_cell row = Txt (if sg_measured row then ''measured'' else ''warmup'')"

definition event_columns :: "string list \<Rightarrow> stage_row \<Rightarrow> columns" where
  "event_columns raw row = (''pmccntr'', int_cell (rn_window_cycles (sg_run row)))
     # map (\<lambda>k. (k, int_cell (event_of (sg_run row) k))) raw"

definition verdict_columns :: "stage_row \<Rightarrow> columns" where
  "verdict_columns row =
     [(''output_valid'', Flag (sg_output_valid row)), (''knobs_honoured'', Flag (sg_knobs_honoured row)),
      (''overflow'', Flag (sg_overflow row)), (''consistency_valid'', Flag (sg_consistency_valid row)),
      (''run_valid'', Flag (sg_run_valid row)), (''failed_checks'', Txt (joined '';'' (map run_check_text (sg_failed_checks row))))]"

text \<open>\<open>row.update(...)\<close>: what follows the events and \<open>pmccntr\<close> among the values of the row, and the diagnostics.\<close>

definition derived_columns :: "string list \<Rightarrow> stage_row \<Rightarrow> columns" where
  "derived_columns raw row = map (\<lambda>(k, v). (k, value_cell v)) (drop (Suc (length raw)) (sg_values row))
     @ map (\<lambda>(k, ok). (k, Flag ok)) (sg_diagnostics row)"

definition columns1 :: "string \<Rightarrow> profile \<Rightarrow> job \<Rightarrow> labels \<Rightarrow> stage_row \<Rightarrow> columns" where
  "columns1 dataset prof w lb row =
     [(''experiment_id'', Txt ''stage1''), (''dataset'', Txt dataset), (''profile_id'', Txt (pf_name prof)),
      (''workload'', Txt (jb_name w)), (''workload_class'', Txt (lb_class lb)), (''operator'', lb_operator lb),
      (''shape'', lb_shape lb), (''run_id'', int_cell (Some (rn_rep (sg_run row)))), (''warmup_or_measured'', phase_cell row),
      (''input_sha256'', golden_cell gd_input_sha256 w), (''blob_sha256'', Txt (wl_blob_sha256 (jb_workload w))),
      (''command_stream_sha256'', Txt (wl_cms_sha256 (jb_workload w))), (''configured_mac_count'', int_cell (Some M_CONFIGURED)),
      (''n_mac'', int_cell (jb_n_mac w))]
     @ event_columns RAW1 row @ verdict_columns row @ derived_columns RAW1 row"

definition columns2 :: "profile \<Rightarrow> job \<Rightarrow> labels \<Rightarrow> stage_row \<Rightarrow> columns" where
  "columns2 prof w lb row =
     [(''experiment_id'', Txt ''stage2a''), (''profile_id'', Txt (pf_name prof)), (''workload'', Txt (jb_name w)),
      (''run_id'', int_cell (Some (rn_rep (sg_run row)))), (''warmup_or_measured'', phase_cell row),
      (''input_sha256'', golden_cell gd_input_sha256 w), (''golden_sha256'', golden_cell gd_ofm_sha256 w),
      (''blob_sha256'', Txt (wl_blob_sha256 (jb_workload w))),
      (''command_stream_sha256'', Txt (wl_cms_sha256 (jb_workload w))), (''n_mac'', int_cell (jb_n_mac w))]
     @ event_columns RAW2 row @ verdict_columns row @ derived_columns RAW2 row"

text \<open>One workload: its rows with their columns, its entry and its class. Stage 1 reads the golden's source for the entry, and
  every row reads the golden's digests.\<close>

definition report_job :: "(rat \<Rightarrow> rat) \<Rightarrow> stage \<Rightarrow> (job \<Rightarrow> labels \<Rightarrow> stage_row \<Rightarrow> columns) \<Rightarrow> bool \<Rightarrow> profile \<Rightarrow> int list
    \<Rightarrow> job \<times> labels \<Rightarrow> exn + (stage_row \<times> columns) list \<times> entry" where
  "report_job fl sp cols source prof ids = (\<lambda>(w, lb).
     bind_res (workload_gate stage1_checks (jb_summary w) (jb_runs w) prof (jb_workload w) ids) (\<lambda>_.
     bind_res (case jb_runs w of None \<Rightarrow> Inr [] | Some rows \<Rightarrow> load_runs rows) (\<lambda>runs.
     if wl_golden (jb_workload w) = None \<and> (source \<or> runs \<noteq> []) then Inl KeyError
     else bind_res (analyse_job fl sp prof ids w) (\<lambda>(rows, e). Inr (map (\<lambda>r. (r, cols w lb r)) rows, e)))))"

fun report :: "(rat \<Rightarrow> rat) \<Rightarrow> stage \<Rightarrow> (job \<Rightarrow> labels \<Rightarrow> stage_row \<Rightarrow> columns) \<Rightarrow> bool \<Rightarrow> profile \<Rightarrow> int list
    \<Rightarrow> (job \<times> labels) list \<Rightarrow> exn + (stage_row \<times> columns) list \<times> (string, entry \<times> string) dict" where
  "report fl sp cols source prof ids [] = Inr ([], [])"
| "report fl sp cols source prof ids (j # js) =
     bind_res (report_job fl sp cols source prof ids j) (\<lambda>(rows, e).
     bind_res (report fl sp cols source prof ids js) (\<lambda>(rest, summary).
       Inr (rows @ rest, (jb_name (fst j), e, lb_class (snd j)) # summary)))"

section \<open>CSV files\<close>

text \<open>\<open>csv.DictWriter\<close>: a row with a key that is no field name raises; a missing key gives an empty cell.\<close>

definition dict_line :: "string list \<Rightarrow> columns \<Rightarrow> exn + csv_cell list" where
  "dict_line names d =
     (if list_all (\<lambda>(k, _). k \<in> set names) d
      then Inr (map (\<lambda>k. case map_of d k of None \<Rightarrow> Txt [] | Some c \<Rightarrow> c) names)
      else Inl (ValueError ''dict contains fields not in fieldnames''))"

text \<open>\<open>writerows\<close> writes row by row: the lines before the row that raises are in the file.\<close>

fun dict_lines :: "string list \<Rightarrow> columns list \<Rightarrow> csv_cell list list \<times> exn option" where
  "dict_lines names [] = ([], None)"
| "dict_lines names (d # ds) = (case dict_line names d of Inl e \<Rightarrow> ([], Some e)
     | Inr l \<Rightarrow> (case dict_lines names ds of (ls, e) \<Rightarrow> (l # ls, e)))"

definition dict_file :: "string list \<Rightarrow> columns list \<Rightarrow> csv_cell list list \<times> exn option" where
  "dict_file names ds = (case dict_lines names ds of (ls, e) \<Rightarrow> (map Txt names # ls, e))"

text \<open>\<open>per_run.csv\<close>: the field names are the keys of the first row. Stage 2a has no guard for the case of no row, and
  the file is already open.\<close>

definition per_run1 :: "columns list \<Rightarrow> csv_cell list list \<times> exn option" where
  "per_run1 rows = dict_file (case rows of [] \<Rightarrow> [] | d # _ \<Rightarrow> map fst d) rows"

definition per_run2 :: "columns list \<Rightarrow> csv_cell list list \<times> exn option" where
  "per_run2 rows = (case rows of [] \<Rightarrow> ([], Some IndexError) | d # _ \<Rightarrow> dict_file (map fst d) rows)"

text \<open>\<open>std\<close> and \<open>cv\<close> of the statistics.\<close>

definition std_of :: "(rat \<Rightarrow> rat) \<Rightarrow> stat \<Rightarrow> rat" where
  "std_of rt s = (case st_variance s of None \<Rightarrow> 0 | Some v \<Rightarrow> rt v)"

definition cv_of :: "(rat \<Rightarrow> rat) \<Rightarrow> (rat \<Rightarrow> rat) \<Rightarrow> stat \<Rightarrow> rat option" where
  "cv_of fl rt s = (if st_mean s = 0 then None else Some (fl (std_of rt s / st_mean s)))"

definition status_text :: "entry \<Rightarrow> string" where
  "status_text e = (if en_valid e then ''VALID'' else ''UNRESOLVED'')"

definition stat_cells :: "(rat \<Rightarrow> rat) \<Rightarrow> (rat \<Rightarrow> rat) \<Rightarrow> stat \<Rightarrow> csv_cell list" where
  "stat_cells fl rt s = [Num (of_nat (st_n s)), Num (st_median s), Num (st_mean s), Num (std_of rt s), value_cell (cv_of fl rt s),
     Num (st_min s), Num (st_max s), Flag (st_deterministic s)]"

definition summary_head :: "string list" where
  "summary_head = [''status'', ''metric'', ''n'', ''median'', ''mean'', ''std'', ''cv'', ''min'', ''max'', ''deterministic'']"

definition summary_lines1 :: "(rat \<Rightarrow> rat) \<Rightarrow> (rat \<Rightarrow> rat) \<Rightarrow> (string, entry \<times> string) dict \<Rightarrow> csv_cell list list" where
  "summary_lines1 fl rt summary = map Txt (''workload'' # ''class'' # summary_head)
     # concat (map (\<lambda>(name, e, c). map (\<lambda>(k, s). [Txt name, Txt c, Txt (status_text e), Txt k] @ stat_cells fl rt s)
         (en_metrics e)) summary)"

definition summary_lines2 :: "(rat \<Rightarrow> rat) \<Rightarrow> (rat \<Rightarrow> rat) \<Rightarrow> (string, entry \<times> string) dict \<Rightarrow> csv_cell list list" where
  "summary_lines2 fl rt summary = map Txt (''workload'' # summary_head)
     # concat (map (\<lambda>(name, e, _). map (\<lambda>(k, s). [Txt name, Txt (status_text e), Txt k] @ stat_cells fl rt s)
         (en_metrics e)) summary)"

section \<open>Tables\<close>

fun gate_text :: "gate_status \<Rightarrow> string" where
  "gate_text BASELINE_PASS = ''BASELINE_PASS''"
| "gate_text BASELINE_FAIL = ''BASELINE_FAIL''"
| "gate_text GATE_UNPROVEN = ''UNPROVEN''"
| "gate_text INVALID = ''INVALID''"

definition table_line :: "string list \<Rightarrow> string" where
  "table_line cs = ''| '' @ joined '' | '' cs @ '' |''"

definition median_text :: "(rat \<Rightarrow> string) \<Rightarrow> metrics \<Rightarrow> string \<Rightarrow> string" where
  "median_text fmt ms k = (case map_of ms k of None \<Rightarrow> ''N/A'' | Some s \<Rightarrow> fmt (st_median s))"

text \<open>\<open>f"{cv:.2%}"\<close> of a missing coefficient raises.\<close>

definition cv_text :: "(rat \<Rightarrow> rat) \<Rightarrow> rat option \<Rightarrow> exn + string" where
  "cv_text fl cv = (case cv of None \<Rightarrow> Inl TypeError | Some c \<Rightarrow> Inr (percent fl 2 c))"

definition FINGERPRINT :: "string list" where
  "FINGERPRINT = [''N_MAC'', ''NPU cycles'', ''MAC/cycle'', ''peak MAC eff.'', ''MAC active ratio'', ''MAC active-cycle eff.'',
     ''SRAM beat/MAC'', ''EXT beat/MAC'', ''SRAM beat/NPU cycle'', ''EXT beat/NPU cycle'', ''CV(NPU active)'']"

definition fingerprint_cells :: "(rat \<Rightarrow> rat) \<Rightarrow> (rat \<Rightarrow> rat) \<Rightarrow> entry \<Rightarrow> exn + string list" where
  "fingerprint_cells fl rt e =
     (let ms = en_metrics e in
      bind_res (dict_get ''npu_active'' ms) (\<lambda>npu. bind_res (cv_text fl (cv_of fl rt npu)) (\<lambda>cvt.
        Inr [case en_n_mac e of None \<Rightarrow> ''N/A'' | Some n \<Rightarrow> if n = 0 then ''N/A'' else grouped_int n,
             grouped 0 (st_median npu), median_text (fixed 1) ms ''mac_throughput'',
             median_text (percent fl 1) ms ''peak_mac_efficiency'', median_text (percent fl 1) ms ''mac_active_ratio'',
             median_text (percent fl 1) ms ''mac_active_cycle_efficiency'', median_text (fixed 4) ms ''sram_beats_per_mac'',
             median_text (fixed 4) ms ''ext_beats_per_mac'', median_text (fixed 3) ms ''sram_beats_per_npu_cycle'',
             median_text (fixed 3) ms ''ext_beats_per_npu_cycle'', cvt])))"

fun fingerprint_lines :: "(rat \<Rightarrow> rat) \<Rightarrow> (rat \<Rightarrow> rat) \<Rightarrow> (string, entry \<times> string) dict \<Rightarrow> exn + string list" where
  "fingerprint_lines fl rt [] = Inr []"
| "fingerprint_lines fl rt ((name, e, c) # es) =
     bind_res (if en_valid e then fingerprint_cells fl rt e
               else Inr (gate_text (gr_gate (en_gate e)) # replicate (length FINGERPRINT - 1) [])) (\<lambda>cs.
     bind_res (fingerprint_lines fl rt es) (\<lambda>ls. Inr (table_line (name # c # cs) # ls)))"

definition fingerprint :: "(rat \<Rightarrow> rat) \<Rightarrow> (rat \<Rightarrow> rat) \<Rightarrow> (string, entry \<times> string) dict \<Rightarrow> exn + string" where
  "fingerprint fl rt summary =
     bind_res (fingerprint_lines fl rt summary) (\<lambda>ls.
       Inr (joined [CHR 0x0A] ([table_line (''workload'' # ''class'' # FINGERPRINT),
         table_line (replicate (length FINGERPRINT + 2) ''---'')] @ ls) @ [CHR 0x0A]))"

text \<open>The dagger and the section sign are written in UTF-8.\<close>

definition dagger :: string where "dagger = [CHR 0xE2, CHR 0x80, CHR 0xA0]"
definition section_sign :: string where "section_sign = [CHR 0xC2, CHR 0xA7]"

definition TABLE :: "(rat \<Rightarrow> rat) \<Rightarrow> (string \<times> string \<times> (rat \<Rightarrow> string)) list" where
  "TABLE fl = [(''NPU cycles'', ''npu_active'', grouped 0), (''MAC active ratio'', ''mac_active_ratio'', percent fl 1),
     (''DPU active ratio'', ''dpu_active_ratio'', percent fl 1), (''DPU / MAC-active'', ''dpu_given_mac_active'', fixed 3),
     (''AO active ratio'', ''ao_active_ratio'', percent fl 1), (''WD active ratio'', ''wd_active_ratio'', percent fl 1),
     (''WD stalled ratio'', ''wd_stalled_ratio'', percent fl 1), (''IB stall ratio '' @ dagger, ''mac_ib_stall_ratio'', percent fl 1),
     (''W/ACC stall ratio '' @ dagger, ''mac_w_or_acc_stall_ratio'', percent fl 1)]"

fun median_cells :: "metrics \<Rightarrow> (string \<times> string \<times> (rat \<Rightarrow> string)) list \<Rightarrow> exn + string list" where
  "median_cells ms [] = Inr []"
| "median_cells ms ((_, k, fmt) # ts) =
     bind_res (dict_get k ms) (\<lambda>s. bind_res (median_cells ms ts) (\<lambda>cs. Inr (fmt (st_median s) # cs)))"

definition table_cells :: "(rat \<Rightarrow> rat) \<Rightarrow> (rat \<Rightarrow> rat) \<Rightarrow> entry \<Rightarrow> exn + string list" where
  "table_cells fl rt e =
     bind_res (median_cells (en_metrics e) (TABLE fl)) (\<lambda>cs.
     bind_res (dict_get ''npu_active'' (en_metrics e)) (\<lambda>npu.
     bind_res (cv_text fl (cv_of fl rt npu)) (\<lambda>cvt. Inr (cs @ [cvt]))))"

fun table_lines :: "(rat \<Rightarrow> rat) \<Rightarrow> (rat \<Rightarrow> rat) \<Rightarrow> (string, entry \<times> string) dict \<Rightarrow> exn + string list" where
  "table_lines fl rt [] = Inr []"
| "table_lines fl rt ((name, e, _) # es) =
     bind_res (if en_valid e
               then bind_res (table_cells fl rt e) (\<lambda>cs. Inr (table_line (name # cs)))
               else Inr (table_line [name, gate_text (gr_gate (en_gate e))] @ concat (replicate (length (TABLE fl)) '' |''))) (\<lambda>l.
     bind_res (table_lines fl rt es) (\<lambda>ls. Inr (l # ls)))"

definition table :: "(rat \<Rightarrow> rat) \<Rightarrow> (rat \<Rightarrow> rat) \<Rightarrow> (string, entry \<times> string) dict \<Rightarrow> exn + string" where
  "table fl rt summary =
     bind_res (table_lines fl rt summary) (\<lambda>ls.
       Inr (joined [CHR 0x0A] ([table_line (''operator'' # map fst (TABLE fl) @ [''CV(NPU active)'']),
         ''|'' @ concat (replicate (length (TABLE fl) + 2) '' --- |'')] @ ls)
         @ [CHR 0x0A, CHR 0x0A] @ dagger @ '' driver-derived event (contract '' @ section_sign @ ''2)'' @ [CHR 0x0A]))"

section \<open>The programs\<close>

text \<open>A data set added under a label keys its workloads \<open>name@label\<close>.\<close>

fun report_added :: "(rat \<Rightarrow> rat) \<Rightarrow> profile \<Rightarrow> int list \<Rightarrow> (string \<times> (job \<times> labels) list) list \<Rightarrow>
    exn + (stage_row \<times> columns) list \<times> (string, entry \<times> string) dict" where
  "report_added fl prof ids [] = Inr ([], [])"
| "report_added fl prof ids ((label, js) # rest) =
     bind_res (report fl (stage1 fl) (columns1 label prof) True prof ids js) (\<lambda>(rows, summ).
     bind_res (report_added fl prof ids rest) (\<lambda>(rows', summ').
       Inr (rows @ rows', map (\<lambda>(n, e). (if label = ''s1'' then n else n @ ''@'' @ label, e)) summ @ summ')))"

definition stage1_report :: "(rat \<Rightarrow> rat) \<Rightarrow> profile \<Rightarrow> int list \<Rightarrow> (job \<times> labels) list \<Rightarrow> (string \<times> (job \<times> labels) list) list \<Rightarrow>
    exn + (stage_row \<times> columns) list \<times> (string, entry \<times> string) dict" where
  "stage1_report fl prof ids js added =
     bind_res (report fl (stage1 fl) (columns1 ''s1'' prof) True prof ids js) (\<lambda>(rows, summ).
     bind_res (report_added fl prof ids added) (\<lambda>(rows', summ').
       Inr (rows @ rows', fold (\<lambda>(k, v) d. dict_put k v d) summ' summ)))"

text \<open>The files in the order they are written; \<open>None\<close> for a file that is not there.\<close>

record stage_files =
  sf_per_run :: "csv_cell list list option"
  sf_summary :: "csv_cell list list option"
  sf_json :: bool
  sf_table :: "string option"

definition no_files :: stage_files where
  "no_files = \<lparr>sf_per_run = None, sf_summary = None, sf_json = False, sf_table = None\<rparr>"

text \<open>From \<open>per_run.csv\<close> on, the two programs do the same with their own contents.\<close>

definition write_stage :: "csv_cell list list \<times> exn option \<Rightarrow> csv_cell list list \<Rightarrow> exn + string \<Rightarrow> int \<Rightarrow> (exn + int) \<times> stage_files" where
  "write_stage per_run summary tab code =
     (case per_run of
        (f, Some e) \<Rightarrow> (Inl e, no_files\<lparr>sf_per_run := Some f\<rparr>)
      | (f, None) \<Rightarrow>
          let files = no_files\<lparr>sf_per_run := Some f, sf_summary := Some summary, sf_json := True\<rparr> in
          (case tab of Inl e \<Rightarrow> (Inl e, files) | Inr t \<Rightarrow> (Inr code, files\<lparr>sf_table := Some t\<rparr>)))"

definition stage1_main :: "(rat \<Rightarrow> rat) \<Rightarrow> (rat \<Rightarrow> rat) \<Rightarrow> profile \<Rightarrow> int list \<Rightarrow> (job \<times> labels) list \<Rightarrow>
    (string \<times> (job \<times> labels) list) list \<Rightarrow> (exn + int) \<times> stage_files" where
  "stage1_main fl rt prof ids js added =
     (case stage1_report fl prof ids js added of Inl e \<Rightarrow> (Inl e, no_files)
      | Inr (rows, summary) \<Rightarrow>
          write_stage (per_run1 (map snd rows)) (summary_lines1 fl rt summary) (fingerprint fl rt summary)
            (if list_all (\<lambda>(_, e, _). en_valid e) summary then 0 else 1))"

definition stage2a_main :: "(rat \<Rightarrow> rat) \<Rightarrow> (rat \<Rightarrow> rat) \<Rightarrow> profile \<Rightarrow> int list \<Rightarrow> (string, metrics) dict \<Rightarrow> (job \<times> labels) list \<Rightarrow>
    (exn + int) \<times> stage_files" where
  "stage2a_main fl rt prof ids s1 js =
     (case report fl (stage2a fl) (columns2 prof) False prof ids js of Inl e \<Rightarrow> (Inl e, no_files)
      | Inr (rows, summary) \<Rightarrow>
          (case stage2a_verdict fl s1 (map (\<lambda>(n, e, _). (n, e)) summary) of Inl e \<Rightarrow> (Inl e, no_files)
           | Inr doc \<Rightarrow> write_stage (per_run2 (map snd rows)) (summary_lines2 fl rt summary) (table fl rt summary) (dc_exit doc)))"

section \<open>The numbers of the tables\<close>

text \<open>The number a cell shows, without the commas between its digits.\<close>

definition shown_digits :: "string \<Rightarrow> rat" where
  "shown_digits t = (let ip = takeWhile (\<lambda>c. c \<noteq> CHR ''.'') t; fp = tl (dropWhile (\<lambda>c. c \<noteq> CHR ''.'') t) in
     of_int (numeral_value 10 (ip @ fp)) / 10 ^ length fp)"

definition shown_value :: "string \<Rightarrow> rat" where
  "shown_value t = (let u = filter (\<lambda>c. c \<noteq> CHR '','') t in
     if u \<noteq> [] \<and> hd u = CHR ''-'' then - shown_digits (tl u) else shown_digits u)"

lemma half_even_near: "0 \<le> q \<Longrightarrow> \<bar>of_nat (half_even q) - q\<bar> \<le> 1 / 2"
proof -
  assume "0 \<le> q"
  then have "of_nat (nat \<lfloor>q\<rfloor>) \<le> q" "q < of_nat (nat \<lfloor>q\<rfloor>) + 1" by linarith+
  then show ?thesis unfolding half_even_def Let_def by (auto split: if_splits)
qed

lemma numeral_value_append: "numeral_value b (x @ y) = numeral_value b x * b ^ length y + numeral_value b y"
  by (induction y rule: rev_induct) (simp_all add: numeral_value_def algebra_simps flip: append_assoc)

lemma numeral_value_digits: "numeral_value 10 (digits_of 10 n) = int n"
  using digits_of_10 [of n] by (simp add: numeral_value_def)

lemma length_digits: "n < 10 ^ d \<Longrightarrow> 0 < d \<Longrightarrow> length (digits_of 10 n) \<le> d"
proof (induction d arbitrary: n)
  case (Suc d)
  show ?case
  proof (cases "n < 10")
    case True
    then show ?thesis by (simp add: digits_of.simps)
  next
    case False
    then have "0 < d" using Suc.prems(1) by (cases d) auto
    moreover from Suc.prems(1) have "n div 10 < 10 ^ d" by (simp add: less_mult_imp_div_less mult.commute)
    ultimately have "length (digits_of 10 (n div 10)) \<le> d" using Suc.IH by blast
    with False show ?thesis by (subst digits_of.simps) simp
  qed
qed simp

lemma padded_digits_value: "0 < d \<Longrightarrow> n < 10 ^ d \<Longrightarrow> length (padded_digits d n) = d \<and> numeral_value 10 (padded_digits d n) = int n"
proof -
  assume d: "0 < d" "n < 10 ^ d"
  have "numeral_value 10 (replicate k CHR ''0'') = 0" for k
    by (induction k) (simp_all add: numeral_value_def digit_value_def)
  with d length_digits [OF d(2,1)] show ?thesis
    by (simp add: padded_digits_def Let_def numeral_value_append numeral_value_digits)
qed

lemma thousands_filter: "filter (\<lambda>c. c \<noteq> CHR '','') ds = ds \<Longrightarrow> filter (\<lambda>c. c \<noteq> CHR '','') (thousands ds) = ds"
proof -
  have "filter (\<lambda>c. c \<noteq> CHR '','') (thousands_rev xs) = filter (\<lambda>c. c \<noteq> CHR '','') xs" for xs
    by (induction xs rule: thousands_rev.induct) simp_all
  moreover assume "filter (\<lambda>c. c \<noteq> CHR '','') ds = ds"
  ultimately show ?thesis by (simp add: thousands_def rev_filter [symmetric])
qed

lemma digit_marks: "is_digit c \<Longrightarrow> c \<noteq> CHR '','' \<and> c \<noteq> CHR ''.'' \<and> c \<noteq> CHR ''-''"
  by (auto simp: is_digit_def among_def less_eq_char_def)

lemma all_digits: "list_all is_digit (digits_of 10 n)" "list_all is_digit (padded_digits d n)"
  using digits_of_10 by (auto simp: padded_digits_def Let_def list_all_iff is_digit_def among_def less_eq_char_def)

lemma shown_fixed:
  assumes "\<And>ds. list_all is_digit ds \<Longrightarrow> filter (\<lambda>c. c \<noteq> CHR '','') (sep3 ds) = ds"
  shows "\<bar>shown_value (fixed_text sep3 d x) - x\<bar> \<le> 1 / (2 * 10 ^ d)"
proof -
  let ?n = "half_even (\<bar>x\<bar> * 10 ^ d)" and ?p = "\<lambda>n. if d = 0 then [] else CHR ''.'' # padded_digits d (n mod 10 ^ d)"
  let ?t = "digits_of 10 (?n div 10 ^ d) @ ?p ?n"
  have plain: "c \<in> set (digits_of 10 m) \<or> c \<in> set (padded_digits d m) \<Longrightarrow> c \<noteq> CHR '','' \<and> c \<noteq> CHR ''.'' \<and> c \<noteq> CHR ''-''" for c m
    using all_digits(1) [of m] all_digits(2) [of d m] digit_marks [of c] by (auto simp: list_all_iff)
  have pf: "filter (\<lambda>c. c \<noteq> CHR '','') (padded_digits d m) = padded_digits d m" for m
    using plain by (auto simp: filter_id_conv)
  have f: "filter (\<lambda>c. c \<noteq> CHR '','') (fixed_text sep3 d x) = (if x < 0 then ''-'' else []) @ ?t"
    using assms [OF all_digits(1)] by (simp add: fixed_text_def Let_def pf)
  have ip: "takeWhile (\<lambda>c. c \<noteq> CHR ''.'') ?t = digits_of 10 (?n div 10 ^ d) \<and> dropWhile (\<lambda>c. c \<noteq> CHR ''.'') ?t = ?p ?n"
    using plain by (auto simp: takeWhile_append dropWhile_append takeWhile_eq_all_conv)
  have v: "shown_digits ?t = of_nat ?n / 10 ^ d"
  proof (cases "d = 0")
    case False
    have "numeral_value 10 (digits_of 10 (?n div 10 ^ d) @ padded_digits d (?n mod 10 ^ d)) = int ?n"
    proof -
      have "int (?n div 10 ^ d) * 10 ^ d + int (?n mod 10 ^ d) = int ?n"
        using arg_cong [OF div_mult_mod_eq [of ?n "10 ^ d"], of int] by simp
      then show ?thesis using padded_digits_value [of d "?n mod 10 ^ d"] False by (simp add: numeral_value_append numeral_value_digits)
    qed
    with False ip show ?thesis using padded_digits_value [of d "?n mod 10 ^ d"] by (simp add: shown_digits_def Let_def)
  next
    case True
    then show ?thesis unfolding shown_digits_def Let_def conjunct1 [OF ip] conjunct2 [OF ip] by (simp add: numeral_value_digits)
  qed
  obtain c cs where c: "digits_of 10 (?n div 10 ^ d) = c # cs" using digits_of_10 [of "?n div 10 ^ d"] by (cases "digits_of 10 (?n div 10 ^ d)") auto
  with plain [of c "?n div 10 ^ d"] have "c \<noteq> CHR ''-''" by simp
  with c have "?t \<noteq> []" "hd ?t \<noteq> CHR ''-''" by simp_all
  then have s: "shown_value (fixed_text sep3 d x) = (if x < 0 then - 1 else 1) * (of_nat ?n / 10 ^ d)"
    unfolding shown_value_def Let_def f using v by (cases "x < 0") (simp_all del: append_is_Nil_conv hd_append2)
  have "\<bar>of_nat ?n - \<bar>x\<bar> * 10 ^ d\<bar> \<le> 1 / 2" by (rule half_even_near) simp
  then have "\<bar>of_nat ?n / 10 ^ d - \<bar>x\<bar>\<bar> \<le> 1 / (2 * 10 ^ d)"
    by (simp add: field_simps abs_le_iff)
  then show ?thesis unfolding s by (auto simp: abs_if split: if_splits)
qed


lemma table_numbers_nearest:
  "\<bar>shown_value (fixed d x) - x\<bar> \<le> 1 / (2 * 10 ^ d) \<and> \<bar>shown_value (grouped d x) - x\<bar> \<le> 1 / (2 * 10 ^ d)
    \<and> percent fl d x = fixed d (fl (100 * x)) @ ''%''"
proof -
  have "filter (\<lambda>c. c \<noteq> CHR '','') ds = ds" if "list_all is_digit ds" for ds
    using that digit_marks by (auto simp: filter_id_conv list_all_iff)
  with thousands_filter show ?thesis
    unfolding fixed_def grouped_def percent_def using shown_fixed [of "\<lambda>ds. ds"] shown_fixed [of thousands] by auto
qed

text \<open>The cells of a valid workload show the medians of its metrics, to half a unit of their last digit.\<close>

lemma fingerprint_cells_shown:
  assumes "fingerprint_cells fl rt e = Inr cs"
  shows "length cs = length FINGERPRINT
    \<and> (\<exists>s. dict_get ''npu_active'' (en_metrics e) = Inr s \<and> \<bar>shown_value (cs ! 1) - st_median s\<bar> \<le> 1 / 2)
    \<and> list_all (\<lambda>(i, k, d). case map_of (en_metrics e) k of None \<Rightarrow> cs ! i = ''N/A''
          | Some s \<Rightarrow> \<bar>shown_value (cs ! i) - st_median s\<bar> \<le> 1 / (2 * 10 ^ d))
        [(2, ''mac_throughput'', 1), (6, ''sram_beats_per_mac'', 4), (7, ''ext_beats_per_mac'', 4),
         (8, ''sram_beats_per_npu_cycle'', 3), (9, ''ext_beats_per_npu_cycle'', 3)]"
proof -
  have m: "case map_of ms k of None \<Rightarrow> median_text (fixed d) ms k = ''N/A''
      | Some s \<Rightarrow> \<bar>shown_value (median_text (fixed d) ms k) - st_median s\<bar> \<le> 1 / (2 * 10 ^ d)" for ms k d
    using table_numbers_nearest [of d] by (auto simp: median_text_def split: option.splits)
  from assms obtain npu where npu: "dict_get ''npu_active'' (en_metrics e) = Inr npu" "cs ! 1 = grouped 0 (st_median npu)"
    "length cs = length FINGERPRINT"
    by (auto simp: fingerprint_cells_def Let_def bind_res_eq_Inr FINGERPRINT_def)
  from assms have c: "cs ! 2 = median_text (fixed 1) (en_metrics e) ''mac_throughput''"
    "cs ! 6 = median_text (fixed 4) (en_metrics e) ''sram_beats_per_mac''" "cs ! 7 = median_text (fixed 4) (en_metrics e) ''ext_beats_per_mac''"
    "cs ! 8 = median_text (fixed 3) (en_metrics e) ''sram_beats_per_npu_cycle''"
    "cs ! 9 = median_text (fixed 3) (en_metrics e) ''ext_beats_per_npu_cycle''"
    by (auto simp: fingerprint_cells_def Let_def bind_res_eq_Inr)
  show ?thesis unfolding list.pred_inject prod.case c npu(2,3) using npu(1) table_numbers_nearest [of 0 "st_median npu"] m by auto
qed

section \<open>Columns of a row\<close>

definition foreign :: "string list" where
  "foreign = [''sram_total_beats'', ''ext_total_beats'']"

definition traffic :: "string list" where
  "traffic = [''sram_beats_per_npu_cycle'', ''ext_beats_per_npu_cycle'', ''sram_enabled_per_npu_cycle'', ''ext_enabled_per_npu_cycle'']"

definition no_mac :: "string list" where
  "no_mac = [''mac_throughput'', ''peak_mac_efficiency'', ''mac_active_cycle_efficiency'', ''decomposition_residual'',
     ''sram_beats_per_mac'', ''ext_beats_per_mac'', ''mac_active_ratio'']"

lemma derived1_names: "set (traffic @ foreign @ no_mac) = set (DERIVED1 @ foreign)" "set (take 7 DERIVED1) = set no_mac"
  by code_simp+

lemma mac_metrics_keys:
  "mac_metrics fl a m s e n = Inr d \<Longrightarrow> map fst d = take 7 DERIVED1 \<or> map fst d = no_mac"
  by (auto simp: mac_metrics_def DERIVED1_def no_mac_def bind_res_eq_Inr split: option.splits if_splits)

lemma derive1_keys: "derive1 fl r n = Inr d \<Longrightarrow> set (map fst d) = set (DERIVED1 @ foreign)"
proof -
  assume "derive1 fl r n = Inr d"
  then have d: "map fst (take 6 d) = traffic @ foreign \<and> (\<exists>a m s e. mac_metrics fl a m s e n = Inr (drop 6 d))"
    unfolding derive1_def bind_res_eq_Inr
  proof (elim exE conjE, goal_cases)
    case (1 a m srd swr erd ewr sc ec se sec ee eec macs)
    then have "drop 6 d = macs" by auto
    with 1 show ?case by (auto simp: traffic_def foreign_def)
  qed
  then obtain a m s e where "mac_metrics fl a m s e n = Inr (drop 6 d)" by blast
  from mac_metrics_keys [OF this] have "set (map fst (drop 6 d)) = set no_mac" using derived1_names(2) by metis
  moreover have "map fst d = map fst (take 6 d) @ map fst (drop 6 d)" by (simp flip: map_append)
  ultimately show ?thesis unfolding derived1_names(1) [symmetric] using d by simp
qed

lemma shares_keys: "shares fl r a ns = Inr d \<Longrightarrow> map fst d = map fst ns"
  by (induction ns arbitrary: d) (auto simp: bind_res_eq_Inr)

lemma derive2_keys: "derive2 fl r n = Inr d \<Longrightarrow> set (map fst d) = set DERIVED2"
  unfolding derive2_def bind_res_eq_Inr
  by (elim exE conjE) (auto simp: DERIVED2_def SHARES2_def dest!: shares_keys arg_cong [where f = set])

definition DIAGNOSTICS :: "string list" where
  "DIAGNOSTICS = [''S1_mac_plus_ib_le_npu'', ''S2_mac_plus_ib_plus_wacc_le_npu'', ''S3_dpu_le_npu'']"

lemma diagnostics_keys: "diagnostics r = Inr s \<Longrightarrow> map fst s = DIAGNOSTICS"
  by (auto simp: diagnostics_def DIAGNOSTICS_def bind_res_eq_Inr)

lemma length_raw_values: "length (raw_values sp r) = Suc (length (sp_raw sp))"
  by (simp add: raw_values_def)

lemma stage_row_columns:
  assumes "stage_row_of sp prof n g r = Inr row"
  shows "sg_run row = r"
    and "complete_run sp r \<Longrightarrow> \<exists>d s. sp_derive sp r n = Inr d \<and> sp_diagnose sp r = Inr s
      \<and> set (map fst (derived_columns (sp_raw sp) row)) = set (map fst d) \<union> set (map fst s)"
    and "\<not> complete_run sp r \<Longrightarrow> set (map fst (derived_columns (sp_raw sp) row)) = set (sp_derived sp)"
  using assms unfolding stage_row_of_def Let_def
  by (auto simp: bind_res_eq_Inr derived_columns_def length_raw_values image_image case_prod_beta split: if_splits)

definition common1 :: "string list" where
  "common1 = [''experiment_id'', ''dataset'', ''profile_id'', ''workload'', ''workload_class'', ''operator'', ''shape'', ''run_id'',
     ''warmup_or_measured'', ''input_sha256'', ''blob_sha256'', ''command_stream_sha256'', ''configured_mac_count'', ''n_mac'',
     ''pmccntr'', ''output_valid'', ''knobs_honoured'', ''overflow'', ''consistency_valid'', ''run_valid'', ''failed_checks''] @ RAW1"

definition common2 :: "string list" where
  "common2 = [''experiment_id'', ''profile_id'', ''workload'', ''run_id'', ''warmup_or_measured'', ''input_sha256'', ''golden_sha256'',
     ''blob_sha256'', ''command_stream_sha256'', ''n_mac'',
     ''pmccntr'', ''output_valid'', ''knobs_honoured'', ''overflow'', ''consistency_valid'', ''run_valid'', ''failed_checks''] @ RAW2"

lemma columns1_keys:
  "set (map fst (columns1 dataset prof w lb row)) = set common1 \<union> set (map fst (derived_columns RAW1 row))"
  by (auto simp: columns1_def event_columns_def verdict_columns_def common1_def)

lemma columns2_keys:
  "set (map fst (columns2 prof w lb row)) = set common2 \<union> set (map fst (derived_columns RAW2 row))"
  by (auto simp: columns2_def event_columns_def verdict_columns_def common2_def)

section \<open>Rows that fit the first row's columns\<close>

definition cells_of :: "string list \<Rightarrow> columns \<Rightarrow> csv_cell list" where
  "cells_of names d = map (\<lambda>k. case map_of d k of None \<Rightarrow> Txt [] | Some c \<Rightarrow> c) names"

abbreviation foreign_column :: exn where
  "foreign_column \<equiv> ValueError ''dict contains fields not in fieldnames''"

text \<open>The lines up to the first row with a foreign column, and the exception when there is one.\<close>

lemma dict_file_eq:
  "dict_file names ds = (map Txt names # map (cells_of names) (takeWhile (\<lambda>d. set (map fst d) \<subseteq> set names) ds),
     if list_all (\<lambda>d. set (map fst d) \<subseteq> set names) ds then None else Some foreign_column)"
proof -
  have line: "dict_line names d = (if set (map fst d) \<subseteq> set names then Inr (cells_of names d) else Inl foreign_column)" for d
    by (simp add: dict_line_def cells_of_def list_all_iff case_prod_beta image_subset_iff)
  have "dict_lines names ds = (map (cells_of names) (takeWhile (\<lambda>d. set (map fst d) \<subseteq> set names) ds),
     if list_all (\<lambda>d. set (map fst d) \<subseteq> set names) ds then None else Some foreign_column)"
    by (induction ds) (simp_all add: line)
  then show ?thesis by (simp add: dict_file_def)
qed

text \<open>Rows of two kinds: the first decides which of them fit.\<close>

definition first_decides :: "('a \<Rightarrow> bool) \<Rightarrow> 'a list \<Rightarrow> bool" where
  "first_decides full rs = (case rs of [] \<Rightarrow> True | r # rest \<Rightarrow> full r \<or> \<not> list_ex full rest)"

definition first_keys :: "('a \<times> columns) list \<Rightarrow> string list" where
  "first_keys rows = (case rows of [] \<Rightarrow> [] | (_, d) # _ \<Rightarrow> map fst d)"

definition run_lines :: "('a \<times> columns) list \<Rightarrow> ('a \<times> columns) list \<Rightarrow> csv_cell list list" where
  "run_lines rows kept = map Txt (first_keys rows) # map (\<lambda>(_, d). cells_of (first_keys rows) d) kept"

lemma file_by_kinds:
  assumes "list_all (\<lambda>(row, d). set (map fst d) = (if full row then F else G)) rows" "G \<subseteq> F" "\<not> F \<subseteq> G"
  shows "dict_file (first_keys rows) (map snd rows) =
    (if first_decides full (map fst rows) then (run_lines rows rows, None)
     else (run_lines rows (takeWhile (\<lambda>(row, _). \<not> full row) rows), Some foreign_column))"
proof (cases rows)
  case Nil
  then show ?thesis by (simp add: dict_file_eq first_decides_def run_lines_def)
next
  case (Cons r rest)
  obtain x d where r: "r = (x, d)" by (cases r)
  define names where "names = first_keys rows"
  have names: "set names = (if full x then F else G)" using assms(1) by (simp add: names_def first_keys_def Cons r del: set_map)
  have fits: "set (map fst d') \<subseteq> set names \<longleftrightarrow> full x \<or> \<not> full x'" if "(x', d') \<in> set rows" for x' d'
  proof -
    have "set (map fst d') = (if full x' then F else G)" using assms(1) that by (auto simp: list_all_iff simp del: set_map)
    with assms(2,3) show ?thesis by (simp add: names del: set_map)
  qed
  have all: "list_all (\<lambda>d. set (map fst d) \<subseteq> set names) (map snd rows) \<longleftrightarrow> full x \<or> \<not> list_ex full (map fst rows)"
  proof -
    have "list_all (\<lambda>d. set (map fst d) \<subseteq> set names) (map snd rows) \<longleftrightarrow> list_all (\<lambda>(x', _). full x \<or> \<not> full x') rows"
      unfolding list.pred_map comp_def by (rule list.pred_cong [OF refl]) (auto simp only: fits case_prod_beta prod.collapse snd_conv fst_conv split: prod.split)
    also have "\<dots> \<longleftrightarrow> full x \<or> \<not> list_ex full (map fst rows)" by (induction rows) auto
    finally show ?thesis .
  qed
  have take: "takeWhile (\<lambda>d. set (map fst d) \<subseteq> set names) (map snd rows)
      = map snd (takeWhile (\<lambda>(x', _). full x \<or> \<not> full x') rows)"
    unfolding takeWhile_map comp_def by (rule arg_cong [where f = "map snd"], rule takeWhile_cong)
      (auto simp only: fits case_prod_beta prod.collapse snd_conv fst_conv split: prod.split)
  have lines: "map (cells_of names) (map snd rs) = map (\<lambda>(_, d). cells_of names d) rs" for rs :: "('a \<times> columns) list"
    by (simp add: comp_def case_prod_beta)
  have first: "first_decides full (map fst rows) \<longleftrightarrow> full x \<or> \<not> list_ex full (map fst rows)"
    by (auto simp: first_decides_def Cons r)
  have kept: "takeWhile (\<lambda>(x', _). full x \<or> \<not> full x') rows = (if full x \<or> \<not> list_ex full (map fst rows) then rows
      else takeWhile (\<lambda>(x', _). \<not> full x') rows)"
    by (cases "full x") (auto simp: takeWhile_eq_all_conv list_ex_iff case_prod_beta)
  show ?thesis
    unfolding names_def [symmetric] run_lines_def dict_file_eq all take lines first kept by simp
qed

definition stages_row :: "stage \<Rightarrow> (job \<Rightarrow> labels \<Rightarrow> stage_row \<Rightarrow> columns) \<Rightarrow> stage_row \<times> columns \<Rightarrow> bool" where
  "stages_row sp cols = (\<lambda>(row, d). \<exists>w lb prof n g. stage_row_of sp prof n g (sg_run row) = Inr row \<and> d = cols w lb row)"

lemma stage_rows_each:
  "stage_rows sp prof n g rs = Inr rows \<Longrightarrow> list_all (\<lambda>row. stage_row_of sp prof n g (sg_run row) = Inr row) rows"
  by (induction rs arbitrary: rows) (auto simp: bind_res_eq_Inr stage_row_columns(1))

lemma report_rows:
  "report fl sp cols src prof ids js = Inr (rows, summary) \<Longrightarrow> list_all (stages_row sp cols) rows"
proof (induction js arbitrary: rows summary)
  case (Cons j js)
  then obtain rows1 e rest summary' where r: "report_job fl sp cols src prof ids j = Inr (rows1, e)"
    "report fl sp cols src prof ids js = Inr (rest, summary')" "rows = rows1 @ rest"
    by (auto simp: bind_res_eq_Inr)
  from r(1) obtain w lb raw where raw: "analyse_job fl sp prof ids w = Inr (raw, e)" "rows1 = map (\<lambda>x. (x, cols w lb x)) raw"
    by (auto simp: report_job_def bind_res_eq_Inr split: if_splits prod.splits)
  from raw(1) obtain n g rs where "stage_rows sp prof n g rs = Inr raw"
    by (auto simp: analyse_job_def bind_res_eq_Inr Let_def split: if_splits)
  from stage_rows_each [OF this] have "list_all (stages_row sp cols) rows1"
    unfolding raw(2) by (auto simp: stages_row_def list_all_iff)
  then show ?case using Cons.IH [OF r(2)] r(3) by simp
qed simp

lemma columns1_kinds:
  assumes "stages_row (stage1 fl) (columns1 dataset prof) (row, d)"
  shows "set (map fst d) = (if complete_run (stage1 fl) (sg_run row) then set (common1 @ DERIVED1 @ foreign) else set (common1 @ DERIVED1))"
proof -
  from assms obtain w lb p n g where r: "stage_row_of (stage1 fl) p n g (sg_run row) = Inr row" "d = columns1 dataset prof w lb row"
    by (auto simp: stages_row_def)
  show ?thesis
  proof (cases "complete_run (stage1 fl) (sg_run row)")
    case True
    with stage_row_columns(2) [OF r(1)] obtain v s where v: "derive1 fl (sg_run row) n = Inr v" "s = []"
      "set (map fst (derived_columns RAW1 row)) = set (map fst v) \<union> set (map fst s)" by (auto simp: stage1_def)
    show ?thesis unfolding r(2) columns1_keys v(3) derive1_keys [OF v(1)] using True v(2) by auto
  next
    case False
    with stage_row_columns(3) [OF r(1)] show ?thesis unfolding r(2) columns1_keys by (simp add: stage1_def)
  qed
qed

lemma columns2_kinds:
  assumes "stages_row (stage2a fl) (columns2 prof) (row, d)"
  shows "set (map fst d) = (if complete_run (stage2a fl) (sg_run row) then set (common2 @ DERIVED2 @ DIAGNOSTICS) else set (common2 @ DERIVED2))"
proof -
  from assms obtain w lb p n g where r: "stage_row_of (stage2a fl) p n g (sg_run row) = Inr row" "d = columns2 prof w lb row"
    by (auto simp: stages_row_def)
  show ?thesis
  proof (cases "complete_run (stage2a fl) (sg_run row)")
    case True
    with stage_row_columns(2) [OF r(1)] obtain v s where v: "derive2 fl (sg_run row) n = Inr v" "diagnostics (sg_run row) = Inr s"
      "set (map fst (derived_columns RAW2 row)) = set (map fst v) \<union> set (map fst s)" by (auto simp: stage2a_def)
    show ?thesis unfolding r(2) columns2_keys v(3) derive2_keys [OF v(1)] using True v(2) diagnostics_keys [OF v(2)] by auto
  next
    case False
    with stage_row_columns(3) [OF r(1)] show ?thesis unfolding r(2) columns2_keys by (simp add: stage2a_def)
  qed
qed

lemma report_added_rows:
  "report_added fl prof ids added = Inr (rows, summary) \<Longrightarrow>
    list_all (\<lambda>x. \<exists>dataset. stages_row (stage1 fl) (columns1 dataset prof) x) rows"
proof (induction added arbitrary: rows summary)
  case (Cons a added)
  obtain label js where a: "a = (label, js)" by (cases a)
  from Cons.prems obtain rows1 s1 rows2 s2 where r: "report fl (stage1 fl) (columns1 label prof) True prof ids js = Inr (rows1, s1)"
    "report_added fl prof ids added = Inr (rows2, s2)" "rows = rows1 @ rows2" by (auto simp: a bind_res_eq_Inr)
  from report_rows [OF r(1)] Cons.IH [OF r(2)] show ?case unfolding r(3) by (auto simp: list_all_iff)
qed simp

lemma stage1_report_rows:
  "stage1_report fl prof ids js added = Inr (rows, summary) \<Longrightarrow>
    list_all (\<lambda>(row, d). set (map fst d) = (if complete_run (stage1 fl) (sg_run row) then set (common1 @ DERIVED1 @ foreign) else set (common1 @ DERIVED1))) rows"
proof -
  assume "stage1_report fl prof ids js added = Inr (rows, summary)"
  then obtain rows1 s1 rows2 s2 where r: "report fl (stage1 fl) (columns1 ''s1'' prof) True prof ids js = Inr (rows1, s1)"
    "report_added fl prof ids added = Inr (rows2, s2)" "rows = rows1 @ rows2" by (auto simp: stage1_report_def bind_res_eq_Inr)
  have "list_all (\<lambda>x. \<exists>dataset. stages_row (stage1 fl) (columns1 dataset prof) x) rows"
    using report_rows [OF r(1)] report_added_rows [OF r(2)] unfolding r(3) by (auto simp: list_all_iff)
  then show ?thesis by (rule list.pred_mono_strong) (use columns1_kinds in blast)
qed

lemma foreign_stage1: "set (common1 @ DERIVED1) \<subseteq> set (common1 @ DERIVED1 @ foreign)" "\<not> set (common1 @ DERIVED1 @ foreign) \<subseteq> set (common1 @ DERIVED1)"
  by (auto simp: common1_def RAW1_def DERIVED1_def foreign_def)

lemma foreign_stage2a: "set (common2 @ DERIVED2) \<subseteq> set (common2 @ DERIVED2 @ DIAGNOSTICS)" "\<not> set (common2 @ DERIVED2 @ DIAGNOSTICS) \<subseteq> set (common2 @ DERIVED2)"
  by (auto simp: common2_def RAW2_def DERIVED2_def DIAGNOSTICS_def)

section \<open>Property\<close>

text \<open>What a stage leaves behind, by its rows: with every RUN in \<open>per_run.csv\<close> the summary follows; otherwise the
  exception is that of the foreign column, the file has the RUNs before the one that raised, and nothing else is there.\<close>

definition per_run_decides :: "(stage_row \<Rightarrow> bool) \<Rightarrow> (stage_row \<times> columns) list \<Rightarrow> csv_cell list list \<Rightarrow> (exn + int) \<times> stage_files \<Rightarrow> bool" where
  "per_run_decides full rows summary_csv = (\<lambda>(r, files).
     if first_decides full (map fst rows)
     then sf_per_run files = Some (run_lines rows rows) \<and> sf_summary files = Some summary_csv \<and> sf_json files
     else r = Inl foreign_column \<and> sf_summary files = None \<and> \<not> sf_json files \<and> sf_table files = None
       \<and> sf_per_run files = Some (run_lines rows (takeWhile (\<lambda>(row, _). \<not> full row) rows)))"

lemma write_stage_decides:
  assumes "list_all (\<lambda>(row, d). set (map fst d) = (if full row then F else G)) rows" "G \<subseteq> F" "\<not> F \<subseteq> G"
    and "per_run = dict_file (first_keys rows) (map snd rows)"
  shows "per_run_decides full rows summary_csv (write_stage per_run summary_csv tab code)"
  unfolding assms(4) file_by_kinds [OF assms(1-3)]
  by (simp add: per_run_decides_def write_stage_def no_files_def Let_def split: sum.split)

text \<open>C27. A RUN counts as complete for a stage when every event of the stage has a value and the NPU activity is not 0.
  Stage 1 writes one line per RUN to \<open>per_run.csv\<close>, and then the summary, exactly when the first RUN is complete or no later
  one is (or there is no RUN). Otherwise the columns of the first complete RUN are foreign to the header: the program raises,
  the file ends before that RUN, and there is no summary and no table. Stage 2a does the same once its verdict is computed;
  an exception of the verdict comes before any file, and without any RUN it raises with \<open>per_run.csv\<close> empty.\<close>

theorem incomplete_first_run_refused:
  assumes "stage1_report fl prof ids js added = Inr (rows, summary)"
    and "report fl (stage2a fl) (columns2 prof) False prof ids js' = Inr (rows', summary')"
  shows "per_run_decides (\<lambda>r. complete_run (stage1 fl) (sg_run r)) rows (summary_lines1 fl rt summary)
      (stage1_main fl rt prof ids js added)
    \<and> (case stage2a_verdict fl s1 (map (\<lambda>(n, e, _). (n, e)) summary') of
         Inl e \<Rightarrow> stage2a_main fl rt prof ids s1 js' = (Inl e, no_files)
       | Inr doc \<Rightarrow>
           if rows' = [] then stage2a_main fl rt prof ids s1 js' = (Inl IndexError, no_files\<lparr>sf_per_run := Some []\<rparr>)
           else per_run_decides (\<lambda>r. complete_run (stage2a fl) (sg_run r)) rows' (summary_lines2 fl rt summary')
                  (stage2a_main fl rt prof ids s1 js'))"
proof
  have "per_run1 (map snd rows) = dict_file (first_keys rows) (map snd rows)"
    by (cases rows) (auto simp: per_run1_def first_keys_def)
  from write_stage_decides [OF stage1_report_rows [OF assms(1)] foreign_stage1 this]
  show "per_run_decides (\<lambda>r. complete_run (stage1 fl) (sg_run r)) rows (summary_lines1 fl rt summary)
      (stage1_main fl rt prof ids js added)"
    by (simp add: stage1_main_def assms(1))
next
  have kinds: "list_all (\<lambda>(row, d). set (map fst d) = (if complete_run (stage2a fl) (sg_run row)
      then set (common2 @ DERIVED2 @ DIAGNOSTICS) else set (common2 @ DERIVED2))) rows'"
    using report_rows [OF assms(2)] by (rule list.pred_mono_strong) (use columns2_kinds in blast)
  have "per_run2 (map snd rows') = dict_file (first_keys rows') (map snd rows')" if "rows' \<noteq> []"
    using that by (cases rows') (auto simp: per_run2_def first_keys_def)
  note w = write_stage_decides [OF kinds foreign_stage2a this]
  show "case stage2a_verdict fl s1 (map (\<lambda>(n, e, _). (n, e)) summary') of
         Inl e \<Rightarrow> stage2a_main fl rt prof ids s1 js' = (Inl e, no_files)
       | Inr doc \<Rightarrow>
           if rows' = [] then stage2a_main fl rt prof ids s1 js' = (Inl IndexError, no_files\<lparr>sf_per_run := Some []\<rparr>)
           else per_run_decides (\<lambda>r. complete_run (stage2a fl) (sg_run r)) rows' (summary_lines2 fl rt summary')
                  (stage2a_main fl rt prof ids s1 js')"
    using w by (auto simp: stage2a_main_def assms(2) per_run2_def write_stage_def split: sum.split)
qed

text \<open>Two RUNs of one workload: in the first, which is invalid, no event has a value.\<close>

definition sample_row :: "int \<Rightarrow> int option \<Rightarrow> int \<Rightarrow> row" where
  "sample_row rep v ev = \<lparr>ro_set_id = 1, ro_rep = rep, ro_slot = 0, ro_ev_type = ev, ro_name = [], ro_in_trm = True, ro_event_value = v,
     ro_event_valid = (v \<noteq> None), ro_event_overflow = Some False, ro_run_rc = 0, ro_run_valid = (v \<noteq> None), ro_invalid_reasons = [],
     ro_window_cycles = Some 90, ro_cycle_valid = 1, ro_valid_flags = 0, ro_vendor_rc = Some 0, ro_ofm_mismatch_count = Some 0,
     ro_ofm_max_abs_diff = Some 0\<rparr>"

definition sample_rows :: "row list" where
  "sample_rows = concat (map (\<lambda>(rep, v). map (sample_row rep v) [35, 48, 130, 135, 386, 391, 140, 396]) [(1, None), (2, Some 8)])"

definition sample_run1 :: "int \<Rightarrow> int option \<Rightarrow> run" where
  "sample_run1 rep v = \<lparr>rn_rep = rep, rn_valid = (v \<noteq> None), rn_overflow = False, rn_window_cycles = Some 90, rn_run_rc = Some 0,
     rn_vendor_rc = Some 0, rn_ofm_mismatch = Some 0, rn_events = map (\<lambda>k. (k, v)) RAW1\<rparr>"

definition sample_job :: "job \<times> labels" where
  "sample_job = (\<lparr>jb_name = ''w'', jb_workload = \<lparr>wl_blob_sha256 = [], wl_cms_sha256 = [], wl_golden = Some \<lparr>gd_input_sha256 = [], gd_ofm_sha256 = []\<rparr>\<rparr>,
       jb_n_mac = Some 64, jb_summary = None, jb_runs = Some (map csv_row sample_rows)\<rparr>,
     \<lparr>lb_class = ''c'', lb_operator = Txt [], lb_shape = Txt []\<rparr>)"

lemma sample_loaded: "load_runs (map csv_row sample_rows) = Inr [sample_run1 1 None, sample_run1 2 (Some 8)]"
proof -
  have "map (\<lambda>rep. the (run_of_rows rep sample_rows)) (sorted_set (map ro_rep sample_rows)) = [sample_run1 1 None, sample_run1 2 (Some 8)]"
    by code_simp
  then show ?thesis by (simp only: load_runs_of_campaign)
qed

lemma sample_stage_rows:
  "case stage_rows (stage1 id) sample_profile (Some 64) (no_result GATE_UNPROVEN) [sample_run1 1 None, sample_run1 2 (Some 8)] of Inl _ \<Rightarrow> False
   | Inr rows \<Rightarrow> \<not> first_decides (\<lambda>r. complete_run (stage1 id) (sg_run r)) rows"
  by code_simp

lemma sample_report:
  "\<exists>rows summary. stage1_report id sample_profile [] [sample_job] [] = Inr (rows, summary)
    \<and> \<not> first_decides (\<lambda>r. complete_run (stage1 id) (sg_run r)) (map fst rows)"
proof -
  from sample_stage_rows obtain rows where
    "stage_rows (stage1 id) sample_profile (Some 64) (no_result GATE_UNPROVEN) [sample_run1 1 None, sample_run1 2 (Some 8)] = Inr rows"
    "\<not> first_decides (\<lambda>r. complete_run (stage1 id) (sg_run r)) rows" by (auto split: sum.splits)
  then show ?thesis
    by (simp add: stage1_report_def report_job_def analyse_job_def workload_gate_def sample_job_def sample_loaded no_result_def Let_def comp_def
        del: stage_rows.simps)
qed

theorem incomplete_first_run_refused_witness:
  "fst (stage1_main id id sample_profile [] [sample_job] []) = Inl (ValueError ''dict contains fields not in fieldnames'')
   \<and> sf_summary (snd (stage1_main id id sample_profile [] [sample_job] [])) = None
   \<and> stage2a_main id id sample_profile [] [] [] = (Inl KeyError, no_files)"
proof -
  from sample_report obtain rows summary where r: "stage1_report id sample_profile [] [sample_job] [] = Inr (rows, summary)"
    "\<not> first_decides (\<lambda>r. complete_run (stage1 id) (sg_run r)) (map fst rows)" by blast
  have "report id (stage2a id) (columns2 sample_profile) False sample_profile [] [] = Inr ([], [])" by simp
  note both = incomplete_first_run_refused [OF r(1) this, of id "[]"]
  have "stage2a_verdict id [] [] = Inl KeyError"
    by (simp add: stage2a_verdict_def comparisons_def PAIRS_def metrics_in_def dict_get_def)
  with both r(2) show ?thesis by (auto simp: per_run_decides_def)
qed

end
