(* ===== verification/Image_Gate.thy ===== *)
theory Image_Gate
  imports Py_Text
begin

text \<open>
  \<open>firmware/gate/check_runner.py\<close>: the ordered rules a linked runner image has to meet. The outputs of objdump and nm,
  the sources, the ELF bytes and the generated vendor source are arguments. Every regular expression of the script is
  a matcher; \<open>\<b>\<close> is \<open>at_word\<close> for a pattern that begins with a word character and \<open>word_ends\<close> after one.
\<close>

section \<open>Searching\<close>

text \<open>\<open>re.search\<close> of a matcher that is given the character before the position and the text from it.\<close>

fun search_from :: "char option \<Rightarrow> (char option \<Rightarrow> string \<Rightarrow> bool) \<Rightarrow> string \<Rightarrow> bool" where
  "search_from before m [] = m before []"
| "search_from before m (c # cs) = (m before (c # cs) \<or> search_from (Some c) m cs)"

definition re_search :: "(char option \<Rightarrow> string \<Rightarrow> bool) \<Rightarrow> string \<Rightarrow> bool" where
  "re_search m s = search_from None m s"

definition at_word :: "char option \<Rightarrow> bool" where
  "at_word before = (case before of None \<Rightarrow> True | Some c \<Rightarrow> \<not> is_word c)"

definition word_end :: "string \<Rightarrow> bool" where
  "word_end s = (case s of [] \<Rightarrow> True | c # _ \<Rightarrow> \<not> is_word c)"

text \<open>\<open>\s+\<close> before a text that does not begin with a blank.\<close>

definition skip_blanks1 :: "string \<Rightarrow> string option" where
  "skip_blanks1 s = (case s of [] \<Rightarrow> None | c # cs \<Rightarrow> if is_blank c then Some (dropWhile is_blank cs) else None)"

section \<open>Calls with a computed offset\<close>

text \<open>\<open>\bbl\s\<close>\<close>

definition bl_at :: "char option \<Rightarrow> string \<Rightarrow> bool" where
  "bl_at before s = (at_word before \<and> (case after ''bl'' s of None \<Rightarrow> False | Some r \<Rightarrow> skip_blanks1 r \<noteq> None))"

text \<open>\<open>\bbl\s+[0-9a-f]+\s+<callee>\<close>\<close>

definition lower_hex :: "char \<Rightarrow> bool" where
  "lower_hex c \<longleftrightarrow> is_digit c \<or> among CHR ''a'' CHR ''f'' c"

definition call_at :: "string \<Rightarrow> char option \<Rightarrow> string \<Rightarrow> bool" where
  "call_at callee before s =
     (at_word before \<and>
      (case Option.bind (after ''bl'' s) skip_blanks1 of
         None \<Rightarrow> False
       | Some r \<Rightarrow> r \<noteq> [] \<and> lower_hex (hd r) \<and>
           (case skip_blanks1 (dropWhile lower_hex r) of
              None \<Rightarrow> False | Some q \<Rightarrow> prefix (CHR ''<'' # callee @ ''>'') q)))"

text \<open>\<open>_R0_IMM\<close>\<close>

definition r0_comma :: "string \<Rightarrow> string option" where
  "r0_comma s = Option.bind (skip_blanks1 s) (after ''r0,'')"

definition imm_at :: "char option \<Rightarrow> string \<Rightarrow> bool" where
  "imm_at before s =
     (at_word before \<and>
      (list_ex (\<lambda>m. case Option.bind (after m s) r0_comma of None \<Rightarrow> False
          | Some r \<Rightarrow> prefix ''#'' (dropWhile is_blank r)) [''mov'', ''movs'', ''movw'', ''mov.w'']
       \<or> (case Option.bind (after ''ldr'' s) r0_comma of None \<Rightarrow> False
          | Some r \<Rightarrow> prefix ''[pc'' (dropWhile is_blank r))))"

text \<open>\<open>_R0_WRITE\<close>\<close>

definition R0_WRITERS :: "string list" where
  "R0_WRITERS = [''mov'', ''movs'', ''movw'', ''mov.w'', ''add'', ''adds'', ''add.w'', ''sub'', ''subs'', ''sub.w'', ''ldr'', ''ldr.w'',
     ''orr'', ''and'', ''lsl'']"

definition write_at :: "char option \<Rightarrow> string \<Rightarrow> bool" where
  "write_at before s =
     (at_word before \<and> list_ex (\<lambda>m. Option.bind (after m s) r0_comma \<noteq> None) (R0_WRITERS @ map (\<lambda>m. m @ ''s'') R0_WRITERS))"

text \<open>The loop over \<open>j\<close>: the lines before the call, the nearest first.\<close>

fun offset_computed :: "string list \<Rightarrow> bool" where
  "offset_computed [] = False"
| "offset_computed (l # ls) =
     (if re_search bl_at l then False
      else if re_search write_at l then \<not> re_search imm_at l
      else offset_computed ls)"

fun scan_calls :: "string \<Rightarrow> string list \<Rightarrow> string list \<Rightarrow> bool" where
  "scan_calls callee before [] = False"
| "scan_calls callee before (l # ls) =
     (if re_search (call_at callee) l \<and> offset_computed before then True
      else scan_calls callee (l # before) ls)"

definition register_offset_call :: "string \<Rightarrow> string \<Rightarrow> bool" where
  "register_offset_call objdump_text callee = scan_calls callee [] (split_char CHR 0x0A objdump_text)"

section \<open>Literals and symbols\<close>

text \<open>\<open>_lits\<close>: the words of exactly eight hexadecimal digits, behind \<open>0x\<close> or not.\<close>

fun word_runs :: "string \<Rightarrow> string \<Rightarrow> string list" where
  "word_runs cur [] = (if cur = [] then [] else [rev cur])"
| "word_runs cur (c # cs) =
     (if is_word c then word_runs (c # cur) cs
      else if cur = [] then word_runs [] cs else rev cur # word_runs [] cs)"

definition literal_of :: "string \<Rightarrow> int option" where
  "literal_of w =
     (let d = (case after ''0x'' w of None \<Rightarrow> w | Some r \<Rightarrow> if length w = 10 then r else w)
      in if length d = 8 \<and> list_all is_hex d then Some (numeral_value 16 d) else None)"

definition lits :: "string \<Rightarrow> int list" where
  "lits t = List.map_filter literal_of (word_runs [] t)"

text \<open>\<open>\b[Tt] name\b\<close>\<close>

definition symbol_at :: "string \<Rightarrow> char option \<Rightarrow> string \<Rightarrow> bool" where
  "symbol_at name before s =
     (at_word before \<and> list_ex (\<lambda>t. case after (t # CHR '' '' # name) s of None \<Rightarrow> False | Some r \<Rightarrow> word_end r) [CHR ''T'', CHR ''t''])"

definition linked :: "string \<Rightarrow> string \<Rightarrow> bool" where
  "linked name nm_text = re_search (symbol_at name) nm_text"

text \<open>\<open>\b[Tt] name$\<close> with \<open>re.M\<close>\<close>

definition symbol_line_at :: "string \<Rightarrow> char option \<Rightarrow> string \<Rightarrow> bool" where
  "symbol_line_at name before s =
     (at_word before \<and> list_ex (\<lambda>t. case after (t # CHR '' '' # name) s of None \<Rightarrow> False
        | Some r \<Rightarrow> r = [] \<or> hd r = CHR 0x0A) [CHR ''T'', CHR ''t''])"

text \<open>\<open>^[0-9a-f]+(?: [0-9a-f]+)? T name$\<close> with \<open>re.M\<close>: one or two numbers, then the symbol.\<close>

definition strong_line :: "string \<Rightarrow> string \<Rightarrow> bool" where
  "strong_line name l =
     (let r = dropWhile lower_hex l; end_of = (\<lambda>s. s = '' T '' @ name) in
      l \<noteq> [] \<and> lower_hex (hd l) \<and>
      (end_of r \<or> (case r of c # q \<Rightarrow> c = CHR '' '' \<and> q \<noteq> [] \<and> lower_hex (hd q) \<and> end_of (dropWhile lower_hex q) | [] \<Rightarrow> False)))"

section \<open>The gate\<close>

datatype rule = RULE_INFERENCE_LINKED | RULE_PMEVTYPER_LOOP_STORE | RULE_PMEVCNTR_LOOP_LOAD | RULE_BUILD_ID
  | RULE_MAIN_PRESENT | RULE_MODE2 | RULE_SEAM_HOOK | RULE_EXT_ATTR | RULE_TEST_U85_WRAP | RULE_MODEL

definition PMWL_MAGIC :: int where "PMWL_MAGIC = 0x4C574D50"
definition RAISED_TIMEOUT :: string where "RAISED_TIMEOUT = ''#define BUSY_SLEEP_TIMEOUT 200000000''"
definition POWER_CTRL_HOOK :: string where
  "POWER_CTRL_HOOK = ''write_reg(NPU_REG_POWER_CTRL, u85_power_ctrl_value(MAC_RAMP_VAR));''"
definition EXT_LITERAL :: string where "EXT_LITERAL = ''Enabling AXI EXT port testing''"
definition SEAM_FMT :: string where
  "SEAM_FMT = [CHR 0x22] @ ''Testing CPM signals'' @ [CHR 0x5C] @ ''n'' @ [CHR 0x22]"
definition APPLY_FMT :: string where "APPLY_FMT = ''Updating POWER_CTRL register with MAC_RAMP_VAR=%d''"

text \<open>\<open>src_text[src_text.find(sig):]\<close>: with no such text the slice from -1, the last character.\<close>

definition from_find :: "string \<Rightarrow> string \<Rightarrow> string" where
  "from_find sig s = (case find_sub sig s of None \<Rightarrow> drop (length s - 1) s | Some i \<Rightarrow> drop i s)"

record image =
  im_objdump :: string
  im_nm :: string
  im_src :: string
  im_build_id :: int
  im_elf :: bytes
  im_vendor :: string

definition ascii_bytes :: "string \<Rightarrow> bytes" where
  "ascii_bytes s = map (\<lambda>c. word_of_int (int (of_char c))) s"

definition wrap_text :: "image \<Rightarrow> string" where
  "wrap_text a = from_find ''int __wrap_printf(const char *fmt, ...)'' (im_src a)"

text \<open>\<open>check\<close>: \<open>None\<close> for \<open>return True\<close>, otherwise the rule of the \<open>GateFail\<close> raised.\<close>

definition check_image :: "image \<Rightarrow> rule option" where
  "check_image a =
     (if \<not> linked ''apU85Conv_TEST'' (im_nm a) then Some RULE_INFERENCE_LINKED
      else if \<not> register_offset_call (im_objdump a) ''pmu_reg_write'' then Some RULE_PMEVTYPER_LOOP_STORE
      else if \<not> register_offset_call (im_objdump a) ''pmu_reg_read'' then Some RULE_PMEVCNTR_LOOP_LOAD
      else if im_build_id a \<notin> set (lits (im_objdump a)) then Some RULE_BUILD_ID
      else if \<not> linked ''main'' (im_nm a) then Some RULE_MAIN_PRESENT
      else if \<not> occurs_in ''#define INSTRUMENTATION_EVENTS    2U'' (im_src a)
        \<or> \<not> occurs_in ''count != 0U && mode != INSTRUMENTATION_EVENTS'' (im_src a) then Some RULE_MODE2
      else if \<not> occurs_in SEAM_FMT (wrap_text a) \<or> \<not> linked ''__wrap_printf'' (im_nm a) then Some RULE_SEAM_HOOK
      else if find_sub (ascii_bytes EXT_LITERAL) (im_elf a) = None then Some RULE_EXT_ATTR
      else if \<not> re_search (symbol_line_at ''__wrap_test_u85'') (im_nm a) then Some RULE_TEST_U85_WRAP
      else if PMWL_MAGIC \<notin> set (lits (im_objdump a)) then Some RULE_MODEL
      else if \<not> occurs_in APPLY_FMT (wrap_text a) then Some RULE_MODEL
      else if \<not> occurs_in RAISED_TIMEOUT (im_vendor a) then Some RULE_MODEL
      else if \<not> occurs_in POWER_CTRL_HOOK (im_vendor a) then Some RULE_MODEL
      else if \<not> list_ex (strong_line ''u85_power_ctrl_value'') (split_char CHR 0x0A (im_nm a)) then Some RULE_MODEL
      else None)"

definition image_gate_main :: "image \<Rightarrow> int" where
  "image_gate_main a = (case check_image a of None \<Rightarrow> 0 | Some _ \<Rightarrow> 1)"

section \<open>What the searches find\<close>

definition last_char :: "string \<Rightarrow> char option" where
  "last_char p = (if p = [] then None else Some (last p))"

lemma search_from_iff:
  "search_from b m s \<longleftrightarrow> (\<exists>p q. s = p @ q \<and> m (if p = [] then b else Some (last p)) q)"
proof (induction b m s rule: search_from.induct)
  case (2 b m c cs)
  show ?case
  proof
    assume "search_from b m (c # cs)"
    then consider "m b (c # cs)" | "search_from (Some c) m cs" by auto
    then show "\<exists>p q. c # cs = p @ q \<and> m (if p = [] then b else Some (last p)) q"
    proof cases
      case 1
      then show ?thesis by (intro exI [of _ "[]"] exI [of _ "c # cs"]) simp
    next
      case 2
      then obtain p q where "cs = p @ q" "m (if p = [] then Some c else Some (last p)) q" using "2.IH" by auto
      then have "c # cs = (c # p) @ q \<and> m (if c # p = [] then b else Some (last (c # p))) q" by (cases p) simp_all
      then show ?thesis by blast
    qed
  next
    assume "\<exists>p q. c # cs = p @ q \<and> m (if p = [] then b else Some (last p)) q"
    then obtain p q where pq: "c # cs = p @ q" "m (if p = [] then b else Some (last p)) q" by blast
    show "search_from b m (c # cs)"
    proof (cases p)
      case Nil
      with pq have "m b (c # cs)" by simp
      then show ?thesis by simp
    next
      case (Cons d p')
      with pq have "cs = p' @ q" "m (if p' = [] then Some c else Some (last p')) q" by auto
      then have "search_from (Some c) m cs" using "2.IH" by blast
      then show ?thesis by simp
    qed
  qed
qed simp

lemma re_search_iff: "re_search m s \<longleftrightarrow> (\<exists>p q. s = p @ q \<and> m (last_char p) q)"
  by (simp add: re_search_def search_from_iff last_char_def)

definition has_symbol :: "string \<Rightarrow> string \<Rightarrow> bool" where
  "has_symbol name s \<longleftrightarrow> (\<exists>p t q. s = p @ t # CHR '' '' # name @ q \<and> t \<in> {CHR ''T'', CHR ''t''}
     \<and> at_word (last_char p) \<and> word_end q)"

lemma after_case: "(case after p s of None \<Rightarrow> False | Some r \<Rightarrow> P r) \<longleftrightarrow> (\<exists>r. s = p @ r \<and> P r)"
  by (auto simp: after_Some [symmetric] split: option.splits)

lemma linked_iff: "linked name s \<longleftrightarrow> has_symbol name s"
proof -
  have "symbol_at name b q \<longleftrightarrow> (\<exists>t r. q = t # CHR '' '' # name @ r \<and> t \<in> {CHR ''T'', CHR ''t''} \<and> at_word b \<and> word_end r)"
    for b q unfolding symbol_at_def after_case by auto
  then show ?thesis unfolding linked_def re_search_iff has_symbol_def by simp blast
qed

section \<open>The instructions, as texts\<close>

text \<open>Skipping a run of characters before a text that cannot begin with one.\<close>

lemma skip_run:
  assumes "\<forall>r. Q r \<longrightarrow> r \<noteq> [] \<and> \<not> P (hd r)"
  shows "Q (dropWhile P s) \<longleftrightarrow> (\<exists>b r. s = b @ r \<and> list_all P b \<and> Q r)"
proof
  assume "Q (dropWhile P s)"
  then show "\<exists>b r. s = b @ r \<and> list_all P b \<and> Q r"
    by (intro exI [of _ "takeWhile P s"] exI [of _ "dropWhile P s"]) (auto simp: list_all_iff dest: set_takeWhileD)
next
  assume "\<exists>b r. s = b @ r \<and> list_all P b \<and> Q r"
  then obtain b r where b: "s = b @ r" "list_all P b" "Q r" by blast
  from assms b(3) obtain c cs where "r = c # cs" "\<not> P c" by (cases r) auto
  with b show "Q (dropWhile P s)" by (simp add: list_all_iff)
qed

lemma skip_some:
  assumes "\<forall>r. Q r \<longrightarrow> r \<noteq> [] \<and> \<not> P (hd r)"
  shows "r \<noteq> [] \<and> P (hd r) \<and> Q (dropWhile P r) \<longleftrightarrow> (\<exists>h y. r = h @ y \<and> h \<noteq> [] \<and> list_all P h \<and> Q y)"
proof
  assume r: "r \<noteq> [] \<and> P (hd r) \<and> Q (dropWhile P r)"
  then have "takeWhile P r \<noteq> []" by (cases r) auto
  with r show "\<exists>h y. r = h @ y \<and> h \<noteq> [] \<and> list_all P h \<and> Q y"
    by (intro exI [of _ "takeWhile P r"] exI [of _ "dropWhile P r"]) (auto simp: list_all_iff dest: set_takeWhileD)
next
  assume "\<exists>h y. r = h @ y \<and> h \<noteq> [] \<and> list_all P h \<and> Q y"
  then obtain h y where h: "r = h @ y" "h \<noteq> []" "list_all P h" "Q y" by blast
  then have "Q (dropWhile P r)" unfolding skip_run [OF assms] by blast
  with h show "r \<noteq> [] \<and> P (hd r) \<and> Q (dropWhile P r)" by (cases h) auto
qed

lemma skip_run1:
  assumes "\<forall>r. Q r \<longrightarrow> r \<noteq> [] \<and> \<not> is_blank (hd r)"
  shows "(case skip_blanks1 s of None \<Rightarrow> False | Some r \<Rightarrow> Q r)
    \<longleftrightarrow> (\<exists>b r. s = b @ r \<and> b \<noteq> [] \<and> list_all is_blank b \<and> Q r)"
proof (cases s)
  case (Cons c cs)
  show ?thesis
  proof (cases "is_blank c")
    case True
    have "(\<exists>b r. s = b @ r \<and> b \<noteq> [] \<and> list_all is_blank b \<and> Q r) \<longleftrightarrow> (\<exists>b r. cs = b @ r \<and> list_all is_blank b \<and> Q r)"
    proof
      assume "\<exists>b r. s = b @ r \<and> b \<noteq> [] \<and> list_all is_blank b \<and> Q r"
      then obtain b r where b: "s = b @ r" "b \<noteq> []" "list_all is_blank b" "Q r" by blast
      with Cons obtain b' where "b = c # b'" "cs = b' @ r" by (cases b) auto
      with b show "\<exists>b r. cs = b @ r \<and> list_all is_blank b \<and> Q r" by auto
    next
      assume "\<exists>b r. cs = b @ r \<and> list_all is_blank b \<and> Q r"
      then obtain b r where "cs = b @ r" "list_all is_blank b" "Q r" by blast
      with True Cons have "s = (c # b) @ r \<and> c # b \<noteq> [] \<and> list_all is_blank (c # b) \<and> Q r" by simp
      then show "\<exists>b r. s = b @ r \<and> b \<noteq> [] \<and> list_all is_blank b \<and> Q r" by blast
    qed
    with True Cons skip_run [OF assms] show ?thesis by (simp add: skip_blanks1_def)
  next
    case False
    then show ?thesis by (auto simp: skip_blanks1_def Cons Cons_eq_append_conv)
  qed
qed (simp add: skip_blanks1_def)

text \<open>An instruction that begins at a word: one of the mnemonics, blanks, \<open>r0,\<close> and the other operands.\<close>

definition on_r0 :: "string list \<Rightarrow> (string \<Rightarrow> bool) \<Rightarrow> string \<Rightarrow> bool" where
  "on_r0 ms operands l \<longleftrightarrow> (\<exists>p m b r. l = p @ m @ b @ ''r0,'' @ r \<and> m \<in> set ms \<and> at_word (last_char p)
     \<and> b \<noteq> [] \<and> list_all is_blank b \<and> operands r)"

definition begins :: "string \<Rightarrow> string \<Rightarrow> bool" where
  "begins t r \<longleftrightarrow> (\<exists>b q. r = b @ t @ q \<and> list_all is_blank b)"

text \<open>The instructions that write \<open>r0\<close>, the flag-setting forms with \<open>s\<close> included.\<close>

definition writes_r0 :: "string \<Rightarrow> bool" where
  "writes_r0 = on_r0 (concat (map (\<lambda>m. [m, m @ ''s''])
     [''mov'', ''movs'', ''movw'', ''mov.w'', ''add'', ''adds'', ''add.w'', ''sub'', ''subs'', ''sub.w'', ''ldr'', ''ldr.w'',
      ''orr'', ''and'', ''lsl''])) (\<lambda>_. True)"

text \<open>A fixed offset, as the docstring has it: an immediate, or a literal load relative to the pc, narrow or wide.\<close>

definition immediate :: "string \<Rightarrow> bool" where
  "immediate = on_r0 [''mov'', ''movs'', ''movw'', ''mov.w''] (begins ''#'')"

definition literal_load :: "string \<Rightarrow> string \<Rightarrow> bool" where
  "literal_load ldr = on_r0 [ldr] (begins ''[pc'')"

definition fixed_offset :: "string \<Rightarrow> bool" where
  "fixed_offset l \<longleftrightarrow> immediate l \<or> literal_load ''ldr'' l \<or> literal_load ''ldr.w'' l"

text \<open>What the gate misses of it.\<close>

definition only_wide_load :: "string \<Rightarrow> bool" where
  "only_wide_load l \<longleftrightarrow> literal_load ''ldr.w'' l \<and> \<not> immediate l \<and> \<not> literal_load ''ldr'' l"

definition is_call :: "string \<Rightarrow> bool" where
  "is_call l \<longleftrightarrow> (\<exists>p c q. l = p @ ''bl'' @ c # q \<and> at_word (last_char p) \<and> is_blank c)"

definition calls :: "string \<Rightarrow> string \<Rightarrow> bool" where
  "calls callee l \<longleftrightarrow> (\<exists>p b h g q. l = p @ ''bl'' @ b @ h @ g @ ''<'' @ callee @ ''>'' @ q \<and> at_word (last_char p)
     \<and> b \<noteq> [] \<and> list_all is_blank b \<and> h \<noteq> [] \<and> list_all lower_hex h \<and> g \<noteq> [] \<and> list_all is_blank g)"

lemma bind_case: "(case Option.bind x f of None \<Rightarrow> False | Some r \<Rightarrow> Q r)
    \<longleftrightarrow> (case x of None \<Rightarrow> False | Some y \<Rightarrow> case f y of None \<Rightarrow> False | Some r \<Rightarrow> Q r)"
  by (cases x) simp_all

lemma not_blank: "\<not> is_blank CHR ''r''" "\<not> is_blank CHR ''#''" "\<not> is_blank CHR ''[''" "\<not> is_blank CHR ''<''"
  "lower_hex c \<Longrightarrow> \<not> is_blank c" "is_blank c \<Longrightarrow> \<not> lower_hex c"
  by (auto simp: is_blank_def lower_hex_def is_digit_def among_def less_eq_char_def)

lemma r0_comma_iff:
  "(case r0_comma s of None \<Rightarrow> False | Some r \<Rightarrow> Q r)
    \<longleftrightarrow> (\<exists>b r. s = b @ ''r0,'' @ r \<and> b \<noteq> [] \<and> list_all is_blank b \<and> Q r)"
proof -
  have "\<forall>y. (\<exists>r. y = ''r0,'' @ r \<and> Q r) \<longrightarrow> y \<noteq> [] \<and> \<not> is_blank (hd y)"
    using not_blank(1) by auto
  note skip = skip_run1 [OF this]
  show ?thesis unfolding r0_comma_def bind_case after_case skip by blast
qed

lemma mnemonic_iff:
  "(case Option.bind (after m s) r0_comma of None \<Rightarrow> False | Some r \<Rightarrow> Q r)
    \<longleftrightarrow> (\<exists>b r. s = m @ b @ ''r0,'' @ r \<and> b \<noteq> [] \<and> list_all is_blank b \<and> Q r)"
  unfolding bind_case after_case r0_comma_iff by blast

lemma prefix_blanks:
  assumes "t \<noteq> []" "\<not> is_blank (hd t)"
  shows "prefix t (dropWhile is_blank r) \<longleftrightarrow> begins t r"
proof -
  have "\<forall>y. prefix t y \<longrightarrow> y \<noteq> [] \<and> \<not> is_blank (hd y)"
    using assms by (auto simp: prefix_def)
  note skip = skip_run [OF this]
  show ?thesis unfolding skip begins_def by (auto simp: prefix_def)
qed

lemma on_r0_search:
  "re_search (\<lambda>before s. at_word before \<and> list_ex (\<lambda>m. case Option.bind (after m s) r0_comma of None \<Rightarrow> False | Some r \<Rightarrow> Q r) ms) l
    \<longleftrightarrow> on_r0 ms Q l"
  unfolding re_search_iff mnemonic_iff on_r0_def list_ex_iff
proof (intro iffI; elim exE conjE bexE)
  fix p q m b r
  assume "l = p @ q" "q = m @ b @ ''r0,'' @ r" "m \<in> set ms" "at_word (last_char p)" "b \<noteq> []" "list_all is_blank b" "Q r"
  then show "\<exists>p m b r. l = p @ m @ b @ ''r0,'' @ r \<and> m \<in> set ms \<and> at_word (last_char p)
     \<and> b \<noteq> [] \<and> list_all is_blank b \<and> Q r" by blast
next
  fix p m b r
  assume l: "l = p @ m @ b @ ''r0,'' @ r" "at_word (last_char p)" and m: "m \<in> set ms" "b \<noteq> []" "list_all is_blank b" "Q r"
  let ?q = "m @ b @ ''r0,'' @ r"
  have "\<exists>m\<in>set ms. \<exists>b r. ?q = m @ b @ ''r0,'' @ r \<and> b \<noteq> [] \<and> list_all is_blank b \<and> Q r"
    using m by (intro bexI [of _ m] exI [of _ b] exI [of _ r]) simp_all
  with l show "\<exists>p q. l = p @ q \<and> at_word (last_char p) \<and> (\<exists>m\<in>set ms. \<exists>b r. q = m @ b @ ''r0,'' @ r \<and> b \<noteq> []
     \<and> list_all is_blank b \<and> Q r)"
    by (intro exI [of _ p] exI [of _ ?q] conjI)
qed

lemma write_iff: "re_search write_at l \<longleftrightarrow> writes_r0 l"
proof -
  have some: "x \<noteq> None \<longleftrightarrow> (case x of None \<Rightarrow> False | Some r \<Rightarrow> True)" for x :: "string option" by (cases x) simp_all
  have same: "set (R0_WRITERS @ map (\<lambda>m. m @ ''s'') R0_WRITERS) = set (concat (map (\<lambda>m. [m, m @ ''s''])
     [''mov'', ''movs'', ''movw'', ''mov.w'', ''add'', ''adds'', ''add.w'', ''sub'', ''subs'', ''sub.w'', ''ldr'', ''ldr.w'',
      ''orr'', ''and'', ''lsl'']))"
    by code_simp
  show ?thesis
    unfolding write_at_def [abs_def] some on_r0_search writes_r0_def on_r0_def same ..
qed

lemma imm_iff: "re_search imm_at l \<longleftrightarrow> immediate l \<or> literal_load ''ldr'' l"
proof -
  have hash: "prefix ''#'' (dropWhile is_blank r) = begins ''#'' r" for r
    by (rule prefix_blanks) (simp_all add: not_blank(2))
  have pc: "prefix ''[pc'' (dropWhile is_blank r) = begins ''[pc'' r" for r
    by (rule prefix_blanks) (simp_all add: not_blank(3))
  have "re_search imm_at l \<longleftrightarrow>
      re_search (\<lambda>before s. at_word before \<and> list_ex (\<lambda>m. case Option.bind (after m s) r0_comma of None \<Rightarrow> False
        | Some r \<Rightarrow> begins ''#'' r) [''mov'', ''movs'', ''movw'', ''mov.w'']) l
      \<or> re_search (\<lambda>before s. at_word before \<and> list_ex (\<lambda>m. case Option.bind (after m s) r0_comma of None \<Rightarrow> False
        | Some r \<Rightarrow> begins ''[pc'' r) [''ldr'']) l"
    unfolding re_search_iff imm_at_def hash pc by (simp only: list_ex_Cons_iff list_ex_Nil_iff simp_thms) blast
  then show ?thesis unfolding on_r0_search immediate_def literal_load_def .
qed

lemma is_call_iff: "re_search bl_at l \<longleftrightarrow> is_call l"
proof -
  have "skip_blanks1 r \<noteq> None \<longleftrightarrow> (\<exists>c q. r = c # q \<and> is_blank c)" for r
    by (auto simp: skip_blanks1_def split: list.split)
  then show ?thesis unfolding re_search_iff bl_at_def after_case is_call_def by blast
qed

lemma calls_iff: "re_search (call_at callee) l \<longleftrightarrow> calls callee l"
proof -
  let ?name = "\<lambda>q. prefix (CHR ''<'' # callee @ ''>'') q"
  let ?rest = "\<lambda>r. case skip_blanks1 r of None \<Rightarrow> False | Some q \<Rightarrow> ?name q"
  have name: "?name q \<longleftrightarrow> (\<exists>t. q = ''<'' @ callee @ ''>'' @ t)" for q by (auto simp: prefix_def)
  have rest: "?rest r \<longleftrightarrow> (\<exists>g t. r = g @ ''<'' @ callee @ ''>'' @ t \<and> g \<noteq> [] \<and> list_all is_blank g)" for r
  proof -
    have "\<forall>q. ?name q \<longrightarrow> q \<noteq> [] \<and> \<not> is_blank (hd q)" using not_blank(4) unfolding name by auto
    note skip = skip_run1 [OF this]
    show ?thesis unfolding skip unfolding name by blast
  qed
  have blank: "\<forall>r. ?rest r \<longrightarrow> r \<noteq> [] \<and> \<not> lower_hex (hd r)"
    using not_blank(6) unfolding rest by (auto simp: neq_Nil_conv)
  have hex: "r \<noteq> [] \<and> lower_hex (hd r) \<and> ?rest (dropWhile lower_hex r)
      \<longleftrightarrow> (\<exists>h y. r = h @ y \<and> h \<noteq> [] \<and> list_all lower_hex h \<and> ?rest y)" for r
    by (rule skip_some [OF blank])
  have start: "\<forall>r. r \<noteq> [] \<and> lower_hex (hd r) \<and> ?rest (dropWhile lower_hex r) \<longrightarrow> r \<noteq> [] \<and> \<not> is_blank (hd r)"
    using not_blank(5) by blast
  have call: "(case Option.bind (after ''bl'' s) skip_blanks1 of None \<Rightarrow> False
      | Some r \<Rightarrow> r \<noteq> [] \<and> lower_hex (hd r) \<and> ?rest (dropWhile lower_hex r))
    \<longleftrightarrow> (\<exists>r b q h y g t. s = ''bl'' @ r \<and> r = b @ q \<and> b \<noteq> [] \<and> list_all is_blank b \<and> q = h @ y \<and> h \<noteq> []
        \<and> list_all lower_hex h \<and> y = g @ ''<'' @ callee @ ''>'' @ t \<and> g \<noteq> [] \<and> list_all is_blank g)" for s
    unfolding bind_case after_case skip_run1 [OF start] unfolding hex unfolding rest
    by (simp only: ex_simps [symmetric] conj_assoc)
  show ?thesis unfolding re_search_iff call_at_def call calls_def
  proof ((intro iffI; elim exE conjE), goal_cases)
    case (1 p s r b q h y g t)
    show ?case
      by (rule exI [of _ p], rule exI [of _ b], rule exI [of _ h], rule exI [of _ g], rule exI [of _ t]) (use 1 in simp)
  next
    case (2 p b h g t)
    let ?y = "g @ ''<'' @ callee @ ''>'' @ t"
    show ?case
      by (rule exI [of _ p], rule exI [of _ "''bl'' @ b @ h @ ?y"], intro conjI, rule 2(1), rule 2(2),
          rule exI [of _ "b @ h @ ?y"], rule exI [of _ b], rule exI [of _ "h @ ?y"], rule exI [of _ h], rule exI [of _ ?y],
          rule exI [of _ g], rule exI [of _ t], intro conjI refl 2(3-8))
  qed
qed

text \<open>A call of \<open>callee\<close> with an offset that the gate takes for computed: the last line before it that calls or writes
  \<open>r0\<close> is no call, writes \<open>r0\<close>, and not with a fixed offset; or with one by a wide literal load only.\<close>

definition computed_call :: "string list \<Rightarrow> string \<Rightarrow> bool" where
  "computed_call ls callee \<longleftrightarrow>
     (\<exists>pre w mid c post. ls = pre @ [w] @ mid @ [c] @ post \<and> calls callee c
        \<and> writes_r0 w \<and> (\<not> fixed_offset w \<or> only_wide_load w) \<and> \<not> is_call w
        \<and> list_all (\<lambda>l. \<not> is_call l \<and> \<not> writes_r0 l) mid)"

lemma computed_call_eq:
  "computed_call ls callee \<longleftrightarrow>
     (\<exists>pre w mid c post. ls = pre @ [w] @ mid @ [c] @ post \<and> re_search (call_at callee) c
        \<and> re_search write_at w \<and> \<not> re_search imm_at w \<and> \<not> re_search bl_at w
        \<and> list_all (\<lambda>l. \<not> re_search bl_at l \<and> \<not> re_search write_at l) mid)"
proof -
  have "\<not> fixed_offset w \<or> only_wide_load w \<longleftrightarrow> \<not> (immediate w \<or> literal_load ''ldr'' w)" for w
    by (auto simp: fixed_offset_def only_wide_load_def)
  then show ?thesis unfolding computed_call_def calls_iff write_iff imm_iff is_call_iff by simp
qed

lemma offset_computed_iff:
  "offset_computed ls \<longleftrightarrow> (\<exists>mid w rest. ls = mid @ [w] @ rest
     \<and> re_search write_at w \<and> \<not> re_search imm_at w \<and> \<not> re_search bl_at w
     \<and> list_all (\<lambda>l. \<not> re_search bl_at l \<and> \<not> re_search write_at l) mid)"
proof (induction ls)
  case (Cons l ls)
  show ?case
  proof (cases "re_search bl_at l \<or> re_search write_at l")
    case True
    then have "offset_computed (l # ls) \<longleftrightarrow> re_search write_at l \<and> \<not> re_search imm_at l \<and> \<not> re_search bl_at l" by auto
    also have "\<dots> \<longleftrightarrow> (\<exists>mid w rest. l # ls = mid @ [w] @ rest
       \<and> re_search write_at w \<and> \<not> re_search imm_at w \<and> \<not> re_search bl_at w
       \<and> list_all (\<lambda>l. \<not> re_search bl_at l \<and> \<not> re_search write_at l) mid)" (is "?L \<longleftrightarrow> ?R")
    proof
      assume ?L
      then show ?R by (intro exI [of _ "[]"] exI [of _ l] exI [of _ ls]) simp
    next
      assume ?R
      then obtain mid w rest where "l # ls = mid @ [w] @ rest"
        "re_search write_at w \<and> \<not> re_search imm_at w \<and> \<not> re_search bl_at w"
        "list_all (\<lambda>l. \<not> re_search bl_at l \<and> \<not> re_search write_at l) mid" by blast
      with True show ?L by (cases mid) auto
    qed
    finally show ?thesis .
  next
    case False
    then have "offset_computed (l # ls) = offset_computed ls" by simp
    also have "\<dots> \<longleftrightarrow> (\<exists>mid w rest. l # ls = mid @ [w] @ rest
       \<and> re_search write_at w \<and> \<not> re_search imm_at w \<and> \<not> re_search bl_at w
       \<and> list_all (\<lambda>l. \<not> re_search bl_at l \<and> \<not> re_search write_at l) mid)" (is "?L \<longleftrightarrow> ?R")
    proof
      assume ?L
      then obtain mid w rest where "ls = mid @ [w] @ rest"
        "re_search write_at w \<and> \<not> re_search imm_at w \<and> \<not> re_search bl_at w"
        "list_all (\<lambda>l. \<not> re_search bl_at l \<and> \<not> re_search write_at l) mid" using Cons.IH by blast
      with False show ?R by (intro exI [of _ "l # mid"] exI [of _ w] exI [of _ rest]) simp
    next
      assume ?R
      then obtain mid w rest where w: "l # ls = mid @ [w] @ rest"
        "re_search write_at w \<and> \<not> re_search imm_at w \<and> \<not> re_search bl_at w"
        "list_all (\<lambda>l. \<not> re_search bl_at l \<and> \<not> re_search write_at l) mid" by blast
      with False obtain mid' where "mid = l # mid'" by (cases mid) auto
      with w show ?L using Cons.IH by auto
    qed
    finally show ?thesis .
  qed
qed simp

lemma scan_calls_iff:
  "scan_calls callee before ls \<longleftrightarrow>
    (\<exists>p c q. ls = p @ [c] @ q \<and> re_search (call_at callee) c \<and> offset_computed (rev p @ before))"
proof (induction ls arbitrary: before)
  case (Cons l ls)
  show ?case
  proof
    assume "scan_calls callee before (l # ls)"
    then consider "re_search (call_at callee) l \<and> offset_computed before" | "scan_calls callee (l # before) ls"
      by (auto split: if_splits)
    then show "\<exists>p c q. l # ls = p @ [c] @ q \<and> re_search (call_at callee) c \<and> offset_computed (rev p @ before)"
    proof cases
      case 1
      then show ?thesis by (intro exI [of _ "[]"] exI [of _ l] exI [of _ ls]) simp
    next
      case 2
      then obtain p c q where "ls = p @ [c] @ q" "re_search (call_at callee) c" "offset_computed (rev p @ l # before)"
        using Cons.IH by blast
      then show ?thesis by (intro exI [of _ "l # p"] exI [of _ c] exI [of _ q]) simp
    qed
  next
    assume "\<exists>p c q. l # ls = p @ [c] @ q \<and> re_search (call_at callee) c \<and> offset_computed (rev p @ before)"
    then obtain p c q where p: "l # ls = p @ [c] @ q" "re_search (call_at callee) c" "offset_computed (rev p @ before)" by blast
    show "scan_calls callee before (l # ls)"
    proof (cases p)
      case (Cons d p')
      with p have "ls = p' @ [c] @ q" "offset_computed (rev p' @ l # before)" by auto
      then show ?thesis using Cons.IH p(2) by auto
    qed (use p in simp)
  qed
qed simp

lemma register_offset_call_iff: "register_offset_call t callee \<longleftrightarrow> computed_call (split_char CHR 0x0A t) callee"
proof -
  have "scan_calls callee [] ls \<longleftrightarrow> computed_call ls callee" for ls
  proof
    assume "scan_calls callee [] ls"
    then obtain p c q where p: "ls = p @ [c] @ q" "re_search (call_at callee) c" "offset_computed (rev p)"
      by (auto simp: scan_calls_iff)
    then obtain mid w rest where w: "rev p = mid @ [w] @ rest"
      "re_search write_at w" "\<not> re_search imm_at w" "\<not> re_search bl_at w"
      "list_all (\<lambda>l. \<not> re_search bl_at l \<and> \<not> re_search write_at l) mid"
      by (auto simp: offset_computed_iff)
    from arg_cong [OF w(1), of rev] have "p = rev rest @ [w] @ rev mid" by simp
    then show "computed_call ls callee"
      unfolding computed_call_eq using p w(2-5)
      by (intro exI [of _ "rev rest"] exI [of _ w] exI [of _ "rev mid"] exI [of _ c] exI [of _ q]) simp
  next
    assume "computed_call ls callee"
    then obtain pre w mid c post where w: "ls = pre @ [w] @ mid @ [c] @ post" "re_search (call_at callee) c"
      "re_search write_at w" "\<not> re_search imm_at w" "\<not> re_search bl_at w"
      "list_all (\<lambda>l. \<not> re_search bl_at l \<and> \<not> re_search write_at l) mid"
      unfolding computed_call_eq by blast
    then have "offset_computed (rev (pre @ [w] @ mid))"
      unfolding offset_computed_iff by (intro exI [of _ "rev mid"] exI [of _ w] exI [of _ "rev pre"]) simp
    then show "scan_calls callee [] ls"
      unfolding scan_calls_iff using w(1,2) by (intro exI [of _ "pre @ [w] @ mid"] exI [of _ c] exI [of _ post]) simp
  qed
  then show ?thesis by (simp add: register_offset_call_def)
qed

text \<open>A word of eight hexadecimal digits, or of \<open>0x\<close> and eight.\<close>

definition has_literal :: "int \<Rightarrow> string \<Rightarrow> bool" where
  "has_literal n t \<longleftrightarrow> (\<exists>p d z q. t = p @ z @ d @ q \<and> z \<in> {[], ''0x''} \<and> length d = 8 \<and> list_all is_hex d
     \<and> numeral_value 16 d = n \<and> at_word (last_char p) \<and> word_end q)"

lemma hex_word: "is_hex c \<Longrightarrow> is_word c"
  by (auto simp: is_hex_def is_word_def among_def less_eq_char_def)

lemma split_outside: "xs @ c # ys = p @ w \<Longrightarrow> c \<notin> set w \<Longrightarrow> \<exists>p'. p = xs @ c # p' \<and> ys = p' @ w"
  by (auto simp: append_eq_append_conv2 Cons_eq_append_conv)

lemma all_words_start: "list_all is_word p \<Longrightarrow> at_word (last_char p) \<Longrightarrow> p = []"
  by (cases p rule: rev_cases) (simp_all add: last_char_def at_word_def)

lemma all_words_end: "list_all is_word q \<Longrightarrow> word_end q \<Longrightarrow> q = []"
  by (cases q) (simp_all add: word_end_def)

text \<open>The words that begin in \<open>t\<close>, or that \<open>cur\<close> has begun.\<close>

lemma word_runs_iff:
  "list_all is_word cur \<Longrightarrow> w \<in> set (word_runs cur t) \<longleftrightarrow>
    (\<exists>p q. rev cur @ t = p @ w @ q \<and> w \<noteq> [] \<and> list_all is_word w \<and> at_word (last_char p) \<and> word_end q)"
proof (induction cur t rule: word_runs.induct)
  case (1 cur)
  show ?case
  proof
    assume "w \<in> set (word_runs cur [])"
    then have "w = rev cur" "cur \<noteq> []" by (auto split: if_splits)
    then show "\<exists>p q. rev cur @ [] = p @ w @ q \<and> w \<noteq> [] \<and> list_all is_word w \<and> at_word (last_char p) \<and> word_end q"
      using 1 by (intro exI [of _ "[]"]) (simp add: last_char_def at_word_def word_end_def)
  next
    assume "\<exists>p q. rev cur @ [] = p @ w @ q \<and> w \<noteq> [] \<and> list_all is_word w \<and> at_word (last_char p) \<and> word_end q"
    then obtain p q where pq: "rev cur = p @ w @ q" "w \<noteq> []" "at_word (last_char p)" "word_end q" by auto
    from 1 have "list_all is_word (rev cur)" by simp
    then have "list_all is_word p" "list_all is_word q" unfolding pq(1) by simp_all
    then have "p = []" "q = []" using all_words_start all_words_end pq(3,4) by blast+
    with pq show "w \<in> set (word_runs cur [])" by auto
  qed
next
  case (2 cur c cs)
  show ?case
  proof (cases "is_word c")
    case True
    then show ?thesis using 2 by simp
  next
    case False
    let ?P = "\<lambda>p q s. s = p @ w @ q \<and> w \<noteq> [] \<and> list_all is_word w \<and> at_word (last_char p) \<and> word_end q"
    have rest: "w \<in> set (word_runs [] cs) \<longleftrightarrow> (\<exists>p q. ?P p q cs)"
      using "2.IH"(2,3) False by (cases "cur = []") auto
    have "w \<in> set (word_runs cur (c # cs)) \<longleftrightarrow> cur \<noteq> [] \<and> w = rev cur \<or> w \<in> set (word_runs [] cs)"
      using False by auto
    also have "\<dots> \<longleftrightarrow> (\<exists>p q. ?P p q (rev cur @ c # cs))"
    proof
      assume "cur \<noteq> [] \<and> w = rev cur \<or> w \<in> set (word_runs [] cs)"
      then show "\<exists>p q. ?P p q (rev cur @ c # cs)"
      proof
        assume "cur \<noteq> [] \<and> w = rev cur"
        then show ?thesis using "2.prems" False
          by (intro exI [of _ "[]"] exI [of _ "c # cs"]) (simp add: last_char_def at_word_def word_end_def)
      next
        assume "w \<in> set (word_runs [] cs)"
        then obtain p q where "?P p q cs" using rest by blast
        then have "?P (rev cur @ c # p) q (rev cur @ c # cs)" using False
          by (cases p rule: rev_cases) (auto simp: last_char_def at_word_def)
        then show ?thesis by blast
      qed
    next
      assume "\<exists>p q. ?P p q (rev cur @ c # cs)"
      then obtain p q where P: "?P p q (rev cur @ c # cs)" by blast
      then have "rev cur @ c # cs = (p @ w) @ q" by simp
      then obtain us where "rev cur = (p @ w) @ us \<and> us @ c # cs = q \<or> rev cur @ us = p @ w \<and> c # cs = us @ q"
        unfolding append_eq_append_conv2 [of "rev cur"] by blast
      then consider "rev cur = p @ w" | u us' where "rev cur = p @ w @ u # us'" "q = u # us' @ c # cs"
        | us' where "rev cur @ c # us' = p @ w" "cs = us' @ q"
        by (cases us) auto
      then show "cur \<noteq> [] \<and> w = rev cur \<or> w \<in> set (word_runs [] cs)"
      proof cases
        case 1
        then have "list_all is_word p" using "2.prems" by (metis list_all_append list_all_rev)
        with P have "p = []" using all_words_start by blast
        with 1 P show ?thesis by auto
      next
        case 2
        then have "u \<in> set (rev cur)" by simp
        then have "is_word u" using "2.prems" by (simp add: list_all_iff)
        with 2 P show ?thesis by (simp add: word_end_def)
      next
        case 3
        have "c \<notin> set w" using P False by (auto simp: list_all_iff)
        from split_outside [OF 3(1) this] obtain p' where p': "p = rev cur @ c # p'" "us' = p' @ w" by blast
        with P 3(2) have "?P p' q cs" by (cases p' rule: rev_cases) (auto simp: last_char_def at_word_def)
        then show ?thesis using rest by blast
      qed
    qed
    finally show ?thesis .
  qed
qed

lemma set_map_filter: "set (List.map_filter f xs) = {y. \<exists>x \<in> set xs. f x = Some y}"
  by (induction xs) (auto simp: List.map_filter_simps split: option.splits)

lemma lits_iff: "n \<in> set (lits t) \<longleftrightarrow> has_literal n t"
proof -
  have w: "w \<in> set (word_runs [] t) \<longleftrightarrow>
      (\<exists>p q. t = p @ w @ q \<and> w \<noteq> [] \<and> list_all is_word w \<and> at_word (last_char p) \<and> word_end q)" for w
    using word_runs_iff [of "[]" w t] by simp
  have l: "literal_of w = Some n \<longleftrightarrow>
      (\<exists>z d. w = z @ d \<and> z \<in> {[], ''0x''} \<and> length d = 8 \<and> list_all is_hex d \<and> numeral_value 16 d = n)" for w
  proof (cases "after ''0x'' w")
    case None
    then have n: "\<forall>d. w \<noteq> ''0x'' @ d" by (simp only: after_None) blast
    have e: "(\<exists>z d. w = z @ d \<and> z \<in> {[], ''0x''} \<and> P d) \<longleftrightarrow> P w" for P :: "string \<Rightarrow> bool"
      using n by auto
    show ?thesis unfolding e by (auto simp: literal_of_def Let_def None)
  next
    case (Some r)
    then have w: "w = ''0x'' @ r" by (simp add: after_Some)
    have "\<not> is_hex CHR ''x''" by (simp add: is_hex_def is_digit_def among_def less_eq_char_def)
    have e: "(\<exists>z d. w = z @ d \<and> z \<in> {[], ''0x''} \<and> length d = 8 \<and> list_all is_hex d \<and> numeral_value 16 d = n)
        \<longleftrightarrow> length r = 8 \<and> list_all is_hex r \<and> numeral_value 16 r = n"
    proof
      assume "length r = 8 \<and> list_all is_hex r \<and> numeral_value 16 r = n"
      then have "w = ''0x'' @ r \<and> ''0x'' \<in> {[], ''0x''} \<and> length r = 8 \<and> list_all is_hex r \<and> numeral_value 16 r = n"
        using w by simp
      then show "\<exists>z d. w = z @ d \<and> z \<in> {[], ''0x''} \<and> length d = 8 \<and> list_all is_hex d \<and> numeral_value 16 d = n"
        by blast
    next
      assume "\<exists>z d. w = z @ d \<and> z \<in> {[], ''0x''} \<and> length d = 8 \<and> list_all is_hex d \<and> numeral_value 16 d = n"
      then obtain z d where zd: "w = z @ d" "z \<in> {[], ''0x''}" "length d = 8" "list_all is_hex d" "numeral_value 16 d = n" by blast
      from zd(2) show "length r = 8 \<and> list_all is_hex r \<and> numeral_value 16 r = n"
      proof (elim insertE emptyE)
        assume "z = []"
        with zd(1) w have "d = CHR ''0'' # CHR ''x'' # r" by simp
        with zd(4) \<open>\<not> is_hex CHR ''x''\<close> show ?thesis by simp
      next
        assume "z = ''0x''"
        with zd w show ?thesis by simp
      qed
    qed
    show ?thesis unfolding e using \<open>\<not> is_hex CHR ''x''\<close> by (auto simp: literal_of_def Let_def Some w)
  qed
  have hex: "list_all is_word (z @ d)" if "z \<in> {[], ''0x''}" "list_all is_hex d" for z d
  proof -
    have "is_word CHR ''0''" "is_word CHR ''x''" by (simp_all add: is_word_def is_digit_def among_def less_eq_char_def)
    moreover have "list_all is_word d" using that(2) hex_word by (auto simp: list_all_iff)
    ultimately show ?thesis using that(1) by auto
  qed
  have "n \<in> set (lits t) \<longleftrightarrow> (\<exists>w \<in> set (word_runs [] t). literal_of w = Some n)"
    unfolding lits_def set_map_filter by simp
  also have "\<dots> \<longleftrightarrow> has_literal n t"
  proof
    assume "\<exists>w \<in> set (word_runs [] t). literal_of w = Some n"
    then obtain v where v: "v \<in> set (word_runs [] t)" "literal_of v = Some n" by blast
    from v(1) obtain p q where pq: "t = p @ v @ q" "at_word (last_char p)" "word_end q" unfolding w by blast
    from v(2) obtain z d where zd: "v = z @ d" "z \<in> {[], ''0x''}" "length d = 8" "list_all is_hex d" "numeral_value 16 d = n"
      unfolding l by blast
    have "t = p @ z @ d @ q" using pq(1) zd(1) by simp
    with pq(2,3) zd(2-5) show "has_literal n t" unfolding has_literal_def by blast
  next
    assume "has_literal n t"
    then obtain p d z q where h: "t = p @ z @ d @ q" "z \<in> {[], ''0x''}" "length d = 8" "list_all is_hex d"
      "numeral_value 16 d = n" "at_word (last_char p)" "word_end q" unfolding has_literal_def by blast
    have "z @ d \<in> set (word_runs [] t)"
    proof -
      have "t = p @ (z @ d) @ q \<and> z @ d \<noteq> [] \<and> list_all is_word (z @ d) \<and> at_word (last_char p) \<and> word_end q"
        using h hex [OF h(2,4)] by auto
      then show ?thesis unfolding w by blast
    qed
    moreover have "literal_of (z @ d) = Some n" unfolding l using h by blast
    ultimately show "\<exists>w \<in> set (word_runs [] t). literal_of w = Some n" by blast
  qed
  finally show ?thesis .
qed

definition ends_symbol_line :: "string \<Rightarrow> string \<Rightarrow> bool" where
  "ends_symbol_line name s \<longleftrightarrow> (\<exists>p t q. s = p @ t # CHR '' '' # name @ q \<and> t \<in> {CHR ''T'', CHR ''t''}
     \<and> at_word (last_char p) \<and> (q = [] \<or> hd q = CHR 0x0A))"

lemma symbol_line_iff: "re_search (symbol_line_at name) s \<longleftrightarrow> ends_symbol_line name s"
proof -
  have "symbol_line_at name b q \<longleftrightarrow> (\<exists>t r. q = t # CHR '' '' # name @ r \<and> t \<in> {CHR ''T'', CHR ''t''} \<and> at_word b
      \<and> (r = [] \<or> hd r = CHR 0x0A))" for b q unfolding symbol_line_at_def after_case by auto
  then show ?thesis unfolding re_search_iff ends_symbol_line_def by simp blast
qed

text \<open>A line of the symbol table: an address, perhaps a size, and the symbol as a strong one.\<close>

definition strong_symbol :: "string \<Rightarrow> string \<Rightarrow> bool" where
  "strong_symbol name l \<longleftrightarrow> (\<exists>h g. l = h @ g @ '' T '' @ name \<and> h \<noteq> [] \<and> list_all lower_hex h
     \<and> (g = [] \<or> (\<exists>n. g = CHR '' '' # n \<and> n \<noteq> [] \<and> list_all lower_hex n)))"

lemma strong_line_iff: "strong_line name l \<longleftrightarrow> strong_symbol name l"
proof -
  define t where "t = '' T '' @ name"
  let ?Q = "\<lambda>r. r = t \<or> (case r of c # q \<Rightarrow> c = CHR '' '' \<and> q \<noteq> [] \<and> lower_hex (hd q) \<and> dropWhile lower_hex q = t | [] \<Rightarrow> False)"
  have blank: "\<not> lower_hex CHR '' ''" by (simp add: lower_hex_def is_digit_def among_def less_eq_char_def)
  then have t: "\<forall>r. r = t \<longrightarrow> r \<noteq> [] \<and> \<not> lower_hex (hd r)" by (simp add: t_def)
  note inner = skip_some [OF t]
  have Q: "?Q r \<longleftrightarrow> (\<exists>g. r = g @ t \<and> (g = [] \<or> (\<exists>n. g = CHR '' '' # n \<and> n \<noteq> [] \<and> list_all lower_hex n)))" for r
  proof -
    have "?Q r \<longleftrightarrow> r = t \<or> (\<exists>n. r = CHR '' '' # n @ t \<and> n \<noteq> [] \<and> list_all lower_hex n)"
    proof (cases r)
      case (Cons c q)
      show ?thesis unfolding Cons list.case inner by blast
    qed simp
    then show ?thesis by auto
  qed
  have "\<forall>r. ?Q r \<longrightarrow> r \<noteq> [] \<and> \<not> lower_hex (hd r)" using blank t by (auto split: list.splits)
  note outer = skip_some [OF this]
  show ?thesis unfolding strong_line_def Let_def t_def [symmetric] outer
    unfolding Q strong_symbol_def t_def [symmetric] by auto
qed

text \<open>A wide pc-relative load is a constant, but \<open>_R0_IMM\<close> knows only the narrow \<open>ldr\<close>: such a call counts as computed.\<close>

lemma wide_literal_load_counts:
  "register_offset_call (''ldr.w r0, [pc, #8]'' @ [CHR 0x0A] @ ''bl 0 <pmu_reg_write>'') ''pmu_reg_write''"
  "\<not> register_offset_call (''ldr r0, [pc, #8]'' @ [CHR 0x0A] @ ''bl 0 <pmu_reg_write>'') ''pmu_reg_write''"
  by code_simp+

section \<open>Properties\<close>


end
