(* ===== verification/Vendor_Patch.thy ===== *)
theory Vendor_Patch
  imports Image_Gate Sha256
begin

text \<open>
  \<open>firmware/vendor/patch_u85_vendor_timeout.py\<close>: the copy of the vendor's driver source with four anchored changes.
  Each pattern is a matcher that returns the replacement and the text after the match.
\<close>

section \<open>Substitution\<close>

text \<open>\<open>re.subn\<close>: the text with every match replaced, from the left, and the number of matches.\<close>

function subn :: "(string \<Rightarrow> (string \<times> string) option) \<Rightarrow> string \<Rightarrow> string \<times> nat" where
  "subn m [] = ([], 0)"
| "subn m (c # cs) =
     (case m (c # cs) of
        None \<Rightarrow> (case subn m cs of (out, n) \<Rightarrow> (c # out, n))
      | Some (new, rest) \<Rightarrow> (case subn m (drop (length cs - length rest) cs) of (out, n) \<Rightarrow> (new @ out, Suc n)))"
  by pat_completeness auto
termination by (relation "measure (\<lambda>(_, s). length s)") auto

text \<open>\<open>\r?\n\<close>\<close>

definition newline_at :: "string \<Rightarrow> (string \<times> string) option" where
  "newline_at s = (case s of
      c # d # cs \<Rightarrow> if c = CHR 0x0A then Some ([c], d # cs)
                    else if c = CHR 0x0D \<and> d = CHR 0x0A then Some ([c, d], cs) else None
    | [c] \<Rightarrow> if c = CHR 0x0A then Some ([c], []) else None
    | [] \<Rightarrow> None)"

definition VENDOR_SHA256 :: string where
  "VENDOR_SHA256 = ''bcd877bbd42a35d83c8696d02b64d2ae4985a46fcce91b98102e08661b356bcf''"

definition OLD_TEXT :: string where "OLD_TEXT = ''#define BUSY_SLEEP_TIMEOUT 10000''"
definition NEW :: string where
  "NEW = ''#define BUSY_SLEEP_TIMEOUT 200000000 /* Tier C step 1: was 10000 */''"

definition old1 :: "string \<Rightarrow> (string \<times> string) option" where
  "old1 s = Option.bind (after OLD_TEXT s) (\<lambda>r. if newline_at r \<noteq> None then Some (NEW, r) else None)"

definition RET_CODE :: string where "RET_CODE = ''    int ret_code = 0;''"

definition old2 :: "string \<Rightarrow> (string \<times> string) option" where
  "old2 s = Option.bind (after ''{'' s) (\<lambda>r.
     Option.bind (newline_at r) (\<lambda>(nl1, r).
     Option.bind (after RET_CODE r) (\<lambda>r.
     Option.bind (newline_at r) (\<lambda>(nl2, r).
       Some (''{'' @ nl1 @ RET_CODE @ '' irq_never_triggered = false; /* Tier C step 2: per-run, not per-boot */'' @ nl2, r)))))"

definition OLD3_TEXT :: string where "OLD3_TEXT = ''write_reg(NPU_REG_POWER_CTRL, MAC_RAMP_VAR);''"
definition NEW3 :: string where
  "NEW3 = ''write_reg(NPU_REG_POWER_CTRL, u85_power_ctrl_value(MAC_RAMP_VAR)); /* runner gap: hook */''"

definition old3 :: "string \<Rightarrow> (string \<times> string) option" where
  "old3 s = Option.bind (after OLD3_TEXT s) (\<lambda>r. if newline_at r \<noteq> None then Some (NEW3, r) else None)"

definition TEST_COMMANDS :: string where "TEST_COMMANDS = ''static int test_commands(''"

definition old4 :: "string \<Rightarrow> (string \<times> string) option" where
  "old4 s = Option.bind (newline_at s) (\<lambda>(nl1, r).
     Option.bind (after TEST_COMMANDS r) (\<lambda>r.
       Some (nl1 @ ''__attribute__((weak)) uint32_t u85_power_ctrl_value(uint32_t v) { return v; }''
             @ '' /* runner gap: weak default */'' @ nl1 @ TEST_COMMANDS, r)))"

definition once :: "(string \<Rightarrow> (string \<times> string) option) \<Rightarrow> string \<Rightarrow> string \<Rightarrow> exn + string" where
  "once m what s = (case subn m s of (out, n) \<Rightarrow> if n \<noteq> 1 then Inl (SystemExit what) else Inr out)"

definition generate_vendor :: "string \<Rightarrow> exn + string" where
  "generate_vendor txt =
     bind_res (once old1 ''anchor'' txt) (\<lambda>out.
     bind_res (once old2 ''test_u85 entry anchor'' out) (\<lambda>out.
     bind_res (once old3 ''POWER_CTRL anchor'' out) (\<lambda>out.
       once old4 ''test_commands anchor'' out)))"

text \<open>\<open>main\<close>; the file is ASCII.\<close>

definition patch_main :: "bytes \<Rightarrow> exn + string" where
  "patch_main base =
     (if sha256 base \<noteq> VENDOR_SHA256 then Inl (SystemExit ''vendor u85.c sha256 differs from the pinned original'')
      else generate_vendor (map (\<lambda>b. char_of (unat b)) base))"

section \<open>A single substitution\<close>

text \<open>A change puts \<open>new\<close> in the place of an anchor \<open>mid\<close> in front of \<open>post\<close>. \<open>replaced\<close> is the substitution at an anchor
  that stands nowhere else in the text: every other way to read an anchor there ends at the same place, further right.\<close>

type_synonym change = "string \<Rightarrow> string \<Rightarrow> string \<Rightarrow> bool"

definition anchored_at :: "change \<Rightarrow> string \<Rightarrow> string \<Rightarrow> string \<Rightarrow> bool" where
  "anchored_at R s pre post \<longleftrightarrow> (\<exists>mid new. s = pre @ mid @ post \<and> R mid new post)"

definition replaced :: "change \<Rightarrow> string \<Rightarrow> string \<Rightarrow> bool" where
  "replaced R s out \<longleftrightarrow>
     (\<exists>pre mid new post. s = pre @ mid @ post \<and> R mid new post \<and> out = pre @ new @ post
        \<and> (\<forall>pre' post'. anchored_at R s pre' post' \<longrightarrow> post' = post \<and> length pre \<le> length pre'))"

text \<open>The matcher of a pattern finds exactly the anchors of the change, and an anchor that starts inside another one ends
  with it.\<close>

locale anchor =
  fixes m :: "string \<Rightarrow> (string \<times> string) option" and R :: change
  assumes match: "m s = Some (new, r) \<longleftrightarrow> (\<exists>mid. s = mid @ r \<and> R mid new r)"
    and nonempty: "R mid new r \<Longrightarrow> mid \<noteq> []"
    and inner: "R mid new r \<Longrightarrow> anchored_at R (tl mid @ r) pre post \<Longrightarrow> post = r \<or> (\<exists>pre'. anchored_at R r pre' post)"
begin

lemma anchored_shorter: "anchored_at R s pre post \<Longrightarrow> length post < length s"
  using nonempty by (fastforce simp: anchored_at_def)

lemma anchored_Cons:
  "anchored_at R (c # cs) pre post \<longleftrightarrow>
     (pre = [] \<and> (\<exists>new. m (c # cs) = Some (new, post))) \<or> (\<exists>pre'. pre = c # pre' \<and> anchored_at R cs pre' post)"
  by (cases pre) (auto simp: anchored_at_def match)

lemma subn_rest:
  assumes "m (c # cs) = Some (new, r)"
  shows "subn m (c # cs) = (new @ fst (subn m r), Suc (snd (subn m r)))"
proof -
  from assms obtain mid where "c # cs = mid @ r" "R mid new r" by (auto simp: match)
  with nonempty obtain mid' where "cs = mid' @ r" by (cases mid) auto
  with assms show ?thesis by (simp split: prod.splits)
qed

lemma subn_none: "(snd (subn m s) = 0 \<longleftrightarrow> (\<forall>pre post. \<not> anchored_at R s pre post)) \<and> (snd (subn m s) = 0 \<longrightarrow> fst (subn m s) = s)"
proof (induction s)
  case Nil
  then show ?case using anchored_shorter by fastforce
next
  case (Cons c cs)
  show ?case
  proof (cases "m (c # cs)")
    case None
    with Cons.IH show ?thesis by (auto simp: anchored_Cons split: prod.splits)
  next
    case (Some p)
    then obtain new r where p: "m (c # cs) = Some (new, r)" by (cases p) auto
    then have "anchored_at R (c # cs) [] r" by (simp add: anchored_Cons)
    then show ?thesis unfolding subn_rest [OF p] by auto
  qed
qed

lemma replaced_Cons_None:
  assumes "m (c # cs) = None"
  shows "replaced R (c # cs) out \<longleftrightarrow> (\<exists>out'. out = c # out' \<and> replaced R cs out')"
proof
  assume "replaced R (c # cs) out"
  then obtain pre mid new post where r: "c # cs = pre @ mid @ post" "R mid new post" "out = pre @ new @ post"
    and u: "\<And>pre' post'. anchored_at R (c # cs) pre' post' \<Longrightarrow> post' = post \<and> length pre \<le> length pre'"
    unfolding replaced_def by blast
  have "pre \<noteq> []"
  proof
    assume "pre = []"
    then have "m (c # cs) = Some (new, post)" using r(1,2) by (auto simp: match)
    with assms show False by simp
  qed
  then obtain pre1 where p: "pre = c # pre1" "cs = pre1 @ mid @ post" using r(1) by (cases pre) auto
  have "post' = post \<and> length pre1 \<le> length pre'" if "anchored_at R cs pre' post'" for pre' post'
    using u [of "c # pre'" post'] that p(1) by (simp add: anchored_Cons)
  with p r show "\<exists>out'. out = c # out' \<and> replaced R cs out'" unfolding replaced_def by auto
next
  assume "\<exists>out'. out = c # out' \<and> replaced R cs out'"
  then obtain pre mid new post where r: "cs = pre @ mid @ post" "R mid new post" "out = c # pre @ new @ post"
    and u: "\<And>pre' post'. anchored_at R cs pre' post' \<Longrightarrow> post' = post \<and> length pre \<le> length pre'"
    unfolding replaced_def by blast
  have "post' = post \<and> length (c # pre) \<le> length pre'" if "anchored_at R (c # cs) pre' post'" for pre' post'
    using that assms u by (auto simp: anchored_Cons)
  then have "c # cs = (c # pre) @ mid @ post \<and> R mid new post \<and> out = (c # pre) @ new @ post
      \<and> (\<forall>pre' post'. anchored_at R (c # cs) pre' post' \<longrightarrow> post' = post \<and> length (c # pre) \<le> length pre')"
    using r by simp
  then show "replaced R (c # cs) out" unfolding replaced_def by blast
qed

lemma replaced_Cons_Some:
  assumes "m (c # cs) = Some (new, r)"
  shows "replaced R (c # cs) out \<longleftrightarrow> out = new @ r \<and> (\<forall>pre post. \<not> anchored_at R r pre post)"
proof -
  from assms obtain mid where mid: "c # cs = mid @ r" "R mid new r" by (auto simp: match)
  then obtain mid' where m: "mid = c # mid'" "cs = mid' @ r" using nonempty by (cases mid) auto
  have head: "anchored_at R (c # cs) [] r" using assms by (simp add: anchored_Cons)
  show ?thesis
  proof
    assume "replaced R (c # cs) out"
    then obtain pre mid1 new1 post where r: "c # cs = pre @ mid1 @ post" "R mid1 new1 post" "out = pre @ new1 @ post"
      and u: "\<And>pre' post'. anchored_at R (c # cs) pre' post' \<Longrightarrow> post' = post \<and> length pre \<le> length pre'"
      unfolding replaced_def by blast
    from u [OF head] have e: "r = post" "pre = []" by auto
    then have "m (c # cs) = Some (new1, r)" using r(1,2) by (auto simp: match)
    with assms have n: "new1 = new" by simp
    have False if "anchored_at R r pre' post'" for pre' post'
    proof -
      from that have "anchored_at R (c # cs) (mid @ pre') post'" unfolding mid(1) by (simp add: anchored_at_def)
      with u e(1) have "post' = r" by blast
      with anchored_shorter [OF that] show False by simp
    qed
    with r(3) e n show "out = new @ r \<and> (\<forall>pre post. \<not> anchored_at R r pre post)" by auto
  next
    assume o: "out = new @ r \<and> (\<forall>pre post. \<not> anchored_at R r pre post)"
    have "post' = r" if "anchored_at R (c # cs) pre' post'" for pre' post'
    proof -
      from that assms consider "post' = r" | pre1 where "anchored_at R (tl mid @ r) pre1 post'"
        by (auto simp: anchored_Cons m)
      then show ?thesis using inner [OF mid(2)] o by cases blast+
    qed
    then have "c # cs = [] @ mid @ r \<and> R mid new r \<and> out = [] @ new @ r
        \<and> (\<forall>pre' post'. anchored_at R (c # cs) pre' post' \<longrightarrow> post' = r \<and> length [] \<le> length pre')"
      using mid o by simp
    then show "replaced R (c # cs) out" unfolding replaced_def by blast
  qed
qed

lemma subn_one: "subn m s = (out, Suc 0) \<longleftrightarrow> replaced R s out"
proof (induction s arbitrary: out)
  case Nil
  then show ?case using nonempty by (auto simp: replaced_def dest: nonempty)
next
  case (Cons c cs)
  show ?case
  proof (cases "m (c # cs)")
    case None
    then have "subn m (c # cs) = (out, Suc 0) \<longleftrightarrow> (\<exists>out'. out = c # out' \<and> subn m cs = (out', Suc 0))"
      by (auto split: prod.splits)
    then show ?thesis unfolding Cons.IH replaced_Cons_None [OF None] .
  next
    case (Some p)
    then obtain new r where p: "m (c # cs) = Some (new, r)" by (cases p) auto
    show ?thesis unfolding subn_rest [OF p] replaced_Cons_Some [OF p] using subn_none [of r] by auto
  qed
qed

lemma once_replaced: "once m what s = Inr out \<longleftrightarrow> replaced R s out"
  unfolding subn_one [symmetric] by (auto simp: once_def split: prod.splits if_splits)

end

definition newline :: "string \<Rightarrow> bool" where
  "newline s \<longleftrightarrow> s = [CHR 0x0A] \<or> s = [CHR 0x0D, CHR 0x0A]"

lemma newline_at_Some: "newline_at s = Some (n, r) \<longleftrightarrow> s = n @ r \<and> newline n"
  by (auto simp: newline_at_def newline_def split: list.splits if_splits)

lemma newline_at_found: "(\<exists>p. newline_at s = Some p) \<longleftrightarrow> (\<exists>n r. s = n @ r \<and> newline n)"
  by (simp add: newline_at_Some split_paired_Ex)

definition change1 :: change where
  "change1 mid new post \<longleftrightarrow> mid = OLD_TEXT \<and> new = NEW \<and> (\<exists>n r. post = n @ r \<and> newline n)"

definition change2 :: change where
  "change2 mid new post \<longleftrightarrow> (\<exists>n1 n2. newline n1 \<and> newline n2 \<and> mid = ''{'' @ n1 @ RET_CODE @ n2
    \<and> new = ''{'' @ n1 @ RET_CODE @ '' irq_never_triggered = false; /* Tier C step 2: per-run, not per-boot */'' @ n2)"

definition change3 :: change where
  "change3 mid new post \<longleftrightarrow> mid = OLD3_TEXT \<and> new = NEW3 \<and> (\<exists>n r. post = n @ r \<and> newline n)"

definition change4 :: change where
  "change4 mid new post \<longleftrightarrow> (\<exists>n. newline n \<and> mid = n @ TEST_COMMANDS
    \<and> new = n @ ''__attribute__((weak)) uint32_t u85_power_ctrl_value(uint32_t v) { return v; }''
        @ '' /* runner gap: weak default */'' @ n @ TEST_COMMANDS)"

text \<open>An anchor whose first character stands nowhere else in it has no anchor inside.\<close>

lemma no_anchor_inside:
  assumes "anchored_at R (b @ r) pre post" and "\<And>mid new post. R mid new post \<Longrightarrow> mid \<noteq> [] \<and> hd mid \<notin> set b"
  shows "\<exists>pre'. anchored_at R r pre' post"
proof -
  from assms(1) obtain mid new where a: "b @ r = pre @ mid @ post" "R mid new post" by (auto simp: anchored_at_def)
  from a(1) obtain us where "b = pre @ us \<and> us @ r = mid @ post \<or> b @ us = pre \<and> r = us @ mid @ post"
    unfolding append_eq_append_conv2 by blast
  then show ?thesis
  proof
    assume u: "b = pre @ us \<and> us @ r = mid @ post"
    have "us = []" using u assms(2) [OF a(2)] by (cases us; cases mid) auto
    with u have "r = [] @ mid @ post" by simp
    with a(2) show ?thesis unfolding anchored_at_def by blast
  next
    assume "b @ us = pre \<and> r = us @ mid @ post"
    with a(2) show ?thesis by (auto simp: anchored_at_def)
  qed
qed

interpretation a1: anchor old1 change1
proof
  show "old1 s = Some (new, r) \<longleftrightarrow> (\<exists>mid. s = mid @ r \<and> change1 mid new r)" for s new r
    by (auto simp: old1_def change1_def bind_eq_Some_conv after_Some newline_at_Some)
  show "change1 mid new r \<Longrightarrow> mid \<noteq> []" for mid new r by (simp add: change1_def OLD_TEXT_def)
  show "post = r \<or> (\<exists>pre'. anchored_at change1 r pre' post)"
    if "change1 mid new r" "anchored_at change1 (tl mid @ r) pre post" for mid new r pre post
    using no_anchor_inside [OF that(2)] that(1) by (auto simp: change1_def OLD_TEXT_def)
qed

interpretation a2: anchor old2 change2
proof
  show "old2 s = Some (new, r) \<longleftrightarrow> (\<exists>mid. s = mid @ r \<and> change2 mid new r)" for s new r
    by (fastforce simp: old2_def change2_def bind_eq_Some_conv after_Some newline_at_Some)
  show "change2 mid new r \<Longrightarrow> mid \<noteq> []" for mid new r by (auto simp: change2_def)
  show "post = r \<or> (\<exists>pre'. anchored_at change2 r pre' post)"
    if "change2 mid new r" "anchored_at change2 (tl mid @ r) pre post" for mid new r pre post
  proof -
    have "CHR ''{'' \<notin> set (tl mid)" using that(1) by (auto simp: change2_def newline_def RET_CODE_def)
    moreover have "mid \<noteq> [] \<and> hd mid = CHR ''{''" if "change2 mid new post" for mid new post
      using that by (auto simp: change2_def)
    ultimately show ?thesis using no_anchor_inside [OF that(2)] by metis
  qed
qed

interpretation a3: anchor old3 change3
proof
  show "old3 s = Some (new, r) \<longleftrightarrow> (\<exists>mid. s = mid @ r \<and> change3 mid new r)" for s new r
    by (auto simp: old3_def change3_def bind_eq_Some_conv after_Some newline_at_Some)
  show "change3 mid new r \<Longrightarrow> mid \<noteq> []" for mid new r by (simp add: change3_def OLD3_TEXT_def)
  show "post = r \<or> (\<exists>pre'. anchored_at change3 r pre' post)"
    if "change3 mid new r" "anchored_at change3 (tl mid @ r) pre post" for mid new r pre post
    using no_anchor_inside [OF that(2)] that(1) by (auto simp: change3_def OLD3_TEXT_def)
qed

lemma change4_inside:
  assumes "change4 mid new r" and "anchored_at change4 (tl mid @ r) pre post"
  shows "post = r \<or> (\<exists>pre'. anchored_at change4 r pre' post)"
proof -
  have plain: "\<exists>pre'. anchored_at change4 r pre' post" if "anchored_at change4 (TEST_COMMANDS @ r) pre' post" for pre'
    by (rule no_anchor_inside [OF that]) (auto simp: change4_def newline_def TEST_COMMANDS_def)
  from assms(1) obtain n where n: "newline n" "mid = n @ TEST_COMMANDS" by (auto simp: change4_def)
  from n(1) consider "tl mid = TEST_COMMANDS" | "tl mid = CHR 0x0A # TEST_COMMANDS" by (auto simp: n(2) newline_def)
  then show ?thesis
  proof cases
    case 1
    with assms(2) plain show ?thesis by auto
  next
    case 2
    show ?thesis
    proof (cases pre)
      case Nil
      with assms(2) 2 have "post = r" by (auto simp: anchored_at_def change4_def newline_def)
      then show ?thesis ..
    next
      case (Cons c pre')
      with assms(2) 2 have "anchored_at change4 (TEST_COMMANDS @ r) pre' post" by (auto simp: anchored_at_def)
      with plain show ?thesis by blast
    qed
  qed
qed

interpretation a4: anchor old4 change4
proof
  show "old4 s = Some (new, r) \<longleftrightarrow> (\<exists>mid. s = mid @ r \<and> change4 mid new r)" for s new r
    by (fastforce simp: old4_def change4_def bind_eq_Some_conv after_Some newline_at_Some)
  show "change4 mid new r \<Longrightarrow> mid \<noteq> []" for mid new r by (auto simp: change4_def newline_def)
qed (rule change4_inside)

section \<open>What later changes keep\<close>

lemma occurs_in_iff: "occurs_in p s \<longleftrightarrow> (\<exists>a b. s = a @ p @ b)"
proof
  assume "occurs_in p s"
  then obtain i where "find_sub p s = Some i" by (auto simp: occurs_in_def)
  from find_sub_Some [OF this] have "prefix p (drop i s)" by blast
  then obtain b where "drop i s = p @ b" by (auto simp: prefix_def)
  then have "s = take i s @ p @ b" by (metis append_take_drop_id)
  then show "\<exists>a b. s = a @ p @ b" by blast
next
  assume "\<exists>a b. s = a @ p @ b"
  then obtain a b where "s = a @ p @ b" by blast
  then have "prefix p (drop (length a) s)" by simp
  then show "occurs_in p s" using find_sub_None [of p s "length a"] by (auto simp: occurs_in_def)
qed

lemma occurs_kept:
  assumes "occurs_in p s" and "replaced R s out" and "p \<noteq> []"
    and "\<And>mid new post. R mid new post \<Longrightarrow> mid \<noteq> [] \<and> hd p \<notin> set mid \<and> hd mid \<notin> set p"
  shows "occurs_in p out"
proof -
  from assms(1) obtain a b where ab: "s = a @ p @ b" by (auto simp: occurs_in_iff)
  from assms(2) obtain pre mid new post where r: "s = pre @ mid @ post" "R mid new post" "out = pre @ new @ post"
    by (auto simp: replaced_def)
  note side = assms(4) [OF r(2)]
  from ab r(1) have "a @ (p @ b) = pre @ (mid @ post)" by simp
  then obtain us where "a = pre @ us \<and> us @ p @ b = mid @ post \<or> a @ us = pre \<and> p @ b = us @ mid @ post"
    unfolding append_eq_append_conv2 by blast
  then consider (late) "us @ p @ b = mid @ post" | (early) "a @ us = pre" "us @ mid @ post = p @ b" by fastforce
  then show ?thesis
  proof cases
    case late
    then obtain vs where "us = mid @ vs \<and> vs @ p @ b = post \<or> us @ vs = mid \<and> p @ b = vs @ post"
      unfolding append_eq_append_conv2 by blast
    then show ?thesis
    proof
      assume "us = mid @ vs \<and> vs @ p @ b = post"
      then have "out = (pre @ new @ vs) @ p @ b" using r(3) by simp
      then show ?thesis unfolding occurs_in_iff by blast
    next
      assume v: "us @ vs = mid \<and> p @ b = vs @ post"
      show ?thesis
      proof (cases vs)
        case Nil
        with v have "out = (pre @ new) @ p @ b" using r(3) by simp
        then show ?thesis unfolding occurs_in_iff by blast
      next
        case (Cons x vs')
        with v assms(3) have "hd p = x" "x \<in> set mid" by (cases p; auto)+
        with side show ?thesis by simp
      qed
    qed
  next
    case early
    then obtain vs where "us = p @ vs \<and> vs @ mid @ post = b \<or> us @ vs = p \<and> mid @ post = vs @ b"
      unfolding append_eq_append_conv2 by blast
    then show ?thesis
    proof
      assume "us = p @ vs \<and> vs @ mid @ post = b"
      then have "out = a @ p @ (vs @ new @ post)" using r(3) early(1) by auto
      then show ?thesis unfolding occurs_in_iff by blast
    next
      assume v: "us @ vs = p \<and> mid @ post = vs @ b"
      show ?thesis
      proof (cases vs)
        case Nil
        with v have "out = a @ p @ (new @ post)" using r(3) early(1) by auto
        then show ?thesis unfolding occurs_in_iff by blast
      next
        case (Cons x vs')
        with v side have "hd mid = x" "x \<in> set p" by (cases mid; auto)+
        with side show ?thesis by simp
      qed
    qed
  qed
qed

lemma occurs_new: "replaced R s out \<Longrightarrow> (\<And>mid new post. R mid new post \<Longrightarrow> \<exists>x. new = p @ x) \<Longrightarrow> occurs_in p out"
  unfolding replaced_def occurs_in_iff by (metis append.assoc)

section \<open>Properties\<close>

text \<open>C31. The vendor source is generated exactly when each of the four anchors stands at one place only of the text it is
  looked for in, and it is the base with the four changes made there: the raised timeout, the reset of the interrupt
  flag at the entry of the test, the routed power-control write, and the weak default of the hook (the first line of
  the script's docstring speaks of one change, the timeout). It then meets the two rules that the gate over the runner
  image puts on the vendor source.\<close>

theorem vendor_patch_meets_gate:
  "(generate_vendor txt = Inr out \<longleftrightarrow>
     (\<exists>s1 s2 s3. replaced change1 txt s1 \<and> replaced change2 s1 s2 \<and> replaced change3 s2 s3 \<and> replaced change4 s3 out))
   \<and> (case generate_vendor txt of Inl e \<Rightarrow> \<exists>what. e = SystemExit what
      | Inr out' \<Rightarrow> occurs_in RAISED_TIMEOUT out' \<and> occurs_in POWER_CTRL_HOOK out')"
proof
  have exact: "generate_vendor txt = Inr o' \<longleftrightarrow>
     (\<exists>s1 s2 s3. replaced change1 txt s1 \<and> replaced change2 s1 s2 \<and> replaced change3 s2 s3 \<and> replaced change4 s3 o')" for o'
    unfolding generate_vendor_def bind_res_eq_Inr a1.once_replaced a2.once_replaced a3.once_replaced a4.once_replaced by blast
  then show "generate_vendor txt = Inr out \<longleftrightarrow>
     (\<exists>s1 s2 s3. replaced change1 txt s1 \<and> replaced change2 s1 s2 \<and> replaced change3 s2 s3 \<and> replaced change4 s3 out)" .
  show "case generate_vendor txt of Inl e \<Rightarrow> \<exists>what. e = SystemExit what
      | Inr out' \<Rightarrow> occurs_in RAISED_TIMEOUT out' \<and> occurs_in POWER_CTRL_HOOK out'"
  proof (cases "generate_vendor txt")
    case (Inl e)
    then show ?thesis
      by (auto simp: generate_vendor_def once_def bind_res_def split: sum.splits prod.splits if_splits)
  next
    case (Inr out')
    with exact obtain s1 s2 s3 where
      s: "replaced change1 txt s1" "replaced change2 s1 s2" "replaced change3 s2 s3" "replaced change4 s3 out'" by blast
    have t1: "occurs_in RAISED_TIMEOUT s1"
      by (rule occurs_new [OF s(1)]) (simp add: change1_def NEW_def RAISED_TIMEOUT_def)
    have t2: "occurs_in RAISED_TIMEOUT s2"
      by (rule occurs_kept [OF t1 s(2)]) (auto simp: change2_def RAISED_TIMEOUT_def RET_CODE_def newline_def)
    have t3: "occurs_in RAISED_TIMEOUT s3"
      by (rule occurs_kept [OF t2 s(3)]) (auto simp: change3_def RAISED_TIMEOUT_def OLD3_TEXT_def)
    have t4: "occurs_in RAISED_TIMEOUT out'"
      by (rule occurs_kept [OF t3 s(4)]) (auto simp: change4_def RAISED_TIMEOUT_def TEST_COMMANDS_def newline_def)
    have h3: "occurs_in POWER_CTRL_HOOK s3"
      by (rule occurs_new [OF s(3)]) (simp add: change3_def NEW3_def POWER_CTRL_HOOK_def)
    have h4: "occurs_in POWER_CTRL_HOOK out'"
      by (rule occurs_kept [OF h3 s(4)]) (auto simp: change4_def POWER_CTRL_HOOK_def TEST_COMMANDS_def newline_def)
    show ?thesis using t4 h4 by (simp add: Inr)
  qed
qed

end
