(* ===== verification/Pmu_Regs.thy ===== *)
theory Pmu_Regs
  imports Py_Text
begin

text \<open>
  \<open>firmware/common/gen_npu_pmu_regs.py\<close>: reading the geometry of the PMU registers out of the driver's C header, and
  the header generated from it. The text of the driver's header is the argument. Each regular expression is a matcher
  that returns what it captures and the text it leaves.
\<close>

unbundle bit_operations_syntax

section \<open>Matchers\<close>

text \<open>\<open>\s+\<close> and \<open>\s*\<close> before a character that is no blank.\<close>

definition blanks1 :: "string \<Rightarrow> string option" where
  "blanks1 s = (case s of [] \<Rightarrow> None | c # cs \<Rightarrow> if is_blank c then Some (dropWhile is_blank cs) else None)"

definition blanks0 :: "string \<Rightarrow> string" where
  "blanks0 = dropWhile is_blank"

text \<open>A greedy run of at least one character of a class.\<close>

definition run1 :: "(char \<Rightarrow> bool) \<Rightarrow> string \<Rightarrow> (string \<times> string) option" where
  "run1 p s = (case s of [] \<Rightarrow> None | c # _ \<Rightarrow> if p c then Some (takeWhile p s, dropWhile p s) else None)"

text \<open>\<open>re.findall\<close>: non-overlapping matches from the left. A matcher leaves a proper end of what it is given.\<close>

function find_all :: "(string \<Rightarrow> ('a \<times> string) option) \<Rightarrow> string \<Rightarrow> 'a list" where
  "find_all m [] = []"
| "find_all m (c # cs) =
     (case m (c # cs) of
        None \<Rightarrow> find_all m cs
      | Some (v, rest) \<Rightarrow> v # find_all m (drop (length cs - length rest) cs))"
  by pat_completeness auto
termination by (relation "measure (\<lambda>(_, s). length s)") auto

section \<open>Bit fields of a register\<close>

text \<open>\<open>\{(.+?)\n\};\<close>, the body of a struct or an enumeration: at least one character, up to the first end.\<close>

definition braced :: "string \<Rightarrow> string option" where
  "braced s = Option.bind (after ''{'' s) (\<lambda>r. case r of [] \<Rightarrow> None
     | c # cs \<Rightarrow> map_option (\<lambda>i. c # take i cs) (find_sub (CHR 0x0A # ''};'') cs))"

fun first_match :: "(string \<Rightarrow> 'a option) \<Rightarrow> string \<Rightarrow> 'a option" where
  "first_match m [] = m []"
| "first_match m (c # cs) = (case m (c # cs) of Some v \<Rightarrow> Some v | None \<Rightarrow> first_match m cs)"

definition struct_at :: "string \<Rightarrow> string \<Rightarrow> string option" where
  "struct_at name s = Option.bind (after (''struct '' @ name) s) (\<lambda>r. braced (blanks0 r))"

text \<open>\<open>uint32_t\s+(\w+)\s*:\s*(\d+)\s*;\<close>\<close>

definition field_at :: "string \<Rightarrow> ((string \<times> int) \<times> string) option" where
  "field_at s =
     Option.bind (Option.bind (after ''uint32_t'' s) blanks1) (\<lambda>r.
     Option.bind (run1 is_word r) (\<lambda>(name, r).
     Option.bind (after '':'' (blanks0 r)) (\<lambda>r.
     Option.bind (run1 is_digit (blanks0 r)) (\<lambda>(width, r).
     Option.bind (after '';'' (blanks0 r)) (\<lambda>r.
       Some ((name, numeral_value 10 width), r))))))"

type_synonym bitfield = "string \<times> int \<times> int"

fun lay_out :: "int \<Rightarrow> int \<Rightarrow> (string \<times> int) list \<Rightarrow> bitfield list" where
  "lay_out reg_bits shift [] = []"
| "lay_out reg_bits shift ((name, width) # fs) =
     (if shift \<ge> reg_bits then [] else (name, shift, width) # lay_out reg_bits (shift + width) fs)"

definition bitfields :: "string \<Rightarrow> string \<Rightarrow> int \<Rightarrow> exn + bitfield list" where
  "bitfields txt struct_name reg_bits =
     (case first_match (struct_at struct_name) txt of
        None \<Rightarrow> Inl (SystemExit ''struct not found'')
      | Some body \<Rightarrow> Inr (lay_out reg_bits 0 (find_all field_at body)))"

definition named :: "string \<Rightarrow> bitfield list \<Rightarrow> bitfield list" where
  "named name fs = filter (\<lambda>f. fst f = name) fs"

definition one_field :: "bitfield list \<Rightarrow> string \<Rightarrow> exn + int" where
  "one_field fields name =
     (case named name fields of
        [(_, shift, width)] \<Rightarrow>
          if width \<noteq> 1 then Inl (SystemExit ''expected a 1-bit field'')
          else if \<not> (0 \<le> shift \<and> shift \<le> 31) then Inl (SystemExit ''shift out of range'')
          else Inr shift
      | _ \<Rightarrow> Inl (SystemExit ''expected exactly 1 field''))"

section \<open>Register offsets\<close>

definition WANTED :: "string list" where
  "WANTED = [''NPU_REG_PMCR'', ''NPU_REG_PMCNTENSET'', ''NPU_REG_PMCNTENCLR'', ''NPU_REG_PMOVSSET'', ''NPU_REG_PMOVSCLR'',
     ''NPU_REG_PMINTSET'', ''NPU_REG_PMINTCLR'', ''NPU_REG_PMCCNTR'', ''NPU_REG_PMCCNTR_HI'', ''NPU_REG_PMCCNTR_CFG'',
     ''NPU_REG_PMEVCNTR_BASE'', ''NPU_REG_PMEVCNTR_ARRLEN'', ''NPU_REG_PMEVTYPER_BASE'', ''NPU_REG_PMEVTYPER_ARRLEN'']"

text \<open>\<open>\s*$\<close> with \<open>re.M\<close>: blanks up to the end of the text or over a line end.\<close>

definition blank_to_eol :: "string \<Rightarrow> bool" where
  "blank_to_eol s \<longleftrightarrow> blanks0 s = [] \<or> CHR 0x0A \<in> set (takeWhile is_blank s)"

text \<open>\<open>0x[0-9A-Fa-f]+|\d+\<close>\<close>

definition number_at :: "string \<Rightarrow> (string \<times> string) option" where
  "number_at s = (case Option.bind (after ''0x'' s) (run1 is_hex) of
       Some (ds, r) \<Rightarrow> Some (''0x'' @ ds, r)
     | None \<Rightarrow> run1 is_digit s)"

definition define_at :: "string \<Rightarrow> string \<Rightarrow> string option" where
  "define_at name s =
     Option.bind (Option.bind (after ''#define'' s) blanks1) (\<lambda>r.
     Option.bind (Option.bind (after name r) blanks1) (\<lambda>r.
     Option.bind (number_at r) (\<lambda>(v, r). if blank_to_eol r then Some v else None)))"

text \<open>The matches of a pattern that begins with \<open>^\<close>; none spans the start of another.\<close>

fun line_matches :: "(string \<Rightarrow> 'a option) \<Rightarrow> bool \<Rightarrow> string \<Rightarrow> 'a list" where
  "line_matches m bol [] = []"
| "line_matches m bol (c # cs) =
     (case if bol then m (c # cs) else None of None \<Rightarrow> [] | Some v \<Rightarrow> [v]) @ line_matches m (c = CHR 0x0A) cs"

fun offsets_of :: "string \<Rightarrow> string list \<Rightarrow> exn + (string, int) dict" where
  "offsets_of txt [] = Inr []"
| "offsets_of txt (name # names) =
     (case line_matches (define_at name) True txt of
        [v] \<Rightarrow> bind_res (int_base0 v) (\<lambda>n. bind_res (offsets_of txt names) (\<lambda>d. Inr ((name, n) # d)))
      | _ \<Rightarrow> Inl (SystemExit ''expected 1 definition''))"

section \<open>Events\<close>

text \<open>\<open>enum class pmu_event\s*:\s*\w+\s*\{\<close> and the body\<close>

definition enum_at :: "string \<Rightarrow> string option" where
  "enum_at s =
     Option.bind (after ''enum class pmu_event'' s) (\<lambda>r.
     Option.bind (after '':'' (blanks0 r)) (\<lambda>r.
     Option.bind (run1 is_word (blanks0 r)) (\<lambda>(_, r). braced (blanks0 r))))"

text \<open>\<open>(\w+)\s*=\s*(\d+)\s*,\<close>\<close>

definition member_at :: "string \<Rightarrow> ((string \<times> int) \<times> string) option" where
  "member_at s =
     Option.bind (run1 is_word s) (\<lambda>(name, r).
     Option.bind (after ''='' (blanks0 r)) (\<lambda>r.
     Option.bind (run1 is_digit (blanks0 r)) (\<lambda>(v, r).
     Option.bind (after '','' (blanks0 r)) (\<lambda>r. Some ((name, numeral_value 10 v), r)))))"

fun events_of :: "(string, int) dict \<Rightarrow> (string \<times> int) list \<Rightarrow> exn + (string, int) dict" where
  "events_of d [] = Inr d"
| "events_of d ((name, v) # ms) =
     (if map_of d name \<noteq> None \<and> map_of d name \<noteq> Some v then Inl (SystemExit ''defined twice with different values'')
      else events_of (dict_put name v d) ms)"

section \<open>Extraction\<close>

definition PMCR_FIELDS :: "string list" where
  "PMCR_FIELDS = [''cnt_en'', ''event_cnt_rst'', ''cycle_cnt_rst'', ''mask_en'', ''num_event_cnt'']"

fun bits_of :: "bitfield list \<Rightarrow> string list \<Rightarrow> exn + bitfield list" where
  "bits_of pmcr [] = Inr []"
| "bits_of pmcr (need # needs) =
     (case named need pmcr of
        [f] \<Rightarrow> bind_res (bits_of pmcr needs) (\<lambda>d. Inr (f # d))
      | _ \<Rightarrow> Inl (SystemExit ''pmcr_r''))"

definition cfg_field :: "bitfield list \<Rightarrow> string \<Rightarrow> exn + int \<times> int" where
  "cfg_field fields want =
     (case named want fields of
        [(_, shift, width)] \<Rightarrow>
          if width \<noteq> 10 \<or> \<not> (0 \<le> shift \<and> shift \<le> 31) \<or> shift + width > 32
          then Inl (SystemExit ''out of contract'') else Inr (shift, width)
      | _ \<Rightarrow> Inl (SystemExit ''pmccntr_cfg_r''))"

definition event_in :: "(string, int) dict \<Rightarrow> int \<Rightarrow> string \<Rightarrow> exn + int" where
  "event_in events width need =
     (case map_of events need of
        None \<Rightarrow> Inl (SystemExit ''refusing to guess'')
      | Some v \<Rightarrow> if \<not> (0 \<le> v \<and> v < push_bit (nat width) 1) then Inl (SystemExit ''does not fit the CFG field'') else Inr v)"

record regs =
  rg_found :: "(string, int) dict"
  rg_bits :: "bitfield list"
  rg_cycle_width :: int
  rg_cnten_shift :: int
  rg_ovf_shift :: int
  rg_start :: "int \<times> int"
  rg_stop :: "int \<times> int"
  rg_event_cycle :: int
  rg_event_none :: int

definition extract_regs :: "string \<Rightarrow> exn + regs" where
  "extract_regs txt =
     bind_res (offsets_of txt WANTED) (\<lambda>found.
     bind_res (bitfields txt ''pmcr_r'' 32) (\<lambda>pmcr.
     bind_res (bits_of pmcr PMCR_FIELDS) (\<lambda>bits.
     bind_res (bind_res (bitfields txt ''pmcntenset_r'' 32) (\<lambda>fs. one_field fs ''CYCLE_CNT'')) (\<lambda>enset.
     bind_res (bind_res (bitfields txt ''pmcntenclr_r'' 32) (\<lambda>fs. one_field fs ''CYCLE_CNT'')) (\<lambda>enclr.
     bind_res (bind_res (bitfields txt ''pmovsset_r'' 32) (\<lambda>fs. one_field fs ''CYCLE_CNT_OVF'')) (\<lambda>ovset.
     bind_res (bind_res (bitfields txt ''pmovsclr_r'' 32) (\<lambda>fs. one_field fs ''CYCLE_CNT_OVF'')) (\<lambda>ovclr.
     if enset \<noteq> enclr then Inl (SystemExit ''cycle bit disagree'')
     else if ovset \<noteq> ovclr then Inl (SystemExit ''overflow bit disagree'')
     else
     bind_res (bitfields txt ''pmccntr_cfg_r'' 32) (\<lambda>cfg.
     bind_res (cfg_field cfg ''CYCLE_CNT_CFG_START'') (\<lambda>start.
     bind_res (cfg_field cfg ''CYCLE_CNT_CFG_STOP'') (\<lambda>stop.
     if fst start = fst stop then Inl (SystemExit ''overlap'')
     else case first_match enum_at txt of
       None \<Rightarrow> Inl (SystemExit ''enum class pmu_event not found'')
     | Some body \<Rightarrow>
     bind_res (events_of [] (find_all member_at body)) (\<lambda>events.
     bind_res (event_in events (snd start) ''CYCLE'') (\<lambda>cyc.
     bind_res (event_in events (snd start) ''NO_EVENT'') (\<lambda>none.
     bind_res (bitfields txt ''pmccntr_r'' 64) (\<lambda>cc.
     let widths = map_of (rev (map (\<lambda>(n, _, w). (n, w)) (filter (\<lambda>(n, _, _). prefix ''CYCLE_CNT_'' n) cc)))
     in if widths ''CYCLE_CNT_LO'' \<noteq> Some 32 then Inl (SystemExit ''CYCLE_CNT_LO width'')
        else if widths ''CYCLE_CNT_HI'' \<noteq> Some 16 then Inl (SystemExit ''CYCLE_CNT_HI width'')
        else Inr \<lparr>rg_found = found, rg_bits = bits, rg_cycle_width = the (widths ''CYCLE_CNT_LO'') + the (widths ''CYCLE_CNT_HI''),
               rg_cnten_shift = enset, rg_ovf_shift = ovset, rg_start = start, rg_stop = stop,
               rg_event_cycle = cyc, rg_event_none = none\<rparr>))))))))))))))"

section \<open>The generated header\<close>

definition SDK_HEADER :: string where
  "SDK_HEADER = ''/opt/arm/ml-embedded-evaluation-kit/dependencies/core-driver/src/ethosu85_interface.h''"

definition range_mask :: "int \<times> int \<Rightarrow> int" where
  "range_mask r = push_bit (nat (fst r)) (push_bit (nat (snd r)) 1 - 1)"

definition header_top :: "string list" where
  "header_top =
    [''/* GENERATED by common/gen_npu_pmu_regs.py -- do not edit.'',
     '' *'',
     '' * Extracted from the Ethos-U core driver's register map:'',
     '' *   '' @ SDK_HEADER,
     '' *'',
     '' * The driver is NOT linked; only the register geometry is borrowed,'',
     '' * and check mode re-verifies it against the vendor header.'',
     '' *'',
     '' * EVERY cycle-counter bit below comes from ITS OWN register struct.'',
     '' * Deriving one from another is what produced the milestone-1 defect:'',
     '' * the cycle bit was computed as 1<<8 from the event-counter count,'',
     '' * but 8 event bits are followed by 23 reserved bits, so the real'',
     '' * position is 31. Bit 8 is reserved and reads as zero, which made a'',
     '' * wrapped counter look overflow-free.'',
     '' */'',
     ''#ifndef NPU_PMU_REGS_H'',
     ''#define NPU_PMU_REGS_H'',
     [],
     ''/* Register offsets, relative to the NPU base (U85_BASE_ADDRESS). */'']"

text \<open>\<open>%-28s\<close> and \<open>str.upper\<close>.\<close>

definition left28 :: "string \<Rightarrow> string" where
  "left28 s = s @ replicate (28 - length s) CHR '' ''"

definition upper :: "string \<Rightarrow> string" where
  "upper s = map (\<lambda>c. if among CHR ''a'' CHR ''z'' c then char_of (of_char c - 32 :: nat) else c) s"

definition header_offsets :: "regs \<Rightarrow> string list" where
  "header_offsets r = map (\<lambda>name. ''#define '' @ left28 name @ '' 0x'' @ hex_upper 4 (the (map_of (rg_found r) name)) @ ''U'')
     (filter (\<lambda>name. \<not> suffix ''ARRLEN'' name) WANTED)"

definition header_counters :: "regs \<Rightarrow> string list" where
  "header_counters r =
    [[],
     ''#define NPU_PMU_EVENT_COUNTERS_MAX   '' @ decimal (the (map_of (rg_found r) ''NPU_REG_PMEVCNTR_ARRLEN'')) @ ''U'',
     ''#define NPU_PMU_EVENT_COUNTER_WIDTH  32U'',
     [],
     ''/* Cycle counter is '' @ decimal (rg_cycle_width r) @ '' bits (LO 32 + HI 16), NOT 64. */'',
     ''#define NPU_PMU_CYCLE_COUNTER_WIDTH  '' @ decimal (rg_cycle_width r) @ ''U'',
     ''#define NPU_PMU_CYCLE_HI_VALID_BITS  16U'',
     []]"

definition header_pmcr :: "regs \<Rightarrow> string list" where
  "header_pmcr r = concat (map (\<lambda>(name, shift, width).
      [''#define NPU_PMCR_'' @ upper name @ ''_POS '' @ decimal shift @ ''U'',
       ''#define NPU_PMCR_'' @ upper name @ ''_MSK 0x'' @ hex_upper 8 (range_mask (shift, width)) @ ''U'']) (rg_bits r))"

definition header_cycle :: "regs \<Rightarrow> string list" where
  "header_cycle r =
    [[],
     ''/* Per-register cycle bits. Never derived from the counter count. */'',
     ''#define NPU_PMU_PMCNTEN_CYCLE_SHIFT   '' @ decimal (rg_cnten_shift r) @ ''U'',
     ''#define NPU_PMU_PMCNTEN_CYCLE_MASK    (1U << NPU_PMU_PMCNTEN_CYCLE_SHIFT)'',
     ''#define NPU_PMU_PMOVS_CYCLE_OVF_SHIFT '' @ decimal (rg_ovf_shift r) @ ''U'',
     ''#define NPU_PMU_PMOVS_CYCLE_OVF_MASK  (1U << NPU_PMU_PMOVS_CYCLE_OVF_SHIFT)'',
     [],
     ''/* Cycle-counter gating. The value is COMPOSED from the extracted'',
     '' * field positions and event numbers -- 0x11 is never written into'',
     '' * the source. It only appears in the static assertion below, as a'',
     '' * cross-check against the independently published encoding. */'',
     ''#define NPU_PMU_PMCCNTR_CFG_START_SHIFT '' @ decimal (fst (rg_start r)) @ ''U'',
     ''#define NPU_PMU_PMCCNTR_CFG_START_MASK  0x'' @ hex_upper 8 (range_mask (rg_start r)) @ ''U'',
     ''#define NPU_PMU_PMCCNTR_CFG_STOP_SHIFT  '' @ decimal (fst (rg_stop r)) @ ''U'',
     ''#define NPU_PMU_PMCCNTR_CFG_STOP_MASK   0x'' @ hex_upper 8 (range_mask (rg_stop r)) @ ''U'',
     ''#define NPU_PMU_EVENT_CYCLE             '' @ decimal (rg_event_cycle r) @ ''U'',
     ''#define NPU_PMU_EVENT_NO_EVENT          '' @ decimal (rg_event_none r) @ ''U'',
     ''#define NPU_PMU_CYCLE_CFG_VALUE '' @ [CHR 0x5C],
     ''    (((NPU_PMU_EVENT_CYCLE    << NPU_PMU_PMCCNTR_CFG_START_SHIFT) & NPU_PMU_PMCCNTR_CFG_START_MASK) | '' @ [CHR 0x5C],
     ''     ((NPU_PMU_EVENT_NO_EVENT << NPU_PMU_PMCCNTR_CFG_STOP_SHIFT)  & NPU_PMU_PMCCNTR_CFG_STOP_MASK))'',
     []]"

definition header_asserts :: "string list" where
  "header_asserts =
    [''_Static_assert(NPU_PMU_EVENT_CYCLE == 17u, '' @ [CHR 0x22] @ ''unexpected CYCLE event'' @ [CHR 0x22] @ '');'',
     ''_Static_assert(NPU_PMU_EVENT_NO_EVENT == 0u, '' @ [CHR 0x22] @ ''unexpected NO_EVENT'' @ [CHR 0x22] @ '');'',
     ''_Static_assert(NPU_PMU_CYCLE_CFG_VALUE == 0x11u,'',
     ''               '' @ [CHR 0x22] @ ''cycle counter configuration disagrees with the known encoding'' @ [CHR 0x22] @ '');'',
     ''_Static_assert(NPU_PMU_CYCLE_COUNTER_WIDTH == 48, '' @ [CHR 0x22] @ ''unexpected PMU cycle width'' @ [CHR 0x22] @ '');'',
     ''_Static_assert(NPU_PMU_EVENT_COUNTERS_MAX == 8, '' @ [CHR 0x22] @ ''ABI event slot count changed'' @ [CHR 0x22] @ '');'',
     ''_Static_assert(NPU_PMU_PMCNTEN_CYCLE_SHIFT >= NPU_PMU_EVENT_COUNTERS_MAX,'',
     ''               '' @ [CHR 0x22] @ ''PMCNTEN cycle bit overlaps the event-counter range'' @ [CHR 0x22] @ '');'',
     ''_Static_assert(NPU_PMU_PMOVS_CYCLE_OVF_SHIFT >= NPU_PMU_EVENT_COUNTERS_MAX,'',
     ''               '' @ [CHR 0x22] @ ''PMOVS overflow bit overlaps the event-counter range'' @ [CHR 0x22] @ '');'',
     ''_Static_assert(NPU_PMU_PMCNTEN_CYCLE_SHIFT == NPU_PMU_PMOVS_CYCLE_OVF_SHIFT,'',
     ''               '' @ [CHR 0x22] @ ''cycle enable and overflow bits must share a position'' @ [CHR 0x22] @ '');'',
     ''/* Cross-check against the independently known encoding, exactly as'',
     '' * NPU_PMU_CYCLE_CFG_VALUE == 0x11 above. The positional rules cannot'',
     '' * catch every cycle bit being moved to the same wrong place at once:'',
     '' * bit 8 sits above the event range and the registers still agree with'',
     '' * each other. Only pinning the known value closes that. This is a'',
     '' * cross-check, NOT the source -- the value is still extracted. */'',
     ''_Static_assert(NPU_PMU_PMCNTEN_CYCLE_SHIFT == 31u,'',
     ''               '' @ [CHR 0x22] @ ''cycle enable bit is not at the known position 31'' @ [CHR 0x22] @ '');'',
     [],
     ''#endif /* NPU_PMU_REGS_H */'',
     []]"

fun joined_lines :: "string list \<Rightarrow> string" where
  "joined_lines [] = []"
| "joined_lines [l] = l"
| "joined_lines (l # ls) = l @ CHR 0x0A # joined_lines ls"

definition render :: "regs \<Rightarrow> string" where
  "render r = joined_lines (header_top @ header_offsets r @ header_counters r @ header_pmcr r @ header_cycle r @ header_asserts)"

text \<open>\<open>--check\<close>: exit 0 exactly for an unchanged header; the file that cannot be read is \<open>None\<close>.\<close>

definition check_header :: "string \<Rightarrow> string option \<Rightarrow> exn + int" where
  "check_header sdk have_text = bind_res (extract_regs sdk) (\<lambda>r.
     Inr (case have_text of None \<Rightarrow> 1 | Some t \<Rightarrow> if t \<noteq> render r then 1 else 0))"

section \<open>Fields do not overlap\<close>

definition field_mask :: "bitfield \<Rightarrow> int" where
  "field_mask f = range_mask (snd f)"

abbreviation ends_before :: "bitfield \<Rightarrow> bitfield \<Rightarrow> bool" where
  "ends_before f g \<equiv> fst (snd f) + snd (snd f) \<le> fst (snd g)"

lemma lay_out_fields:
  assumes "list_all (\<lambda>(_, w). 0 \<le> w) fs"
  shows "sorted_wrt ends_before (lay_out size0 s fs) \<and> list_all (\<lambda>(_, s', w). s \<le> s' \<and> 0 \<le> w) (lay_out size0 s fs)"
  using assms
proof (induction fs arbitrary: s)
  case (Cons f fs)
  obtain name w where f: "f = (name, w)" by (cases f)
  have w: "0 \<le> w" and r: "list_all (\<lambda>(_, w). 0 \<le> w) fs" using Cons.prems by (simp_all add: f)
  from Cons.IH [OF r, of "s + w"] w show ?case by (auto simp: f list_all_iff)
qed simp

lemma find_all_found: "v \<in> set (find_all m s) \<Longrightarrow> \<exists>t r. m t = Some (v, r)"
  by (induction m s rule: find_all.induct) (auto split: option.splits)

lemma numeral_value_nonneg: "list_all is_digit ds \<Longrightarrow> 0 \<le> numeral_value 10 ds"
proof -
  have "0 \<le> v \<Longrightarrow> list_all is_digit ds \<Longrightarrow> 0 \<le> foldl (\<lambda>v c. 10 * v + digit_value c) v ds" for v :: int
  proof (induction ds arbitrary: v)
    case (Cons d ds)
    then have "0 \<le> digit_value d" by (auto simp: is_digit_def among_def digit_value_def less_eq_char_def Let_def)
    with Cons show ?case by simp
  qed simp
  then show "list_all is_digit ds \<Longrightarrow> 0 \<le> numeral_value 10 ds" by (simp add: numeral_value_def)
qed

lemma run1_all: "run1 p s = Some (x, r) \<Longrightarrow> list_all p x"
  by (auto simp: run1_def list_all_iff dest: set_takeWhileD split: list.splits if_splits)

lemma field_at_width: "field_at s = Some ((name, w), r) \<Longrightarrow> 0 \<le> w"
  by (auto simp: field_at_def bind_eq_Some_conv dest!: run1_all numeral_value_nonneg)

lemma bitfields_ordered:
  assumes "bitfields txt name n = Inr fs"
  shows "sorted_wrt ends_before fs \<and> list_all (\<lambda>(_, s, w). 0 \<le> s \<and> 0 \<le> w) fs"
proof -
  from assms obtain body where fs: "fs = lay_out n 0 (find_all field_at body)"
    by (auto simp: bitfields_def split: option.splits)
  have "list_all (\<lambda>(_, w). 0 \<le> w) (find_all field_at body)"
    by (auto simp: list_all_iff dest!: find_all_found field_at_width)
  from lay_out_fields [OF this, of n 0] show ?thesis by (simp add: fs)
qed

lemma sorted_wrt_cases: "sorted_wrt R xs \<Longrightarrow> x \<in> set xs \<Longrightarrow> y \<in> set xs \<Longrightarrow> x = y \<or> R x y \<or> R y x"
  by (induction xs) auto

lemma bit_range_mask: "0 \<le> s \<Longrightarrow> 0 \<le> w \<Longrightarrow> bit (range_mask (s, w)) n \<longleftrightarrow> nat s \<le> n \<and> n < nat (s + w)"
proof -
  assume s: "0 \<le> s" "0 \<le> w"
  have "push_bit (nat w) 1 - 1 = (mask (nat w) :: int)" by (simp add: mask_eq_exp_minus_1)
  then have "bit (range_mask (s, w)) n \<longleftrightarrow> nat s \<le> n \<and> n - nat s < nat w"
    by (simp add: range_mask_def bit_push_bit_iff bit_mask_iff)
  also have "\<dots> \<longleftrightarrow> nat s \<le> n \<and> n < nat (s + w)" using s by (auto simp: nat_add_distrib)
  finally show ?thesis .
qed

lemma masks_disjoint:
  assumes "0 \<le> s" "0 \<le> w" "0 \<le> s'" "0 \<le> w'" "s + w \<le> s' \<or> s' + w' \<le> s"
  shows "range_mask (s, w) AND range_mask (s', w') = 0"
proof (rule bit_eqI)
  fix n
  have "nat (s + w) \<le> nat s' \<or> nat (s' + w') \<le> nat s" using assms by auto
  then show "bit (range_mask (s, w) AND range_mask (s', w')) n = bit 0 n"
    using assms(1-4) by (auto simp: bit_and_iff bit_range_mask)
qed

lemma named_member: "named name fs = [f] \<Longrightarrow> f \<in> set fs \<and> fst f = name"
proof -
  assume "named name fs = [f]"
  then have "f \<in> set (named name fs)" by simp
  then show ?thesis by (auto simp: named_def)
qed

lemma fields_disjoint:
  assumes "bitfields txt name n = Inr fs" and "f \<in> set fs" and "g \<in> set fs" and "f \<noteq> g"
  shows "field_mask f AND field_mask g = 0"
proof -
  obtain a s w where f: "f = (a, s, w)" by (cases f)
  obtain b s' w' where g: "g = (b, s', w')" by (cases g)
  note o = bitfields_ordered [OF assms(1)]
  have "0 \<le> s" "0 \<le> w" "0 \<le> s'" "0 \<le> w'" using o assms(2,3) by (auto simp: f g list_all_iff)
  moreover have "s + w \<le> s' \<or> s' + w' \<le> s" using sorted_wrt_cases [OF conjunct1 [OF o] assms(2,3)] assms(4) by (auto simp: f g)
  ultimately show ?thesis using masks_disjoint by (simp add: field_mask_def f g)
qed

lemma bits_of_members:
  "bits_of fs names = Inr d \<Longrightarrow> map fst d = names \<and> set d \<subseteq> set fs"
  by (induction names arbitrary: d) (auto simp: bind_res_eq_Inr dest!: named_member split: list.splits)

text \<open>A field stands once in the struct of its register, at this position and with this width.\<close>

definition only_field :: "string \<Rightarrow> string \<Rightarrow> bitfield \<Rightarrow> bool" where
  "only_field txt reg f = (case bitfields txt reg 32 of Inl _ \<Rightarrow> False | Inr fs \<Rightarrow> named (fst f) fs = [f])"

lemma named_name: "named name fs = [f] \<Longrightarrow> named (fst f) fs = [f]"
  using named_member by fastforce

lemma only_fieldI: "bitfields txt reg 32 = Inr fs \<Longrightarrow> named name fs = [f] \<Longrightarrow> only_field txt reg f"
  using named_name by (simp add: only_field_def)

lemma bits_of_named: "bits_of fs names = Inr d \<Longrightarrow> list_all (\<lambda>f. named (fst f) fs = [f]) d"
  by (induction names arbitrary: d) (auto simp: bind_res_eq_Inr dest: named_name split: list.splits)

lemma offsets_names: "offsets_of txt names = Inr d \<Longrightarrow> map fst d = names"
  by (induction names arbitrary: d) (auto simp: bind_res_eq_Inr split: list.splits)

text \<open>The value that the macro \<open>NPU_PMU_CYCLE_CFG_VALUE\<close> of the generated header composes.\<close>

definition cfg_value :: "regs \<Rightarrow> int" where
  "cfg_value r =
     (push_bit (nat (fst (rg_start r))) (rg_event_cycle r) AND range_mask (rg_start r))
     OR (push_bit (nat (fst (rg_stop r))) (rg_event_none r) AND range_mask (rg_stop r))"

lemma read_composed_field:
  assumes "0 \<le> s" "0 \<le> v" "v < 2 ^ 10" and "range_mask (s, 10) AND m = 0"
  shows "drop_bit (nat s) ((push_bit (nat s) v AND range_mask (s, 10)) OR (w AND m)) AND mask 10 = v"
    and "drop_bit (nat s) ((w AND m) OR (push_bit (nat s) v AND range_mask (s, 10))) AND mask 10 = v"
proof -
  have v: "take_bit 10 v = v" using assms(2,3) by (simp add: take_bit_int_eq_self)
  have "bit (drop_bit (nat s) ((push_bit (nat s) v AND range_mask (s, 10)) OR (w AND m)) AND mask 10) n = bit (take_bit 10 v) n" for n
  proof (cases "n < 10")
    case True
    then have r: "bit (range_mask (s, 10)) (nat s + n)" using assms(1) by (simp add: bit_range_mask nat_add_distrib)
    with assms(4) have "\<not> bit m (nat s + n)" by (metis bit_0_eq bit_and_iff bot_apply bot_bool_def)
    with r True show ?thesis
      by (simp add: bit_and_iff bit_or_iff bit_drop_bit_eq bit_push_bit_iff bit_mask_iff bit_take_bit_iff)
  qed (simp add: bit_and_iff bit_mask_iff bit_take_bit_iff)
  then show one: "drop_bit (nat s) ((push_bit (nat s) v AND range_mask (s, 10)) OR (w AND m)) AND mask 10 = v"
    unfolding v by (intro bit_eqI) simp
  then show "drop_bit (nat s) ((w AND m) OR (push_bit (nat s) v AND range_mask (s, 10))) AND mask 10 = v"
    by (simp add: or.commute)
qed

lemma cfg_fieldD:
  assumes "cfg_field fs want = Inr p"
  shows "named want fs = [(want, p)] \<and> (want, p) \<in> set fs \<and> snd p = 10 \<and> 0 \<le> fst p \<and> fst p + 10 \<le> 32"
proof -
  from assms obtain a s w where n: "named want fs = [(a, s, w)]" "p = (s, w)" "w = 10" "0 \<le> s" "s + w \<le> 32"
    by (auto simp: cfg_field_def split: list.splits prod.splits if_splits)
  from named_member [OF n(1)] n show ?thesis by auto
qed

lemma one_fieldD: "one_field fs name = Inr s \<Longrightarrow> 0 \<le> s \<and> s \<le> 31 \<and> named name fs = [(name, s, 1)]"
proof -
  assume "one_field fs name = Inr s"
  then obtain a where n: "named name fs = [(a, s, 1)]" "0 \<le> s" "s \<le> 31"
    by (auto simp: one_field_def split: list.splits prod.splits if_splits)
  from named_member [OF n(1)] n show ?thesis by auto
qed

lemma one_field_only: "bind_res (bitfields txt reg 32) (\<lambda>fs. one_field fs name) = Inr s \<Longrightarrow>
    0 \<le> s \<and> s \<le> 31 \<and> only_field txt reg (name, s, 1)"
  by (auto simp: bind_res_eq_Inr dest!: one_fieldD intro: only_fieldI)

lemma event_inD: "event_in events 10 need = Inr v \<Longrightarrow> 0 \<le> v \<and> v < 2 ^ 10 \<and> map_of events need = Some v"
  by (auto simp: event_in_def split: option.splits if_splits)

section \<open>Properties\<close>

text \<open>C33. The geometry taken from a driver header is consistent whenever extraction succeeds: an offset for every wanted
  register; a field for every control bit, which stands once in its register, and no two of them overlap; the cycle bit
  is at one and the same position in the set and in the clear register, one bit wide and alone of its name in both, and
  so is the overflow bit in its two registers; the cycle counter has 48 bits; the start and stop fields are
  those of their register, disjoint and inside it; and the configuration value that the generated header composes of
  them reads back as the two events of the enumeration.\<close>

theorem regs_extracted_sound:
  "case extract_regs txt of Inl _ \<Rightarrow> True
   | Inr r \<Rightarrow>
       map fst (rg_found r) = WANTED \<and> map fst (rg_bits r) = PMCR_FIELDS
       \<and> list_all (only_field txt ''pmcr_r'') (rg_bits r)
       \<and> sorted_wrt (\<lambda>f g. field_mask f AND field_mask g = 0) (rg_bits r)
       \<and> rg_cycle_width r = 48
       \<and> 0 \<le> rg_cnten_shift r \<and> rg_cnten_shift r \<le> 31 \<and> 0 \<le> rg_ovf_shift r \<and> rg_ovf_shift r \<le> 31
       \<and> list_all (\<lambda>reg. only_field txt reg (''CYCLE_CNT'', rg_cnten_shift r, 1)) [''pmcntenset_r'', ''pmcntenclr_r'']
       \<and> list_all (\<lambda>reg. only_field txt reg (''CYCLE_CNT_OVF'', rg_ovf_shift r, 1)) [''pmovsset_r'', ''pmovsclr_r'']
       \<and> list_all (only_field txt ''pmccntr_cfg_r'') [(''CYCLE_CNT_CFG_START'', rg_start r), (''CYCLE_CNT_CFG_STOP'', rg_stop r)]
       \<and> range_mask (rg_start r) AND range_mask (rg_stop r) = 0
       \<and> fst (rg_start r) + snd (rg_start r) \<le> 32 \<and> fst (rg_stop r) + snd (rg_stop r) \<le> 32
       \<and> drop_bit (nat (fst (rg_start r))) (cfg_value r) AND mask 10 = rg_event_cycle r
       \<and> drop_bit (nat (fst (rg_stop r))) (cfg_value r) AND mask 10 = rg_event_none r"
proof (cases "extract_regs txt")
  case (Inr r)
  from Inr obtain pmcr enclr ovclr cfg events where
    f: "offsets_of txt WANTED = Inr (rg_found r)" "bitfields txt ''pmcr_r'' 32 = Inr pmcr"
      "bits_of pmcr PMCR_FIELDS = Inr (rg_bits r)" "bitfields txt ''pmccntr_cfg_r'' 32 = Inr cfg"
      "cfg_field cfg ''CYCLE_CNT_CFG_START'' = Inr (rg_start r)" "cfg_field cfg ''CYCLE_CNT_CFG_STOP'' = Inr (rg_stop r)"
      "event_in events (snd (rg_start r)) ''CYCLE'' = Inr (rg_event_cycle r)"
      "event_in events (snd (rg_start r)) ''NO_EVENT'' = Inr (rg_event_none r)" "rg_cycle_width r = 48"
    and one: "bind_res (bitfields txt ''pmcntenset_r'' 32) (\<lambda>fs. one_field fs ''CYCLE_CNT'') = Inr (rg_cnten_shift r)"
      "bind_res (bitfields txt ''pmcntenclr_r'' 32) (\<lambda>fs. one_field fs ''CYCLE_CNT'') = Inr enclr"
      "bind_res (bitfields txt ''pmovsset_r'' 32) (\<lambda>fs. one_field fs ''CYCLE_CNT_OVF'') = Inr (rg_ovf_shift r)"
      "bind_res (bitfields txt ''pmovsclr_r'' 32) (\<lambda>fs. one_field fs ''CYCLE_CNT_OVF'') = Inr ovclr"
      "rg_cnten_shift r = enclr" "rg_ovf_shift r = ovclr"
    unfolding extract_regs_def bind_res_eq_Inr [of _ "\<lambda>x. bind_res (f x) g" for f g]
    by (auto simp: bind_res_eq_Inr Let_def split: if_splits option.splits)
  note start = cfg_fieldD [OF f(5)] and stop = cfg_fieldD [OF f(6)]
  obtain a where a: "rg_start r = (a, 10)" using start by (cases "rg_start r") auto
  obtain b where b: "rg_stop r = (b, 10)" using stop by (cases "rg_stop r") auto
  have "field_mask (''CYCLE_CNT_CFG_START'', rg_start r) AND field_mask (''CYCLE_CNT_CFG_STOP'', rg_stop r) = 0"
    by (rule fields_disjoint [OF f(4)]) (use start stop in auto)
  then have d: "range_mask (a, 10) AND range_mask (b, 10) = 0" by (simp add: field_mask_def a b)
  have e: "0 \<le> rg_event_cycle r \<and> rg_event_cycle r < 2 ^ 10" "0 \<le> rg_event_none r \<and> rg_event_none r < 2 ^ 10"
    using event_inD f(7,8) a by auto
  have bits: "sorted_wrt (\<lambda>f g. field_mask f AND field_mask g = 0) (rg_bits r)"
  proof -
    note m = bits_of_members [OF f(3)]
    have "distinct (map fst (rg_bits r))" using m by (simp add: PMCR_FIELDS_def)
    then have "distinct (rg_bits r)" by (rule distinct_map [THEN iffD1, THEN conjunct1])
    then have s: "sorted_wrt (\<noteq>) (rg_bits r)" by (simp add: distinct_conv_nth sorted_wrt_iff_nth_less)
    have "field_mask f AND field_mask g = 0" if "f \<in> set (rg_bits r)" "g \<in> set (rg_bits r)" "f \<noteq> g" for f g
      by (rule fields_disjoint [OF f(2)]) (use that m in blast)+
    from sorted_wrt_mono_rel [OF this s] show ?thesis by simp
  qed
  have pmcr: "list_all (only_field txt ''pmcr_r'') (rg_bits r)"
    using bits_of_named [OF f(3)] f(2) by (simp add: only_field_def [abs_def])
  have cfg: "list_all (only_field txt ''pmccntr_cfg_r'') [(''CYCLE_CNT_CFG_START'', rg_start r), (''CYCLE_CNT_CFG_STOP'', rg_stop r)]"
    using only_fieldI [OF f(4) conjunct1 [OF start]] only_fieldI [OF f(4) conjunct1 [OF stop]] by simp
  note shifts = one_field_only [OF one(1)] one_field_only [OF one(2), folded one(5)] one_field_only [OF one(3)]
    one_field_only [OF one(4), folded one(6)]
  have composed: "drop_bit (nat (fst (rg_start r))) (cfg_value r) AND mask 10 = rg_event_cycle r"
    "drop_bit (nat (fst (rg_stop r))) (cfg_value r) AND mask 10 = rg_event_none r"
    unfolding cfg_value_def a b fst_conv snd_conv
    using read_composed_field(1) [OF _ _ _ d] read_composed_field(2) [of b _ "range_mask (a, 10)"] e d start stop a b
    by (simp_all add: and.commute)
  show ?thesis
    unfolding Inr sum.case
    using offsets_names [OF f(1)] bits_of_members [OF f(3)] bits f(9) d start stop shifts pmcr cfg composed
    by (simp add: a b)
qed simp

end
