(* ===== verification/Op_Model.thy ===== *)
theory Op_Model
  imports Vela_Payload Sha256
begin

text \<open>
  \<open>host/container/make_op_model.py\<close>: the single-operator INT8 models. An array is its data in row-major order; its shape
  is known where it is used. The flatbuffers package is two arguments, \<open>finish\<close>, which turns the parts of a model into bytes,
  and \<open>f32\<close>, the float32 that \<open>PrependFloat32\<close> stores for a number; the draws of numpy's generators are arguments as well.
  Quotients are rounded by \<open>fl\<close>. \<open>host/container/workload_meta.py\<close> counts the work of a model file from its bytes, from which
  \<open>load\<close>, the reader of the tflite package, gives the parts; the row of Vela's summary is an argument.
\<close>

section \<open>Operators and shapes\<close>

text \<open>\<open>dict(kind=..., ifm=..., cout=..., k=...)\<close>\<close>

datatype op_spec =
    Conv "int \<times> int \<times> int \<times> int" int int
  | Dw "int \<times> int \<times> int \<times> int" int
  | Fc "int \<times> int" int

definition OPS :: "(string, op_spec) dict" where
  "OPS = [(''conv3x3'', Conv (1, 56, 56, 64) 64 3), (''dw3x3'', Dw (1, 56, 56, 128) 3),
     (''pw1x1'', Conv (1, 56, 56, 64) 128 1), (''fc1024'', Fc (1, 1024) 1024)]"

fun spec_ifm :: "op_spec \<Rightarrow> int list" where
  "spec_ifm (Conv (n, h, w, c) _ _) = [n, h, w, c]"
| "spec_ifm (Dw (n, h, w, c) _) = [n, h, w, c]"
| "spec_ifm (Fc (n, c) _) = [n, c]"

record geometry =
  gm_ofm :: "int list"
  gm_kernel :: "int list option"
  gm_stride :: "int list option"
  gm_padding :: "string option"
  gm_groups :: int
  gm_weights :: "int list"
  gm_n_mac :: int

fun geometry_of :: "op_spec \<Rightarrow> geometry" where
  "geometry_of (Fc (_, cin) cout) =
     \<lparr>gm_ofm = [1, cout], gm_kernel = None, gm_stride = None, gm_padding = None, gm_groups = 1, gm_weights = [cout, cin],
      gm_n_mac = cout * cin\<rparr>"
| "geometry_of (Dw (n, h, w, cin) k) =
     \<lparr>gm_ofm = [n, h, w, cin], gm_kernel = Some [k, k], gm_stride = Some [1, 1], gm_padding = Some ''SAME'', gm_groups = cin,
      gm_weights = [1, k, k, cin], gm_n_mac = h * w * cin * k * k\<rparr>"
| "geometry_of (Conv (n, h, w, cin) cout k) =
     \<lparr>gm_ofm = [n, h, w, cout], gm_kernel = Some [k, k], gm_stride = Some [1, 1], gm_padding = Some ''SAME'', gm_groups = 1,
      gm_weights = [cout, k, k, cin], gm_n_mac = h * w * cout * k * k * cin\<rparr>"

section \<open>Accumulators\<close>

text \<open>Sums of numpy's 64-bit integers; lemma \<open>accumulators_small\<close> shows that none of \<open>OPS\<close> wraps.\<close>

text \<open>\<open>a[i, j, ...]\<close> of an array with row lengths \<open>ds\<close>: the offset of an element.\<close>

fun offset :: "nat list \<Rightarrow> nat list \<Rightarrow> nat" where
  "offset (d # ds) (i # is') = i * prod_list ds + offset ds is'"
| "offset _ _ = 0"

definition elem :: "nat list \<Rightarrow> int list \<Rightarrow> nat list \<Rightarrow> int" where
  "elem ds a idx = a ! offset ds idx"

text \<open>\<open>np.pad(x, ((0, 0), (p, p), (p, p), (0, 0)))\<close> and the window \<open>xp[:, i:i + h, j:j + w, :]\<close> of one kernel position,
  by their elements.\<close>

definition padded :: "nat \<Rightarrow> nat list \<Rightarrow> int list \<Rightarrow> nat \<Rightarrow> nat \<Rightarrow> nat \<Rightarrow> nat \<Rightarrow> int" where
  "padded p ds x n y u c =
     (if p \<le> y \<and> y < p + ds ! 1 \<and> p \<le> u \<and> u < p + ds ! 2 then elem ds x [n, y - p, u - p, c] else 0)"

text \<open>\<open>patches[n, y, u, q, c]\<close> with \<open>q\<close> running over \<open>for i in range(k) for j in range(k)\<close>.\<close>

definition patch :: "nat \<Rightarrow> nat list \<Rightarrow> int list \<Rightarrow> nat \<Rightarrow> nat \<Rightarrow> nat \<Rightarrow> nat \<Rightarrow> nat \<Rightarrow> int" where
  "patch k ds x n y u q c = padded (k div 2) ds x n (q div k + y) (q mod k + u) c"

definition sum_upto :: "nat \<Rightarrow> (nat \<Rightarrow> int) \<Rightarrow> int" where
  "sum_upto n f = sum_list (map f [0..<n])"

fun accumulators :: "op_spec \<Rightarrow> int list \<Rightarrow> int list \<Rightarrow> int list \<Rightarrow> int list" where
  "accumulators (Fc (n, cin) cout) x wt bias =
     [sum_upto (nat cin) (\<lambda>c. elem [nat n, nat cin] x [i, c] * elem [nat cout, nat cin] wt [out, c]) + bias ! out.
        i \<leftarrow> [0..<nat n], out \<leftarrow> [0..<nat cout]]"
| "accumulators (Dw (n, h, w, cin) k) x wt bias =
     (let ds = [nat n, nat h, nat w, nat cin]; kk = nat k * nat k in
      [sum_upto kk (\<lambda>q. patch (nat k) ds x i y u q c * elem [kk, nat cin] wt [q, c]) + bias ! c.
        i \<leftarrow> [0..<nat n], y \<leftarrow> [0..<nat h], u \<leftarrow> [0..<nat w], c \<leftarrow> [0..<nat cin]])"
| "accumulators (Conv (n, h, w, cin) cout k) x wt bias =
     (let ds = [nat n, nat h, nat w, nat cin]; kk = nat k * nat k in
      [sum_upto kk (\<lambda>q. sum_upto (nat cin) (\<lambda>c. patch (nat k) ds x i y u q c * elem [nat cout, kk, nat cin] wt [out, q, c])) + bias ! out.
        i \<leftarrow> [0..<nat n], y \<leftarrow> [0..<nat h], u \<leftarrow> [0..<nat w], out \<leftarrow> [0..<nat cout]])"

section \<open>The parts of a model\<close>

text \<open>\<open>_vec\<close>: the builder prepends, so the items are put in reverse.\<close>

definition vec :: "'a list \<Rightarrow> 'a list" where
  "vec items = fold (\<lambda>v out. v # out) (rev items) []"

record quant =
  qt_scale :: "rat list"
  qt_zero_point :: "int list"
  qt_dim :: int

definition quant_of :: "(rat \<Rightarrow> rat) \<Rightarrow> rat list \<Rightarrow> int list \<Rightarrow> int \<Rightarrow> quant" where
  "quant_of f32 scales zps axis = \<lparr>qt_scale = map f32 (vec scales), qt_zero_point = vec zps, qt_dim = axis\<rparr>"

datatype ttype = INT8 | INT32

record fb_tensor =
  ft_shape :: "int list"
  ft_type :: ttype
  ft_buffer :: nat
  ft_name :: string
  ft_quant :: quant

definition fb_tensor_of :: "string \<Rightarrow> int list \<Rightarrow> ttype \<Rightarrow> nat \<Rightarrow> quant \<Rightarrow> fb_tensor" where
  "fb_tensor_of name shape ttype buf q =
     \<lparr>ft_shape = vec shape, ft_type = ttype, ft_buffer = buf, ft_name = name, ft_quant = q\<rparr>"

text \<open>\<open>_buffer\<close>: no data for an empty one.\<close>

definition buffer_of :: "bytes option \<Rightarrow> bytes option" where
  "buffer_of d = (case d of None \<Rightarrow> None | Some b \<Rightarrow> if b = [] then None else Some b)"

datatype op_options =
    Conv2DOptions string int int int int
  | DepthwiseConv2DOptions string int int int int int
  | FullyConnectedOptions

record fb_operator =
  fo_opcode_index :: nat
  fo_inputs :: "int list"
  fo_outputs :: "int list"
  fo_options :: op_options

record fb_model =
  fm_version :: int
  fm_codes :: "(builtin \<times> int) list"
  fm_description :: string
  fm_buffers :: "bytes option list"
  fm_tensors :: "fb_tensor list"
  fm_inputs :: "int list"
  fm_outputs :: "int list"
  fm_operators :: "fb_operator list"
  fm_name :: string

fun code_of :: "op_spec \<Rightarrow> builtin" where
  "code_of (Conv _ _ _) = CONV_2D"
| "code_of (Dw _ _) = DEPTHWISE_CONV_2D"
| "code_of (Fc _ _) = FULLY_CONNECTED"

text \<open>Padding, strides and dilations (and the depth multiplier); no fused activation.\<close>

fun options_of :: "op_spec \<Rightarrow> op_options" where
  "options_of (Conv _ _ _) = Conv2DOptions ''SAME'' 1 1 1 1"
| "options_of (Dw _ _) = DepthwiseConv2DOptions ''SAME'' 1 1 1 1 1"
| "options_of (Fc _ _) = FullyConnectedOptions"

definition S_IN :: rat where "S_IN = 1 / 128"
definition S_W :: rat where "S_W = 1 / 128"
definition WEIGHT_SEED :: int where "WEIGHT_SEED = 20261014"
definition IFM_SEED :: int where "IFM_SEED = 1"

definition abs_max :: "int list \<Rightarrow> int" where
  "abs_max xs = foldr max (map abs xs) 0"

definition s_out :: "(rat \<Rightarrow> rat) \<Rightarrow> int list \<Rightarrow> rat" where
  "s_out fl acc = fl (of_int (abs_max acc) * S_IN * S_W / 127)"

definition int8_bytes :: "int list \<Rightarrow> bytes" where
  "int8_bytes = map word_of_int"

definition int32_bytes :: "int list \<Rightarrow> bytes" where
  "int32_bytes xs = concat (map (\<lambda>v. le_bytes 4 v) xs)"

definition parts_of :: "(rat \<Rightarrow> rat) \<Rightarrow> (rat \<Rightarrow> rat) \<Rightarrow> string \<Rightarrow> op_spec \<Rightarrow> int list \<Rightarrow> int list \<Rightarrow> int list \<Rightarrow> fb_model" where
  "parts_of fl f32 op spec wt bias x =
     (let g = geometry_of spec; cout = last (gm_ofm g); acc = accumulators spec x wt bias;
          per_ch = (case spec of Fc _ _ \<Rightarrow> False | _ \<Rightarrow> True); wdim = (case spec of Dw _ _ \<Rightarrow> 3 | _ \<Rightarrow> 0);
          chans = nat (if per_ch then cout else 1)
      in \<lparr>fm_version = 3, fm_codes = vec [(code_of spec, 1)], fm_description = ''stage1 isolated operator '' @ op,
          fm_buffers = vec [buffer_of None, buffer_of None, buffer_of (Some (int8_bytes wt)), buffer_of (Some (int32_bytes bias)), buffer_of None],
          fm_tensors = vec
            [fb_tensor_of ''ifm'' (spec_ifm spec) INT8 1 (quant_of f32 [S_IN] [0] 0),
             fb_tensor_of ''weights'' (gm_weights g) INT8 2 (quant_of f32 (replicate chans S_W) (replicate chans 0) wdim),
             fb_tensor_of ''bias'' [cout] INT32 3 (quant_of f32 (replicate chans (S_IN * S_W)) (replicate chans 0) 0),
             fb_tensor_of ''ofm'' (gm_ofm g) INT8 4 (quant_of f32 [s_out fl acc] [0] 0)],
          fm_inputs = vec [0], fm_outputs = vec [3],
          fm_operators = vec [\<lparr>fo_opcode_index = 0, fo_inputs = vec [0, 1, 2], fo_outputs = vec [3], fo_options = options_of spec\<rparr>],
          fm_name = op\<rparr>)"

record op_meta =
  om_op :: string
  om_operator_type :: string
  om_input_shape :: "int list"
  om_geometry :: geometry
  om_weight_seed :: int
  om_ifm_seed :: int
  om_ofm_scale :: rat
  om_acc_abs_max :: int
  om_model_sha256 :: string

text \<open>\<open>rng.integers\<close>: what the two generators give for a range and a shape, the second draw of the first one after the first.\<close>

record draws =
  dr_weights :: "int \<Rightarrow> int list \<Rightarrow> int list"
  dr_bias :: "int \<Rightarrow> int list \<Rightarrow> int \<Rightarrow> int list"
  dr_ifm :: "int \<Rightarrow> int list \<Rightarrow> int list"

definition build_op :: "(rat \<Rightarrow> rat) \<Rightarrow> (rat \<Rightarrow> rat) \<Rightarrow> (fb_model \<Rightarrow> bytes) \<Rightarrow> draws \<Rightarrow> string \<Rightarrow> exn + bytes \<times> op_meta" where
  "build_op fl f32 finish D op =
     bind_res (dict_get op OPS) (\<lambda>spec.
       let g = geometry_of spec; cout = last (gm_ofm g);
           wt = dr_weights D WEIGHT_SEED (gm_weights g); bias = dr_bias D WEIGHT_SEED (gm_weights g) cout;
           x = dr_ifm D IFM_SEED (spec_ifm spec); acc = accumulators spec x wt bias;
           model = finish (parts_of fl f32 op spec wt bias x)
       in Inr (model, \<lparr>om_op = op,
            om_operator_type = (case spec of Conv _ _ _ \<Rightarrow> ''CONV_2D'' | Dw _ _ \<Rightarrow> ''DEPTHWISE_CONV_2D'' | Fc _ _ \<Rightarrow> ''FULLY_CONNECTED''),
            om_input_shape = spec_ifm spec, om_geometry = g, om_weight_seed = WEIGHT_SEED, om_ifm_seed = IFM_SEED,
            om_ofm_scale = s_out fl acc, om_acc_abs_max = abs_max acc, om_model_sha256 = sha256 model\<rparr>))"

section \<open>Reading a model back\<close>

text \<open>\<open>host/container/workload_meta.py\<close>, over the parts that tflite reads; a code written twice is its own maximum.\<close>

record op_report =
  or_op :: builtin
  or_inputs :: "int list list"
  or_outputs :: "int list list"
  or_n_mac :: "int option"

definition analyse_op :: "fb_model \<Rightarrow> fb_operator \<Rightarrow> exn + op_report" where
  "analyse_op m o' =
     (let code = fst (fm_codes m ! fo_opcode_index o');
          ins = map (\<lambda>i. ft_shape (fm_tensors m ! nat i)) (filter (\<lambda>i. 0 \<le> i) (fo_inputs o'));
          outs = map (\<lambda>i. ft_shape (fm_tensors m ! nat i)) (fo_outputs o')
      in bind_res (op_macs code ins outs) (\<lambda>n. Inr \<lparr>or_op = code, or_inputs = ins, or_outputs = outs, or_n_mac = n\<rparr>))"

fun analyse_ops :: "fb_model \<Rightarrow> fb_operator list \<Rightarrow> exn + op_report list" where
  "analyse_ops m [] = Inr []"
| "analyse_ops m (o' # os) =
     bind_res (analyse_op m o') (\<lambda>r. bind_res (analyse_ops m os) (\<lambda>rs. Inr (r # rs)))"

definition op_counts :: "op_report list \<Rightarrow> (builtin, nat) dict" where
  "op_counts rs = map (\<lambda>c. (c, length (filter (\<lambda>r. or_op r = c) rs))) (remdups (map or_op rs))"

text \<open>Vela's own summary: the first row of its CSV file, as \<open>csv.DictReader\<close> gives it; \<open>float_of\<close> is \<open>float\<close> of a text.\<close>

definition VELA_KEEP :: "string list" where
  "VELA_KEEP = [''core_clock'', ''nn_macs'', ''cycles_npu'', ''cycles_sram_access'', ''cycles_dram_access'', ''cycles_total'']"

fun floats_of :: "(string \<Rightarrow> exn + rat) \<Rightarrow> (string, string) dict \<Rightarrow> string list \<Rightarrow> exn + (string, rat) dict" where
  "floats_of float_of row [] = Inr []"
| "floats_of float_of row (k # ks) =
     bind_res (dict_get k row) (\<lambda>t. bind_res (float_of t) (\<lambda>x.
     bind_res (floats_of float_of row ks) (\<lambda>d. Inr ((k, x) # d))))"

definition vela_summary :: "(string \<Rightarrow> exn + rat) \<Rightarrow> (string, string) dict \<Rightarrow> exn + (string, rat) dict" where
  "vela_summary float_of row = floats_of float_of row VELA_KEEP"

lemma floats_of_keys: "floats_of float_of row ks = Inr d \<Longrightarrow> map fst d = ks"
  by (induction ks arbitrary: d) (auto simp: bind_res_eq_Inr)

lemma vela_summary_nn_macs: "vela_summary float_of row = Inr vela \<Longrightarrow> \<exists>nn. dict_get ''nn_macs'' vela = Inr nn"
  using floats_of_keys [of float_of row VELA_KEEP vela]
  by (cases "map_of vela ''nn_macs''") (auto simp: vela_summary_def VELA_KEEP_def dict_get_def map_of_eq_None_iff simp del: set_map simp flip: set_map)

record workload_report =
  wr_model_sha256 :: string
  wr_ops :: "op_report list"
  wr_op_counts :: "(builtin, nat) dict"
  wr_macs :: macs_summary
  wr_vela :: "(string, rat) dict"
  wr_vs_vela :: "rat option"

text \<open>\<open>analyse\<close>: the operators of the file, whose bytes \<open>load\<close> reads.\<close>

definition analyse :: "(bytes \<Rightarrow> fb_model) \<Rightarrow> bytes \<Rightarrow> exn + op_report list" where
  "analyse load model = (let m = load model in analyse_ops m (fm_operators m))"

definition workload_meta :: "(rat \<Rightarrow> rat) \<Rightarrow> (string \<Rightarrow> exn + rat) \<Rightarrow> (bytes \<Rightarrow> fb_model) \<Rightarrow> (string, string) dict \<Rightarrow> bytes \<Rightarrow>
    exn + workload_report" where
  "workload_meta fl float_of load row model =
     bind_res (analyse load model) (\<lambda>rs.
     bind_res (vela_summary float_of row) (\<lambda>vela.
     bind_res (dict_get ''nn_macs'' vela) (\<lambda>nn_macs.
       let macs = macs_of (map or_n_mac rs) in
       Inr \<lparr>wr_model_sha256 = sha256 model, wr_ops = rs, wr_op_counts = op_counts rs, wr_macs = macs, wr_vela = vela,
            wr_vs_vela = (if nn_macs = 0 then None else Some (fl (of_int (ms_n_mac macs) / nn_macs)))\<rparr>)))"

section \<open>The reference convolution\<close>

text \<open>SAME padding at stride 1, by coordinates: a pixel outside the image is 0.\<close>

definition pixel :: "nat list \<Rightarrow> int list \<Rightarrow> nat \<Rightarrow> int \<Rightarrow> int \<Rightarrow> nat \<Rightarrow> int" where
  "pixel ds x n y u c =
     (if 0 \<le> y \<and> y < int (ds ! 1) \<and> 0 \<le> u \<and> u < int (ds ! 2) then elem ds x [n, nat y, nat u, c] else 0)"

definition conv_at :: "nat \<Rightarrow> nat list \<Rightarrow> nat \<Rightarrow> int list \<Rightarrow> int list \<Rightarrow> nat \<Rightarrow> nat \<Rightarrow> nat \<Rightarrow> nat \<Rightarrow> int" where
  "conv_at k ds cout x wt n y u out =
     sum_upto k (\<lambda>i. sum_upto k (\<lambda>j. sum_upto (ds ! 3) (\<lambda>c.
       pixel ds x n (int y + int i - int (k div 2)) (int u + int j - int (k div 2)) c
       * elem [cout, k, k, ds ! 3] wt [out, i, j, c])))"

definition depthwise_at :: "nat \<Rightarrow> nat list \<Rightarrow> int list \<Rightarrow> int list \<Rightarrow> nat \<Rightarrow> nat \<Rightarrow> nat \<Rightarrow> nat \<Rightarrow> int" where
  "depthwise_at k ds x wt n y u c =
     sum_upto k (\<lambda>i. sum_upto k (\<lambda>j.
       pixel ds x n (int y + int i - int (k div 2)) (int u + int j - int (k div 2)) c * elem [1, k, k, ds ! 3] wt [0, i, j, c]))"

lemma sum_upto_sum: "sum_upto n f = sum f {..<n}"
  by (simp add: sum_upto_def sum.list_conv_set_nth interv_sum_list_conv_sum_set_nat atLeast0LessThan)

lemma sum_upto_cong: "(\<And>i. i < n \<Longrightarrow> f i = g i) \<Longrightarrow> sum_upto n f = sum_upto n g"
  by (simp add: sum_upto_sum)

lemma sum_upto_square: "sum_upto (k * k) f = sum_upto k (\<lambda>i. sum_upto k (\<lambda>j. f (i * k + j)))"
proof -
  have "sum f {..<m * k} = (\<Sum>i<m. \<Sum>j<k. f (i * k + j))" for m
  proof (induction m)
    case (Suc m)
    have "sum f {..<Suc m * k} = sum f {..<m * k} + sum f {m * k..<m * k + k}"
      by (simp add: sum.atLeastLessThan_concat lessThan_atLeast0 add.commute)
    also have "sum f {m * k..<m * k + k} = (\<Sum>j<k. f (m * k + j))"
      using sum.shift_bounds_nat_ivl [of f 0 "m * k" k] by (simp add: lessThan_atLeast0 add.commute)
    finally show ?case using Suc by simp
  qed simp
  then show ?thesis by (simp add: sum_upto_sum)
qed

lemma patch_pixel:
  assumes "j < k"
  shows "patch k ds x n y u (i * k + j) c = pixel ds x n (int y + int i - int (k div 2)) (int u + int j - int (k div 2)) c"
proof -
  have "(i * k + j) div k = i" "(i * k + j) mod k = j" using assms by simp_all
  moreover have "nat (int y + int i - int (k div 2)) = i + y - k div 2" "nat (int u + int j - int (k div 2)) = j + u - k div 2"
    by arith+
  moreover have "(k div 2 \<le> i + y \<and> i + y < k div 2 + ds ! 1 \<and> k div 2 \<le> j + u \<and> j + u < k div 2 + ds ! 2)
      \<longleftrightarrow> (0 \<le> int y + int i - int (k div 2) \<and> int y + int i - int (k div 2) < int (ds ! 1)
        \<and> 0 \<le> int u + int j - int (k div 2) \<and> int u + int j - int (k div 2) < int (ds ! 2))" by arith
  ultimately show ?thesis by (simp only: patch_def padded_def pixel_def)
qed

lemma conv_window:
  "sum_upto (k * k) (\<lambda>q. sum_upto (ds ! 3) (\<lambda>c. patch k ds x n y u q c * elem [cout, k * k, ds ! 3] wt [out, q, c]))
     = conv_at k ds cout x wt n y u out"
proof -
  have e: "elem [cout, k * k, d] wt [out, i * k + j, c] = elem [cout, k, k, d] wt [out, i, j, c]" for d i j c
    by (simp add: elem_def algebra_simps)
  show ?thesis unfolding sum_upto_square conv_at_def
    by (intro sum_upto_cong) (simp add: patch_pixel e)
qed

lemma depthwise_window:
  "sum_upto (k * k) (\<lambda>q. patch k ds x n y u q c * elem [k * k, ds ! 3] wt [q, c]) = depthwise_at k ds x wt n y u c"
proof -
  have e: "elem [k * k, d] wt [i * k + j, c] = elem [1, k, k, d] wt [0, i, j, c]" for d i j
    by (simp add: elem_def algebra_simps)
  show ?thesis unfolding sum_upto_square depthwise_at_def
    by (intro sum_upto_cong) (simp add: patch_pixel e)
qed

section \<open>What a built model says\<close>

lemma vec_id [simp]: "vec items = items"
proof -
  have "fold (\<lambda>v out. v # out) xs ys = rev xs @ ys" for xs ys :: "'a list"
    by (induction xs arbitrary: ys) auto
  then show ?thesis by (simp add: vec_def)
qed

lemma abs_max_ge: "a \<in> set xs \<Longrightarrow> \<bar>a\<bar> \<le> abs_max xs"
  by (induction xs) (auto simp: abs_max_def)

lemma ops_cases:
  "dict_get op OPS = Inr spec \<Longrightarrow> spec \<in> {Conv (1, 56, 56, 64) 64 3, Dw (1, 56, 56, 128) 3, Conv (1, 56, 56, 64) 128 1, Fc (1, 1024) 1024}"
  by (auto simp: dict_get_def OPS_def split: if_splits)

lemma ops_macs:
  assumes "dict_get op OPS = Inr spec" "m = parts_of fl f32 op spec wt bias x"
  shows "\<exists>r. analyse_ops m (fm_operators m) = Inr [r] \<and> or_n_mac r = Some (gm_n_mac (geometry_of spec))
    \<and> or_inputs r = [spec_ifm spec, gm_weights (geometry_of spec), [last (gm_ofm (geometry_of spec))]] \<and> or_outputs r = [gm_ofm (geometry_of spec)]"
  using ops_cases [OF assms(1)] unfolding assms(2)
  by (elim insertE emptyE)
    (simp_all add: parts_of_def Let_def analyse_op_def fb_tensor_of_def op_macs_def index_def np_prod_def)

section \<open>Bounds\<close>

lemma offset_less: "list_all2 (<) idx ds \<Longrightarrow> offset ds idx < prod_list ds"
proof (induction rule: list_all2_induct)
  case (Cons i idx d ds)
  have "i * prod_list ds + offset ds idx < i * prod_list ds + prod_list ds" using Cons by simp
  also have "\<dots> = Suc i * prod_list ds" by simp
  also have "\<dots> \<le> d * prod_list ds" using Cons by (intro mult_le_mono1) simp
  finally show ?case by simp
qed simp

lemma elem_bound: "length a = prod_list ds \<Longrightarrow> list_all (\<lambda>v. \<bar>v\<bar> \<le> b) a \<Longrightarrow> list_all2 (<) idx ds \<Longrightarrow> \<bar>elem ds a idx\<bar> \<le> b"
  using offset_less [of idx ds] by (auto simp: elem_def list_all_iff)

lemma patch_bound:
  assumes "length x = prod_list ds" "list_all (\<lambda>v. \<bar>v\<bar> \<le> b) x" "0 \<le> b" "ds = [n, h, w, cin]" "i < n" "c < cin"
  shows "\<bar>patch k ds x i y u q c\<bar> \<le> b"
  using assms(3,5,6) elem_bound [OF assms(1,2)]
  by (auto simp: patch_def padded_def assms(4) intro!: elem_bound [OF assms(1)[unfolded assms(4)] assms(2)])

lemma sum_upto_bound: "(\<And>i. i < n \<Longrightarrow> \<bar>f i\<bar> \<le> b) \<Longrightarrow> \<bar>sum_upto n f\<bar> \<le> int n * b"
proof -
  assume "\<And>i. i < n \<Longrightarrow> \<bar>f i\<bar> \<le> b"
  then have "(\<Sum>i<n. \<bar>f i\<bar>) \<le> (\<Sum>i<n. b)" by (intro sum_mono) simp
  then show ?thesis using order_trans [OF sum_abs] by (simp add: sum_upto_sum)
qed

lemma product_bound: "\<bar>x\<bar> \<le> a \<Longrightarrow> \<bar>y\<bar> \<le> b \<Longrightarrow> \<bar>x * y\<bar> \<le> a * (b :: int)"
  by (simp add: abs_mult mult_mono')

lemma bias_bound: "list_all (\<lambda>v. \<bar>v\<bar> \<le> b) bias \<Longrightarrow> i < length bias \<Longrightarrow> \<bar>bias ! i\<bar> \<le> b"
  by (auto simp: list_all_iff)

text \<open>With the ranges of the draws no sum of an operator of \<open>OPS\<close> comes near the bounds of numpy's 64-bit integers.\<close>

lemma accumulators_small:
  assumes "dict_get op OPS = Inr spec" "length x = prod_list (map nat (spec_ifm spec))" "list_all (\<lambda>v. \<bar>v\<bar> \<le> 128) x"
    and "length wt = prod_list (map nat (gm_weights (geometry_of spec)))" "list_all (\<lambda>v. \<bar>v\<bar> \<le> 127) wt"
    and "length bias = nat (last (gm_ofm (geometry_of spec)))" "list_all (\<lambda>v. \<bar>v\<bar> \<le> 1024) bias"
  shows "list_all (\<lambda>a. \<bar>a\<bar> < 2 ^ 31) (accumulators spec x wt bias)"
proof -
  have add: "\<bar>a\<bar> \<le> m \<Longrightarrow> \<bar>b\<bar> \<le> 1024 \<Longrightarrow> m + 1024 < 2 ^ 31 \<Longrightarrow> \<bar>a + b\<bar> < 2 ^ 31" for a b m :: int by simp
  have conv: "list_all (\<lambda>a. \<bar>a\<bar> < 2 ^ 31) (accumulators (Conv (1, 56, 56, 64) (int cout) (int k)) x wt bias)"
    if l: "length x = 1 * 56 * 56 * 64" "length wt = cout * k * k * 64" "length bias = cout" "int (k * k * 64) * (128 * 127) + 1024 < 2 ^ 31" for cout k
  proof -
    have s: "\<bar>sum_upto (k * k) (\<lambda>q. sum_upto 64 (\<lambda>c. patch k [1, 56, 56, 64] x i y u q c * elem [cout, k * k, 64] wt [out, q, c]))\<bar>
        \<le> int (k * k) * (int 64 * (128 * 127))" if "i < 1" "out < cout" for i y u out
      by (intro sum_upto_bound product_bound patch_bound elem_bound)
        (use assms(3,5) l that in \<open>auto simp: less_Suc_eq_0_disj\<close>)
    have "\<bar>sum_upto (k * k) (\<lambda>q. sum_upto 64 (\<lambda>c. patch k [1, 56, 56, 64] x i y u q c * elem [cout, k * k, 64] wt [out, q, c])) + bias ! out\<bar> < 2 ^ 31"
      if "i < 1" "out < cout" for i y u out
      by (rule add [OF s [OF that] bias_bound [OF assms(7)]]) (use that l in \<open>simp_all add: mult.assoc\<close>)
    then show ?thesis by (auto simp: list_all_iff Let_def nat_mult_distrib)
  qed
  have dw: "list_all (\<lambda>a. \<bar>a\<bar> < 2 ^ 31) (accumulators (Dw (1, 56, 56, 128) 3) x wt bias)"
    if l: "length x = 1 * 56 * 56 * 128" "length wt = 1 * 3 * 3 * 128" "length bias = 128"
  proof -
    have s: "\<bar>sum_upto 9 (\<lambda>q. patch 3 [1, 56, 56, 128] x i y u q c * elem [9, 128] wt [q, c])\<bar> \<le> int 9 * (128 * 127)"
      if "i < 1" "c < 128" for i y u c
      by (intro sum_upto_bound product_bound patch_bound elem_bound)
        (use assms(3,5) l that in \<open>auto simp: less_Suc_eq_0_disj\<close>)
    have "\<bar>sum_upto 9 (\<lambda>q. patch 3 [1, 56, 56, 128] x i y u q c * elem [9, 128] wt [q, c]) + bias ! c\<bar> < 2 ^ 31"
      if "i < 1" "c < 128" for i y u c
      by (rule add [OF s [OF that] bias_bound [OF assms(7)]]) (use that l in simp_all)
    then show ?thesis by (auto simp: list_all_iff Let_def)
  qed
  have fc: "list_all (\<lambda>a. \<bar>a\<bar> < 2 ^ 31) (accumulators (Fc (1, 1024) 1024) x wt bias)"
    if l: "length x = 1 * 1024" "length wt = 1024 * 1024" "length bias = 1024"
  proof -
    have s: "\<bar>sum_upto 1024 (\<lambda>c. elem [1, 1024] x [i, c] * elem [1024, 1024] wt [out, c])\<bar> \<le> int 1024 * (128 * 127)"
      if "i < 1" "out < 1024" for i out
      by (intro sum_upto_bound product_bound elem_bound)
        (use assms(3,5) l that in \<open>auto simp: less_Suc_eq_0_disj\<close>)
    have "\<bar>sum_upto 1024 (\<lambda>c. elem [1, 1024] x [i, c] * elem [1024, 1024] wt [out, c]) + bias ! out\<bar> < 2 ^ 31"
      if "i < 1" "out < 1024" for i out
      by (rule add [OF s [OF that] bias_bound [OF assms(7)]]) (use that l in simp_all)
    then show ?thesis by (auto simp: list_all_iff)
  qed
  from ops_cases [OF assms(1)] show ?thesis
    using conv [of 64 3] conv [of 128 1] dw fc assms(2,4,6) by (elim insertE emptyE) simp_all
qed

section \<open>The scale of the output\<close>

text \<open>What IEEE arithmetic promises of a conversion or a quotient: zero stays zero, and in the range of the normal float32
  numbers the relative error is at most \<open>r\<close>; that is 2^-53 for a double and 2^-24 for a float32.\<close>

definition rounds :: "rat \<Rightarrow> (rat \<Rightarrow> rat) \<Rightarrow> bool" where
  "rounds r f \<longleftrightarrow> f 0 = 0 \<and> (\<forall>q. 1 / 2 ^ 126 \<le> q \<and> q \<le> 2 ^ 127 \<longrightarrow> \<bar>f q - q\<bar> \<le> r * q)"

text \<open>What numpy's documentation promises of the draws: the number of items of the shape, within the bounds of the call.\<close>

definition draws_in_range :: "draws \<Rightarrow> bool" where
  "draws_in_range D \<longleftrightarrow>
     (\<forall>seed shape. length (dr_weights D seed shape) = prod_list (map nat shape) \<and> list_all (\<lambda>v. \<bar>v\<bar> \<le> 127) (dr_weights D seed shape)
       \<and> length (dr_ifm D seed shape) = prod_list (map nat shape) \<and> list_all (\<lambda>v. \<bar>v\<bar> \<le> 128) (dr_ifm D seed shape))
     \<and> (\<forall>seed shape n. length (dr_bias D seed shape n) = nat n \<and> list_all (\<lambda>v. \<bar>v\<bar> \<le> 1024) (dr_bias D seed shape n))"

lemma rounds_bounds:
  assumes "rounds r f" "1 / 2 ^ 126 \<le> q" "q \<le> 2 ^ 127"
  shows "q * (1 - r) \<le> f q" "f q \<le> q * (1 + r)"
proof -
  from assms have "\<bar>f q - q\<bar> \<le> r * q" by (simp only: rounds_def)
  then show "q * (1 - r) \<le> f q" "f q \<le> q * (1 + r)" by (auto simp: abs_le_iff algebra_simps)
qed

lemma abs_max_bound: "list_all (\<lambda>a. \<bar>a\<bar> < b) xs \<Longrightarrow> 0 < b \<Longrightarrow> 0 \<le> abs_max xs \<and> abs_max xs < b"
  by (induction xs) (auto simp: abs_max_def)

text \<open>Both roundings of the scale stay in the range: an accumulator that is not 0 gives at least 1 / (128 * 128 * 127).\<close>

lemma scale_covers:
  assumes "rounds r fl" "r \<le> 1 / 2" "rounds r' f32" "r' \<le> 1 / 2" "list_all (\<lambda>a. \<bar>a\<bar> < 2 ^ 31) acc" "a \<in> set acc"
  shows "\<bar>of_int a\<bar> * S_IN * S_W * (1 - r) \<le> 127 * s_out fl acc"
    and "\<bar>of_int a\<bar> * S_IN * S_W * (1 - r) * (1 - r') \<le> 127 * f32 (s_out fl acc)"
proof -
  let ?n = "rat_of_int (abs_max acc)"
  let ?q = "?n * S_IN * S_W / 127"
  have z: "fl 0 = 0" "f32 0 = 0" using assms(1,3) by (simp_all only: rounds_def)
  have n: "0 \<le> abs_max acc" "abs_max acc < 2 ^ 31" using abs_max_bound [OF assms(5)] by simp_all
  have a: "\<bar>a\<bar> \<le> abs_max acc" by (rule abs_max_ge [OF assms(6)])
  then have aq: "\<bar>rat_of_int a\<bar> * S_IN * S_W \<le> 127 * ?q" by (simp add: S_IN_def S_W_def flip: of_int_abs)
  have "\<bar>of_int a\<bar> * S_IN * S_W * (1 - r) \<le> 127 * s_out fl acc
      \<and> \<bar>of_int a\<bar> * S_IN * S_W * (1 - r) * (1 - r') \<le> 127 * f32 (s_out fl acc)"
  proof (cases "abs_max acc = 0")
    case True
    with a z show ?thesis by (simp add: s_out_def)
  next
    case False
    with n have "1 \<le> ?n" "?n \<le> 2 ^ 31" by (simp_all flip: of_int_le_iff)
    then have q: "1 / 2 ^ 21 \<le> ?q" "?q \<le> 2 ^ 11" by (simp_all add: S_IN_def S_W_def)
    have r0: "0 \<le> r" "0 \<le> r'" using rounds_bounds [OF assms(1), of 1] rounds_bounds [OF assms(3), of 1] by simp_all
    have s: "?q * (1 - r) \<le> s_out fl acc" "s_out fl acc \<le> ?q * (1 + r)"
      using rounds_bounds [OF assms(1), of ?q] q by (simp_all add: s_out_def)
    have "?q * (1 / 2) \<le> ?q * (1 - r)" "?q * (1 + r) \<le> ?q * 2" using q(1) assms(2) by (intro mult_left_mono; simp)+
    from order_trans [OF this(1) s(1)] order_trans [OF s(2) this(2)] q
    have sq: "1 / 2 ^ 22 \<le> s_out fl acc" "s_out fl acc \<le> 2 ^ 12" by simp_all
    then have t: "s_out fl acc * (1 - r') \<le> f32 (s_out fl acc)" using rounds_bounds(1) [OF assms(3), of "s_out fl acc"] by simp
    have "\<bar>rat_of_int a\<bar> * S_IN * S_W * (1 - r) \<le> 127 * ?q * (1 - r)" using mult_right_mono [OF aq, of "1 - r"] assms(2) by simp
    with s(1) have one: "\<bar>rat_of_int a\<bar> * S_IN * S_W * (1 - r) \<le> 127 * s_out fl acc" by simp
    have "\<bar>rat_of_int a\<bar> * S_IN * S_W * (1 - r) * (1 - r') \<le> 127 * s_out fl acc * (1 - r')"
      using mult_right_mono [OF one, of "1 - r'"] assms(4) by simp
    with t one show ?thesis by simp
  qed
  then show "\<bar>of_int a\<bar> * S_IN * S_W * (1 - r) \<le> 127 * s_out fl acc"
    "\<bar>of_int a\<bar> * S_IN * S_W * (1 - r) * (1 - r') \<le> 127 * f32 (s_out fl acc)" by simp_all
qed

section \<open>Properties\<close>

text \<open>C38. The accumulators of the convolutions, computed from padded windows, are those of the direct formula: a SAME
  convolution at stride 1 in which the pixels outside the image are 0, with the bias of the output channel; for a
  depthwise operator channel by channel, for a fully connected one the product with the weight matrix.\<close>

theorem accumulators_reference:
  "accumulators (Conv (int n, int h, int w, int cin) (int cout) (int k)) x wt bias =
     [conv_at k [n, h, w, cin] cout x wt i y u out + bias ! out. i \<leftarrow> [0..<n], y \<leftarrow> [0..<h], u \<leftarrow> [0..<w], out \<leftarrow> [0..<cout]]
   \<and> accumulators (Dw (int n, int h, int w, int cin) (int k)) x wt bias =
     [depthwise_at k [n, h, w, cin] x wt i y u c + bias ! c. i \<leftarrow> [0..<n], y \<leftarrow> [0..<h], u \<leftarrow> [0..<w], c \<leftarrow> [0..<cin]]
   \<and> accumulators (Fc (int n, int cin) (int cout)) x wt bias =
     [(\<Sum>c<cin. x ! (i * cin + c) * wt ! (out * cin + c)) + bias ! out. i \<leftarrow> [0..<n], out \<leftarrow> [0..<cout]]"
proof (intro conjI)
  note conv = conv_window [of k "[n, h, w, cin]", simplified] and dw = depthwise_window [of k "[n, h, w, cin]", simplified]
  show "accumulators (Conv (int n, int h, int w, int cin) (int cout) (int k)) x wt bias =
     [conv_at k [n, h, w, cin] cout x wt i y u out + bias ! out. i \<leftarrow> [0..<n], y \<leftarrow> [0..<h], u \<leftarrow> [0..<w], out \<leftarrow> [0..<cout]]"
    by (simp add: conv Let_def)
  show "accumulators (Dw (int n, int h, int w, int cin) (int k)) x wt bias =
     [depthwise_at k [n, h, w, cin] x wt i y u c + bias ! c. i \<leftarrow> [0..<n], y \<leftarrow> [0..<h], u \<leftarrow> [0..<w], c \<leftarrow> [0..<cin]]"
    by (simp add: dw Let_def)
  show "accumulators (Fc (int n, int cin) (int cout)) x wt bias =
     [(\<Sum>c<cin. x ! (i * cin + c) * wt ! (out * cin + c)) + bias ! out. i \<leftarrow> [0..<n], out \<leftarrow> [0..<cout]]"
    by (simp add: sum_upto_sum elem_def)
qed

text \<open>The parts that \<open>build\<close> writes, with the draws in place.\<close>

definition drawn_accumulators :: "draws \<Rightarrow> op_spec \<Rightarrow> int list" where
  "drawn_accumulators D spec = (let g = geometry_of spec in
     accumulators spec (dr_ifm D IFM_SEED (spec_ifm spec)) (dr_weights D WEIGHT_SEED (gm_weights g))
       (dr_bias D WEIGHT_SEED (gm_weights g) (last (gm_ofm g))))"

definition drawn_parts :: "(rat \<Rightarrow> rat) \<Rightarrow> (rat \<Rightarrow> rat) \<Rightarrow> draws \<Rightarrow> string \<Rightarrow> op_spec \<Rightarrow> fb_model" where
  "drawn_parts fl f32 D op spec = (let g = geometry_of spec in
     parts_of fl f32 op spec (dr_weights D WEIGHT_SEED (gm_weights g)) (dr_bias D WEIGHT_SEED (gm_weights g) (last (gm_ofm g)))
       (dr_ifm D IFM_SEED (spec_ifm spec)))"

lemma build_op_eq:
  assumes "build_op fl f32 finish D op = Inr (model, meta)"
  shows "\<exists>spec. dict_get op OPS = Inr spec \<and> model = finish (drawn_parts fl f32 D op spec) \<and> om_geometry meta = geometry_of spec
    \<and> om_input_shape meta = spec_ifm spec \<and> om_model_sha256 meta = sha256 model
    \<and> om_ofm_scale meta = s_out fl (drawn_accumulators D spec) \<and> om_acc_abs_max meta = abs_max (drawn_accumulators D spec)"
  using assms by (auto simp: build_op_def drawn_parts_def drawn_accumulators_def Let_def bind_res_eq_Inr)

lemma drawn_accumulators_small:
  "dict_get op OPS = Inr spec \<Longrightarrow> draws_in_range D \<Longrightarrow> list_all (\<lambda>a. \<bar>a\<bar> < 2 ^ 31) (drawn_accumulators D spec)"
  unfolding drawn_accumulators_def Let_def draws_in_range_def by (rule accumulators_small) simp_all

text \<open>C39. A model that \<open>make_op_model\<close> builds is what its description says. Read back from the file's bytes by \<open>workload_meta\<close>, it
  has one operator with the description's shapes, the \<open>n_mac\<close> of the description as the MACs counted from the model's own
  shapes, the same digest and the values of Vela's summary. The scale of the output in the file is the description's
  as a float32. No accumulator reaches 2^31, and with quotients and conversions rounded as IEEE arithmetic rounds them no
  accumulator is scaled beyond 127, up to those two roundings, so the output does not saturate.\<close>

theorem built_model_described:
  assumes "build_op fl f32 finish D op = Inr (model, meta)"
    and "\<And>spec. dict_get op OPS = Inr spec \<Longrightarrow> load (finish (drawn_parts fl f32 D op spec)) = drawn_parts fl f32 D op spec"
    and "draws_in_range D" "rounds r fl" "r \<le> 1 / 2" "rounds r' f32" "r' \<le> 1 / 2"
    and "vela_summary float_of row = Inr vela"
  shows "\<exists>spec rep o'. dict_get op OPS = Inr spec \<and> om_geometry meta = geometry_of spec \<and> om_model_sha256 meta = sha256 model
    \<and> workload_meta fl float_of load row model = Inr rep \<and> wr_vela rep = vela \<and> wr_model_sha256 rep = om_model_sha256 meta
    \<and> wr_macs rep = \<lparr>ms_n_mac = gm_n_mac (om_geometry meta), ms_n_mac_ops = 1, ms_non_mac_ops = 0\<rparr>
    \<and> wr_ops rep = [o'] \<and> wr_op_counts rep = [(or_op o', 1)] \<and> or_outputs o' = [gm_ofm (om_geometry meta)]
    \<and> or_inputs o' = [om_input_shape meta, gm_weights (om_geometry meta), [last (gm_ofm (om_geometry meta))]]
    \<and> qt_scale (ft_quant (fm_tensors (load model) ! 3)) = [f32 (om_ofm_scale meta)]
    \<and> om_acc_abs_max meta = abs_max (drawn_accumulators D spec)
    \<and> list_all (\<lambda>a. \<bar>a\<bar> < 2 ^ 31 \<and> \<bar>of_int a\<bar> * S_IN * S_W * (1 - r) \<le> 127 * om_ofm_scale meta
         \<and> \<bar>of_int a\<bar> * S_IN * S_W * (1 - r) * (1 - r') \<le> 127 * f32 (om_ofm_scale meta)) (drawn_accumulators D spec)"
proof -
  from build_op_eq [OF assms(1)] obtain spec where b: "dict_get op OPS = Inr spec" "model = finish (drawn_parts fl f32 D op spec)"
    "om_geometry meta = geometry_of spec" "om_input_shape meta = spec_ifm spec" "om_model_sha256 meta = sha256 model"
    "om_ofm_scale meta = s_out fl (drawn_accumulators D spec)" "om_acc_abs_max meta = abs_max (drawn_accumulators D spec)" by blast
  let ?m = "drawn_parts fl f32 D op spec" and ?g = "geometry_of spec"
  have m: "load model = ?m" unfolding b(2) by (rule assms(2) [OF b(1)])
  obtain o' where o': "analyse_ops ?m (fm_operators ?m) = Inr [o']" "or_n_mac o' = Some (gm_n_mac ?g)"
    "or_inputs o' = [spec_ifm spec, gm_weights ?g, [last (gm_ofm ?g)]]" "or_outputs o' = [gm_ofm ?g]"
    using ops_macs [OF b(1) refl] unfolding drawn_parts_def Let_def by blast
  from assms(8) obtain nn where nn: "dict_get ''nn_macs'' vela = Inr nn" using vela_summary_nn_macs by blast
  let ?rep = "\<lparr>wr_model_sha256 = sha256 model, wr_ops = [o'], wr_op_counts = [(or_op o', 1)],
    wr_macs = \<lparr>ms_n_mac = gm_n_mac ?g, ms_n_mac_ops = 1, ms_non_mac_ops = 0\<rparr>, wr_vela = vela,
    wr_vs_vela = (if nn = 0 then None else Some (fl (of_int (gm_n_mac ?g) / nn)))\<rparr>"
  have w: "workload_meta fl float_of load row model = Inr ?rep"
    by (simp add: workload_meta_def analyse_def m assms(8) nn o'(1,2) macs_of_def op_counts_def map_filter_simps Let_def)
  have q: "qt_scale (ft_quant (fm_tensors (load model) ! 3)) = [f32 (om_ofm_scale meta)]"
    by (simp add: m b(6) drawn_parts_def drawn_accumulators_def parts_of_def Let_def fb_tensor_of_def quant_of_def)
  note small = drawn_accumulators_small [OF b(1) assms(3)]
  have s: "list_all (\<lambda>a. \<bar>a\<bar> < 2 ^ 31 \<and> \<bar>of_int a\<bar> * S_IN * S_W * (1 - r) \<le> 127 * om_ofm_scale meta
      \<and> \<bar>of_int a\<bar> * S_IN * S_W * (1 - r) * (1 - r') \<le> 127 * f32 (om_ofm_scale meta)) (drawn_accumulators D spec)"
    using small scale_covers [OF assms(4-7) small] unfolding b(6) list_all_iff by blast
  show ?thesis
    by (rule exI [of _ spec], rule exI [of _ ?rep], rule exI [of _ o']) (use b(1,4,5,7) o'(3,4) w q s in \<open>simp add: b(3)\<close>)
qed

definition sample_draws :: draws where
  "sample_draws = \<lparr>dr_weights = (\<lambda>_ shape. replicate (prod_list (map nat shape)) 1), dr_bias = (\<lambda>_ _ n. replicate (nat n) (-3)),
     dr_ifm = (\<lambda>_ shape. replicate (prod_list (map nat shape)) 2)\<rparr>"

definition sample_summary :: "(string, string) dict" where
  "sample_summary = map (\<lambda>k. (k, ''1'')) VELA_KEEP"

text \<open>A serialiser that keeps the name of the operator, and the reader that finds the parts by it.\<close>

definition sample_finish :: "fb_model \<Rightarrow> bytes" where
  "sample_finish m = map (\<lambda>c. word_of_int (int (of_char c))) (fm_name m)"

definition sample_load :: "bytes \<Rightarrow> fb_model" where
  "sample_load bs = (let op = map (\<lambda>b. char_of (unat b)) bs in
     drawn_parts (\<lambda>q. q) (\<lambda>q. q) sample_draws op (case dict_get op OPS of Inl _ \<Rightarrow> Fc (1, 1) 1 | Inr spec \<Rightarrow> spec))"

lemma built_model_described_witness:
  "\<exists>model meta rep. build_op (\<lambda>q. q) (\<lambda>q. q) sample_finish sample_draws ''fc1024'' = Inr (model, meta) \<and> om_model_sha256 meta = sha256 model
    \<and> workload_meta (\<lambda>q. q) (\<lambda>_. Inr 1) sample_load sample_summary model = Inr rep \<and> ms_n_mac (wr_macs rep) = 1048576"
proof -
  obtain model meta where b: "build_op (\<lambda>q. q) (\<lambda>q. q) sample_finish sample_draws ''fc1024'' = Inr (model, meta)"
    by (simp add: build_op_def dict_get_def OPS_def Let_def)
  have l: "sample_load (sample_finish (drawn_parts (\<lambda>q. q) (\<lambda>q. q) sample_draws ''fc1024'' spec))
      = drawn_parts (\<lambda>q. q) (\<lambda>q. q) sample_draws ''fc1024'' spec" if "dict_get ''fc1024'' OPS = Inr spec" for spec
  proof -
    have "char_of (unat (word_of_int (int (of_char c)) :: 8 word)) = c" for c
      using nat_of_char_less_256 [of c] by (simp add: unsigned_of_nat take_bit_nat_eq_self)
    then have "map (\<lambda>b. char_of (unat b)) (sample_finish (drawn_parts (\<lambda>q. q) (\<lambda>q. q) sample_draws ''fc1024'' spec)) = ''fc1024''"
      by (simp only: sample_finish_def drawn_parts_def parts_of_def Let_def map_map comp_def map_ident fb_model.simps)
    with that show ?thesis unfolding sample_load_def Let_def by (simp only: sum.case)
  qed
  have d: "draws_in_range sample_draws" by (simp add: draws_in_range_def sample_draws_def list_all_iff)
  have f: "rounds 0 (\<lambda>q. q)" by (simp add: rounds_def)
  have v: "vela_summary (\<lambda>_. Inr 1) sample_summary = Inr (map (\<lambda>k. (k, 1)) VELA_KEEP)"
    by (simp add: vela_summary_def sample_summary_def VELA_KEEP_def dict_get_def)
  have z: "(0 :: rat) \<le> 1 / 2" by simp
  from built_model_described [OF b l d f z f z v] obtain spec rep where "dict_get ''fc1024'' OPS = Inr spec"
    "om_geometry meta = geometry_of spec" "om_model_sha256 meta = sha256 model"
    "workload_meta (\<lambda>q. q) (\<lambda>_. Inr 1) sample_load sample_summary model = Inr rep"
    "wr_macs rep = \<lparr>ms_n_mac = gm_n_mac (om_geometry meta), ms_n_mac_ops = 1, ms_non_mac_ops = 0\<rparr>" by blast
  with b show ?thesis by (auto simp: dict_get_def OPS_def)
qed

end
