(* ===== verification/Conv_Study.thy ===== *)
theory Conv_Study
  imports Workload_Pack Results Op_Model
begin

text \<open>
  \<open>host/container/make_conv1x1_study.py\<close>: the 1x1 convolution example, its accumulators, the checks of \<open>main\<close> and the C
  header it writes. The parts of the model are a value of \<open>Op_Model\<close>; the output that tflite_runtime gives is an argument,
  as is what \<open>inspect_vela\<close> finds in Vela's output. Arrays are their data in row-major order.
\<close>

section \<open>The example\<close>

definition WEIGHTS :: "int list" where
  "WEIGHTS = [1, 2, 3, 1, -1, 1, 2, 0]"

definition study_ifm :: "int list" where
  "study_ifm =
     (let x = [((h * 4 + w) * 3 + c) mod 7 - 3. h \<leftarrow> [0..3], w \<leftarrow> [0..3], c \<leftarrow> [0..3]]
      in splice (splice x 0 [2, 3, 1, 4]) 4 [5, 0, 2, 1])"

text \<open>\<open>np.einsum("nhwc,oc->nhwo", ...)\<close> over the sixteen positions.\<close>

definition study_accumulators :: "int list \<Rightarrow> int list" where
  "study_accumulators x =
     [sum_list (map (\<lambda>c. x ! (4 * p + c) * WEIGHTS ! (4 * out + c)) [0..<4]). p \<leftarrow> [0..<16], out \<leftarrow> [0..<2]]"

text \<open>\<open>build_model\<close>: every scale is 1, itself a float32, so the rescale of the output is the identity.\<close>

definition study_model :: "(rat \<Rightarrow> rat) \<Rightarrow> fb_model" where
  "study_model f32 = \<lparr>fm_version = 3, fm_codes = vec [(CONV_2D, 1)], fm_description = ''study 1x1 conv example'',
     fm_buffers = vec [buffer_of None, buffer_of None, buffer_of (Some (int8_bytes WEIGHTS)), buffer_of (Some (int32_bytes [0, 0])),
       buffer_of None],
     fm_tensors = vec [fb_tensor_of ''ifm'' [1, 4, 4, 4] INT8 1 (quant_of f32 [1] [0] 0),
       fb_tensor_of ''weights'' [2, 1, 1, 4] INT8 2 (quant_of f32 [1, 1] [0, 0] 0),
       fb_tensor_of ''bias'' [2] INT32 3 (quant_of f32 [1, 1] [0, 0] 0),
       fb_tensor_of ''ofm'' [1, 4, 4, 2] INT8 4 (quant_of f32 [1] [0] 0)],
     fm_inputs = vec [0], fm_outputs = vec [3],
     fm_operators = vec [\<lparr>fo_opcode_index = 0, fo_inputs = vec [0, 1, 2], fo_outputs = vec [3],
       fo_options = Conv2DOptions ''VALID'' 1 1 1 1\<rparr>],
     fm_name = ''conv1x1''\<rparr>"

section \<open>The header\<close>

text \<open>\<open>range(0, len(xs), n)\<close>\<close>

definition starts :: "nat \<Rightarrow> nat \<Rightarrow> nat list" where
  "starts n len = map (\<lambda>i. i * n) [0..<(len + n - 1) div n]"

definition rows_text :: "('a \<Rightarrow> string) \<Rightarrow> nat \<Rightarrow> 'a list \<Rightarrow> string list" where
  "rows_text shown_as n xs = map (\<lambda>i. joined '', '' (map shown_as (py_slice i (i + n) xs))) (starts n (length xs))"

definition hex_text :: "nat \<Rightarrow> int \<Rightarrow> string" where
  "hex_text width v = ''0x'' @ hex_lower width v"

definition row_sep :: string where
  "row_sep = '','' @ [CHR 0x0A] @ ''    ''"

definition byte_rows :: "bytes \<Rightarrow> string" where
  "byte_rows data = (let rows = rows_text (\<lambda>v. hex_text 2 (uint v)) 16 data in if rows \<noteq> [] then joined row_sep rows else ''0'')"

definition quoted :: "string \<Rightarrow> string" where
  "quoted s = [CHR 0x22] @ s @ [CHR 0x22]"

text \<open>An initialiser: the values between braces.\<close>

definition braces :: "string \<Rightarrow> string" where
  "braces body = ''{'' @ [CHR 0x0A] @ ''    '' @ body @ [CHR 0x0A] @ ''};''"

definition c_bytes :: "string \<Rightarrow> bytes \<Rightarrow> string \<Rightarrow> string" where
  "c_bytes name data sec =
     ''__attribute__((section('' @ quoted sec @ ''), aligned(16)))'' @ [CHR 0x0A]
     @ ''static const uint8_t '' @ name @ ''['' @ decimal (int (max (length data) 1)) @ ''] = '' @ braces (byte_rows data) @ [CHR 0x0A]"

definition define_line :: "string \<Rightarrow> int \<Rightarrow> string \<Rightarrow> string" where
  "define_line name v note' = ''#define '' @ name @ decimal v @ ''U'' @ note'"

definition values_text :: "int list \<Rightarrow> string" where
  "values_text vs = joined '', '' (map decimal vs)"

definition cms_rows :: "int list \<Rightarrow> string" where
  "cms_rows words = joined row_sep (rows_text (hex_text 8) 6 words)"

text \<open>The lines before the arrays, with the sizes and offsets.\<close>

definition head_lines :: "vela_info \<Rightarrow> string list" where
  "head_lines info =
     [''/* Generated by host/container/make_conv1x1_study.py -- do not edit. */'',
      ''#ifndef CONV1X1_DATA_H'', ''#define CONV1X1_DATA_H'', ''#include <stdint.h>'', [],
      define_line ''CONV1X1_CMS_BYTES   '' (int (length (vi_cms info))) ''      /* command stream -> QBASE/QSIZE (CC)        */'',
      define_line ''CONV1X1_CONST_BYTES '' (int (length (vi_const info))) ''      /* weights+bias/scale stream -> BASEP0 (WD, AO) */'',
      define_line ''CONV1X1_ARENA_BYTES '' (vi_arena_size info) ''      /* scratch arena -> BASEP1 (IFM and OFM live here) */'',
      define_line ''CONV1X1_FAST_BYTES  '' (vi_fast_size info) ''      /* fast scratch -> BASEP2                  */'',
      define_line ''CONV1X1_IFM_OFFSET  '' (io_off (hd (vi_ifms info))) ''      /* IFM offset inside the arena            */'',
      define_line ''CONV1X1_IFM_BYTES   '' (io_len (hd (vi_ifms info))) [],
      define_line ''CONV1X1_OFM_OFFSET  '' (io_off (hd (vi_ofms info))) ''      /* OFM offset inside the arena            */'',
      define_line ''CONV1X1_OFM_BYTES   '' (io_len (hd (vi_ofms info))) [], [],
      ''__attribute__((section('' @ quoted ''sec_command_stream'' @ ''), aligned(16)))'']"

definition study_lines :: "vela_info \<Rightarrow> int list \<Rightarrow> int list \<Rightarrow> int list \<Rightarrow> int list \<Rightarrow> string list" where
  "study_lines info words x ofm acc = head_lines info @
     [''static const uint32_t conv1x1_cms['' @ decimal (int (length words)) @ ''] = '' @ braces (cms_rows words),
      c_bytes ''conv1x1_const'' (vi_const info) ''sec_weight_data'',
      ''/* IFM, NHWC: 16 positions x 4 input channels */'',
      c_bytes ''conv1x1_ifm'' (map word_of_int x) ''sec_input_data'',
      ''/* expected OFM (TFLite reference == numpy accumulators, every scale 1.0), NHWC: 16 positions x 2 */'',
      ''static const int8_t conv1x1_expected_ofm[32] = '' @ braces (values_text ofm),
      ''/* numpy accumulators before AO, same layout; max |acc| = '' @ decimal (abs_max acc) @ '' */'',
      ''static const int32_t conv1x1_expected_acc[32] = '' @ braces (values_text acc), [],
      ''#endif'', []]"

text \<open>\<open>header\<close>; \<open>np.frombuffer(cms, "<u4")\<close> wants a multiple of four bytes.\<close>

definition study_header :: "vela_info \<Rightarrow> int list \<Rightarrow> int list \<Rightarrow> int list \<Rightarrow> exn + string" where
  "study_header info x ofm acc =
     (if length (vi_cms info) mod 4 \<noteq> 0 then Inl (ValueError ''frombuffer'')
      else Inr (joined [CHR 0x0A] (study_lines info (dec_words (length (vi_cms info) div 4) (vi_cms info)) x ofm acc)))"

definition study_main :: "int list \<Rightarrow> exn + vela_info \<Rightarrow> exn + string" where
  "study_main ofm inspected =
     (let x = study_ifm; acc = study_accumulators x in
      if abs_max acc > 127 then Inl (SystemExit ''accumulator does not fit int8 with scale 1.0'')
      else if ofm \<noteq> acc then Inl (SystemExit ''TFLite OFM != numpy accumulators'')
      else bind_res inspected (\<lambda>info.
        if io_len (hd (vi_ifms info)) \<noteq> int (length x) \<or> io_len (hd (vi_ofms info)) \<noteq> int (length ofm)
        then Inl (SystemExit ''Vela IFM/OFM sizes'') else study_header info x ofm acc))"

section \<open>The numbers of an initialiser\<close>

text \<open>The values a C initialiser body declares.\<close>

definition c_values :: "string \<Rightarrow> (exn + int) list" where
  "c_values body = (if strip_blank body = [] then [] else map int_base0 (split_char CHR '','' body))"

lemma digit_char_value:
  assumes "d < 16"
  shows "is_hex (digit_char d) \<and> digit_value (digit_char d) = int d"
proof -
  from assms have "d \<in> set [0..<16]" by simp
  then show ?thesis
    by (auto simp: upt_rec digit_char_def digit_value_def is_hex_def is_digit_def among_def less_eq_char_def less_char_def)
qed

abbreviation reads :: "int \<Rightarrow> string \<Rightarrow> int \<Rightarrow> bool" where
  "reads base ds n \<equiv> list_all (\<lambda>c. is_hex c \<and> digit_value c < base) ds \<and> ds \<noteq> [] \<and> foldl (\<lambda>v c. base * v + digit_value c) 0 ds = n"

lemma digits_of_reads: "2 \<le> base \<Longrightarrow> base \<le> 16 \<Longrightarrow> reads (int base) (digits_of base n) (int n)"
proof (induction base n rule: digits_of.induct)
  case (1 base n)
  show ?case
  proof (cases "n < base")
    case True
    then show ?thesis using 1 digit_char_value [of n] by (subst (1 2 3) digits_of.simps) simp
  next
    case False
    have "int base * int (n div base) + int (n mod base) = int n" by (simp flip: of_nat_mult of_nat_add)
    moreover have "n mod base < base" "n mod base < 16" using 1(2,3) by (simp_all add: order_less_le_trans [OF mod_less_divisor])
    ultimately show ?thesis
      using 1 False digit_char_value [of "n mod base"] by (subst (1 2 3) digits_of.simps) simp
  qed
qed

definition lowered :: "char \<Rightarrow> char" where
  "lowered c = (if among CHR ''A'' CHR ''F'' c then char_of (of_char c + 32 :: nat) else c)"

lemma lowered_hex:
  assumes "is_hex c"
  shows "is_hex (lowered c) \<and> digit_value (lowered c) = digit_value c"
proof (cases "among CHR ''A'' CHR ''F'' c")
  case True
  then have "65 \<le> (of_char c :: nat)" "(of_char c :: nat) < 71" by (simp_all add: among_def less_eq_char_def)
  then have "(of_char c :: nat) \<in> set [65..<71]" by (simp only: set_upt atLeastLessThan_iff)
  then have "(of_char c :: nat) \<in> {65, 66, 67, 68, 69, 70}" by (simp add: upt_rec)
  then have "c \<in> char_of ` {65 :: nat, 66, 67, 68, 69, 70}" by (metis (no_types, lifting) char_of_char image_eqI)
  then show ?thesis by (auto simp: lowered_def is_hex_def is_digit_def among_def digit_value_def less_eq_char_def)
qed (use assms in \<open>simp add: lowered_def\<close>)

lemma reads_lowered: "reads 16 ds n \<Longrightarrow> reads 16 (map lowered ds) n"
proof -
  have "foldl (\<lambda>v c. 16 * v + digit_value c) v (map lowered ds) = foldl (\<lambda>v c. 16 * v + digit_value c) v ds"
    if "list_all is_hex ds" for v ds using that by (induction ds arbitrary: v) (auto simp: lowered_hex)
  moreover assume "reads 16 ds n"
  ultimately show ?thesis by (auto simp: list_all_iff lowered_hex)
qed

lemma reads_zeros: "reads 16 ds n \<Longrightarrow> reads 16 (replicate k CHR ''0'' @ ds) n"
proof -
  have "foldl (\<lambda>v c. 16 * v + digit_value c) 0 (replicate k CHR ''0'') = 0"
    by (induction k) (simp_all add: digit_value_def)
  moreover assume "reads 16 ds n"
  ultimately show ?thesis by (auto simp: list_all_iff is_hex_def is_digit_def among_def less_eq_char_def digit_value_def)
qed


lemma base_digits_foldl:
  "list_all (\<lambda>c. is_hex c \<and> digit_value c < base) ds \<Longrightarrow> a \<or> ds \<noteq> []
    \<Longrightarrow> base_digits base v a ds = Some (foldl (\<lambda>v c. base * v + digit_value c) v ds)"
  by (induction ds arbitrary: v a) auto

lemma hex_lower_reads: "0 \<le> n \<Longrightarrow> reads 16 (hex_lower width n) n"
proof -
  assume "0 \<le> n"
  then have "reads 16 (digits_of 16 (nat n)) n" using digits_of_reads [of 16 "nat n"] by simp
  from reads_lowered [OF reads_zeros [OF this]] show ?thesis
    unfolding hex_lower_def hex_upper_def Let_def lowered_def .
qed


definition plain :: "string \<Rightarrow> bool" where
  "plain s \<longleftrightarrow> list_all (\<lambda>c. c \<noteq> CHR '','' \<and> \<not> is_blank c) s"

text \<open>A text that is a number for \<open>int(text, 0)\<close>, without a comma or a blank.\<close>

definition numeral_for :: "string \<Rightarrow> int \<Rightarrow> bool" where
  "numeral_for s n \<longleftrightarrow> int_base0 s = Inr n \<and> s \<noteq> [] \<and> plain s"

lemma hex_plain: "is_hex c \<Longrightarrow> c \<noteq> CHR '','' \<and> \<not> is_blank c \<and> c \<noteq> CHR ''-'' \<and> c \<noteq> CHR ''+''
    \<and> c \<noteq> CHR ''x'' \<and> c \<noteq> CHR ''X'' \<and> c \<noteq> CHR ''o'' \<and> c \<noteq> CHR ''O''"
  by (auto simp: is_hex_def is_digit_def among_def is_blank_def Let_def less_eq_char_def)

lemma plain_hex: "list_all (\<lambda>c. is_hex c \<and> digit_value c < base) ds \<Longrightarrow> plain ds"
  unfolding plain_def by (induction ds) (simp_all add: hex_plain)

lemma plain_signs: "plain (CHR ''-'' # s) \<longleftrightarrow> plain s" "plain (''0x'' @ s) \<longleftrightarrow> plain s"
  by (simp_all add: plain_def is_blank_def)

lemma plain_strip: "plain s \<Longrightarrow> strip_blank s = s"
  unfolding plain_def by (rule strip_blank_id) (simp add: list_all_iff)

lemma hex_text_numeral: "0 \<le> n \<Longrightarrow> numeral_for (hex_text width n) n"
proof -
  assume "0 \<le> n"
  then have r: "reads 16 (hex_lower width n) n" by (rule hex_lower_reads)
  then have p: "plain (hex_text width n)" unfolding hex_text_def plain_signs using plain_hex by blast
  with r plain_strip [OF p] have "int_base0 (hex_text width n) = Inr n"
    by (simp add: int_base0_def Let_def hex_text_def unsigned_base0_def base_digits_foldl)
  with p show ?thesis by (simp add: numeral_for_def hex_text_def)
qed

lemma digits_of_leading: "2 \<le> base \<Longrightarrow> base \<le> 16 \<Longrightarrow> 0 < n \<Longrightarrow> hd (digits_of base n) \<noteq> CHR ''0''"
proof (induction base n rule: digits_of.induct)
  case (1 base n)
  have "digit_char n \<noteq> CHR ''0''" if "n < 16" using that 1(4) digit_char_value [of n] by (auto simp: digit_value_def)
  moreover have "0 < n div base" if "\<not> n < base" using that 1(2) by (simp add: div_greater_zero_iff)
  moreover have "digits_of base (n div base) \<noteq> []" using digits_of_reads [of base "n div base"] 1(2,3) by simp
  ultimately show ?case using 1 by (subst digits_of.simps) (auto simp: hd_append)
qed

lemma unsigned_decimal_text: "hd t \<noteq> CHR ''0'' \<Longrightarrow> unsigned_base0 t = base_digits 10 0 False t"
  by (cases t; cases "tl t") (auto simp: unsigned_base0_def simp del: base_digits.simps split: option.split)

lemma unsigned_decimal: "unsigned_base0 (digits_of 10 n) = Some (int n)"
proof -
  have r: "reads 10 (digits_of 10 n) (int n)" using digits_of_reads [of 10 n] by simp
  have b: "base_digits 10 0 False (digits_of 10 n) = Some (int n)" using r base_digits_foldl by auto
  show ?thesis
  proof (cases "n = 0")
    case True
    then show ?thesis by (simp add: digits_of.simps digit_char_def unsigned_base0_def is_hex_def is_digit_def among_def
          less_eq_char_def digit_value_def)
  next
    case False
    with digits_of_leading [of 10 n] have "hd (digits_of 10 n) \<noteq> CHR ''0''" by simp
    then show ?thesis using unsigned_decimal_text b by simp
  qed
qed

lemma decimal_numeral: "numeral_for (decimal n) n"
proof -
  let ?ds = "digits_of 10 (nat \<bar>n\<bar>)"
  have r: "reads 10 ?ds \<bar>n\<bar>" using digits_of_reads [of 10 "nat \<bar>n\<bar>"] by simp
  obtain c cs where c: "?ds = c # cs" "is_hex c" using r by (cases ?ds) auto
  have "decimal n = (if n < 0 then CHR ''-'' # ?ds else ?ds)" by (simp add: decimal_def)
  moreover have "plain ?ds" using plain_hex r by blast
  ultimately have p: "plain (decimal n)" using plain_signs(1) [of ?ds] by metis
  have s: "strip_blank (decimal n) = decimal n" by (rule plain_strip [OF p])
  have "int_base0 (decimal n) = Inr n"
  proof (cases "n < 0")
    case True
    then have "decimal n = CHR ''-'' # ?ds" by (simp add: decimal_def)
    with s True show ?thesis by (simp add: int_base0_def Let_def unsigned_decimal)
  next
    case False
    then have "decimal n = ?ds" by (simp add: decimal_def)
    with s False c hex_plain [OF c(2)] unsigned_decimal [of "nat \<bar>n\<bar>"] show ?thesis by (simp add: int_base0_def Let_def)
  qed
  with p r show ?thesis by (auto simp: numeral_for_def decimal_def)
qed


section \<open>Reading an initialiser\<close>

lemma split_char_append: "split_char c (x @ c # r) = split_char c x @ split_char c r"
  by (induction x) (auto split: list.splits)

lemma split_char_none: "list_all (\<lambda>x. x \<noteq> c) s \<Longrightarrow> split_char c s = [s]"
  by (induction s) auto

lemma int_base0_blank: "list_all is_blank bl \<Longrightarrow> int_base0 (bl @ s) = int_base0 s"
  by (simp add: int_base0_def strip_blank_def dropWhile_append list_all_iff)

abbreviation pieces :: "string \<Rightarrow> (exn + int) list" where
  "pieces s \<equiv> map int_base0 (split_char CHR '','' s)"

lemma pieces_blank: "list_all is_blank bl \<Longrightarrow> pieces (bl @ s) = pieces s"
proof (induction bl)
  case (Cons b bl)
  have "is_blank b" "b \<noteq> CHR '',''" using Cons.prems by (auto simp: is_blank_def)
  then have "pieces (b # bl @ s) = pieces (bl @ s)"
    using int_base0_blank [of "[b]"] by (auto split: list.splits)
  with Cons show ?case by simp
qed simp

lemma pieces_joined: "list_all is_blank bl \<Longrightarrow> xs \<noteq> [] \<Longrightarrow> pieces (joined (CHR '','' # bl) xs) = concat (map pieces xs)"
  by (induction "CHR '','' # bl" xs rule: joined.induct) (simp_all add: split_char_append pieces_blank)

lemma slices_concat: "0 < n \<Longrightarrow> concat (map (\<lambda>i. py_slice i (i + n) xs) (starts n (length xs))) = xs"
proof -
  have "concat (map (\<lambda>i. py_slice (i * n) (i * n + n) xs) [0..<k]) = take (k * n) xs" for k
    by (induction k) (simp_all add: py_slice_def add.commute [of n] flip: take_add)
  moreover assume "0 < n"
  then have "length xs \<le> (length xs + n - 1) div n * n"
    using div_mult_mod_eq [of "length xs + n - 1" n] mod_less_divisor [of n "length xs + n - 1"] by linarith
  ultimately show ?thesis by (simp add: starts_def comp_def)
qed

lemma starts_less: "0 < n \<Longrightarrow> i \<in> set (starts n len) \<Longrightarrow> i < len"
proof -
  assume n: "0 < n" and "i \<in> set (starts n len)"
  then obtain j where j: "i = j * n" "j < (len + n - 1) div n" by (auto simp: starts_def)
  then have "(j + 1) * n \<le> (len + n - 1) div n * n" by (intro mult_le_mono1) simp
  also have "\<dots> \<le> len + n - 1" by simp
  finally show ?thesis using n j(1) by simp
qed

text \<open>What a writer of numbers promises to a reader of the initialiser: for the values it is used on, text that reads as the
  value's number and has no separator in it.\<close>

locale number_text =
  fixes shown_as :: "'a \<Rightarrow> string" and number :: "'a \<Rightarrow> int" and suits :: "'a \<Rightarrow> bool"
  assumes reads_back: "suits v \<Longrightarrow> numeral_for (shown_as v) (number v)"
begin

lemma pieces_numerals:
  assumes "list_all suits vs" "vs \<noteq> []"
  shows "pieces (joined '', '' (map shown_as vs)) = map (\<lambda>v. Inr (number v)) vs"
proof -
  have "pieces (joined '', '' (map shown_as vs)) = concat (map pieces (map shown_as vs))"
    by (rule pieces_joined) (simp_all add: is_blank_def assms(2))
  also have "\<dots> = concat (map (\<lambda>v. [Inr (number v)]) vs)"
    by (intro arg_cong [where f = concat]) (use assms(1) reads_back in \<open>auto simp: numeral_for_def plain_def list_all_iff split_char_none\<close>)
  finally show ?thesis by simp
qed

lemma pieces_rows:
  assumes "list_all suits vs" "vs \<noteq> []" "0 < n"
  shows "pieces (joined row_sep (rows_text shown_as n vs)) = map (\<lambda>v. Inr (number v)) vs"
proof -
  let ?c = "map (\<lambda>i. py_slice i (i + n) vs) (starts n (length vs))"
  have ne: "?c \<noteq> []" using slices_concat [OF assms(3), of vs] assms(2) by auto
  have row: "pieces (joined '', '' (map shown_as c)) = map (\<lambda>v. Inr (number v)) c" if "c \<in> set ?c" for c
  proof (rule pieces_numerals)
    from that obtain i where i: "c = py_slice i (i + n) vs" "i < length vs" using starts_less [OF assms(3)] by auto
    then show "c \<noteq> []" using assms(3) by (simp add: py_slice_def)
    show "list_all suits c"
      using assms(1) i(1) by (auto simp: py_slice_def list_all_iff dest: in_set_takeD in_set_dropD)
  qed
  have "pieces (joined row_sep (map (\<lambda>c. joined '', '' (map shown_as c)) ?c)) = concat (map (\<lambda>c. map (\<lambda>v. Inr (number v)) c) ?c)"
    unfolding row_sep_def append.simps by (subst pieces_joined) (use ne row in \<open>simp_all add: is_blank_def cong: map_cong\<close>)
  also have "\<dots> = map (\<lambda>v. Inr (number v)) (concat ?c)" by (simp only: map_concat)
  finally show ?thesis unfolding slices_concat [OF assms(3)] by (simp add: rows_text_def comp_def)
qed

end

interpretation bytes_hex: number_text "\<lambda>v :: 8 word. hex_text 2 (uint v)" uint "\<lambda>_. True"
  by unfold_locales (simp add: hex_text_numeral)

interpretation words_hex: number_text "hex_text 8" "\<lambda>n. n" "\<lambda>n. 0 \<le> n"
  by unfold_locales (rule hex_text_numeral)

interpretation decimals: number_text decimal "\<lambda>n. n" "\<lambda>_. True"
  by unfold_locales (rule decimal_numeral)

section \<open>Reading the header\<close>

text \<open>A declaration \<open>... type name[size] =\<close>: its type, its name and its size.\<close>

definition declared :: "string \<Rightarrow> string \<times> string \<times> (exn + int)" where
  "declared d =
     (let r = dropWhile (\<lambda>c. c \<noteq> CHR '']'') (rev d); n = dropWhile (\<lambda>c. c \<noteq> CHR ''['') r; t = dropWhile (\<lambda>c. c \<noteq> CHR '' '') n
      in (rev (takeWhile (\<lambda>c. c \<noteq> CHR '' '') (tl t)), rev (takeWhile (\<lambda>c. c \<noteq> CHR '' '') (tl n)),
          int_base0 (rev (takeWhile (\<lambda>c. c \<noteq> CHR ''['') (tl r)))))"

text \<open>The arrays of a header, each with its declaration and the values between its braces: a text cut at the opening braces,
  and each piece at its closing one.\<close>

fun arrays_from :: "string \<Rightarrow> string list \<Rightarrow> ((string \<times> string \<times> (exn + int)) \<times> (exn + int) list) list" where
  "arrays_from d [] = []"
| "arrays_from d (p # ps) = (declared d, c_values (takeWhile (\<lambda>c. c \<noteq> CHR ''}'') p))
     # arrays_from (tl (dropWhile (\<lambda>c. c \<noteq> CHR ''}'') p)) ps"

definition c_arrays :: "string \<Rightarrow> ((string \<times> string \<times> (exn + int)) \<times> (exn + int) list) list" where
  "c_arrays h = (let ps = split_char CHR ''{'' h in arrays_from (hd ps) (tl ps))"

text \<open>\<open>#define name nU\<close>, perhaps with a comment behind it, on the lines before the first array.\<close>

definition define_of :: "string \<Rightarrow> (string \<times> (exn + int)) option" where
  "define_of line = (case filter (\<lambda>w. w \<noteq> []) (split_char CHR '' '' line) of
     d # name # v # _ \<Rightarrow> if d = ''#define'' \<and> last v = CHR ''U'' then Some (name, int_base0 (butlast v)) else None | _ \<Rightarrow> None)"

definition c_defines :: "string \<Rightarrow> (string \<times> (exn + int)) list" where
  "c_defines h = List.map_filter define_of (split_char CHR 0x0A (takeWhile (\<lambda>c. c \<noteq> CHR ''{'') h))"

definition no_brace :: "string \<Rightarrow> bool" where
  "no_brace s \<longleftrightarrow> list_all (\<lambda>c. c \<noteq> CHR ''{'' \<and> c \<noteq> CHR ''}'') s"

lemma no_brace_simps [simp]: "no_brace []" "no_brace (c # s) \<longleftrightarrow> c \<noteq> CHR ''{'' \<and> c \<noteq> CHR ''}'' \<and> no_brace s"
  "no_brace (s @ t) \<longleftrightarrow> no_brace s \<and> no_brace t"
  by (simp_all add: no_brace_def)

lemma no_brace_joined: "no_brace sep \<Longrightarrow> list_all no_brace xs \<Longrightarrow> no_brace (joined sep xs)"
  by (induction sep xs rule: joined.induct) simp_all

lemma no_brace_hex: "list_all (\<lambda>c. is_hex c \<and> digit_value c < b) ds \<Longrightarrow> no_brace ds"
  unfolding no_brace_def list_all_iff by (auto simp: is_hex_def is_digit_def among_def less_eq_char_def)

lemma no_brace_hex_text: "0 \<le> n \<Longrightarrow> no_brace (hex_text width n)"
  using hex_lower_reads [of n width] no_brace_hex by (auto simp: hex_text_def)

lemma no_brace_decimal [simp]: "no_brace (decimal n)"
  using digits_of_reads [of 10 "nat \<bar>n\<bar>"] no_brace_hex by (auto simp: decimal_def)

lemma no_brace_rows: "(\<And>x. x \<in> set xs \<Longrightarrow> no_brace (f x)) \<Longrightarrow> no_brace (joined row_sep (rows_text f n xs))"
  by (auto intro!: no_brace_joined simp: rows_text_def row_sep_def list_all_iff py_slice_def dest!: in_set_takeD in_set_dropD)

lemma no_brace_bodies: "no_brace (cms_rows (map uint (ws :: 32 word list)))" "no_brace (byte_rows data)" "no_brace (values_text vs)"
proof -
  show "no_brace (cms_rows (map uint ws))" unfolding cms_rows_def by (rule no_brace_rows) (auto intro: no_brace_hex_text)
  have "no_brace (joined row_sep (rows_text (\<lambda>v. hex_text 2 (uint v)) 16 data))" by (rule no_brace_rows) (simp add: no_brace_hex_text)
  then show "no_brace (byte_rows data)" unfolding byte_rows_def Let_def by simp
  show "no_brace (values_text vs)" unfolding values_text_def by (rule no_brace_joined) (simp_all add: list_all_iff)
qed

lemma split_brace:
  "no_brace d \<Longrightarrow> no_brace b \<Longrightarrow> c_arrays (d @ CHR ''{'' # b @ CHR ''}'' # rest) = (declared d, c_values b) # c_arrays rest"
proof -
  have pre: "split_char c (x @ y) = (x @ hd (split_char c y)) # tl (split_char c y)" if "list_all (\<lambda>z. z \<noteq> c) x" for c x y
    using that by (induction x) (auto split: list.split)
  assume d: "no_brace d" and b: "no_brace b"
  then have n: "list_all (\<lambda>z. z \<noteq> CHR ''{'') d" "list_all (\<lambda>z. z \<noteq> CHR ''{'') (b @ [CHR ''}''])" "\<forall>z \<in> set b. z \<noteq> CHR ''}''"
    by (simp_all add: no_brace_def list_all_iff)
  have "split_char CHR ''{'' (d @ CHR ''{'' # b @ CHR ''}'' # rest)
      = d # (b @ CHR ''}'' # hd (split_char CHR ''{'' rest)) # tl (split_char CHR ''{'' rest)"
    using pre [OF n(2), of rest] by (simp add: split_char_append split_char_none [OF n(1)])
  with n(3) show ?thesis by (simp add: c_arrays_def Let_def takeWhile_append dropWhile_append)
qed

lemma no_arrays: "no_brace s \<Longrightarrow> c_arrays s = []"
  using split_char_none [of "CHR ''{''" s] by (simp add: c_arrays_def Let_def no_brace_def list_all_iff)

definition word_text :: "string \<Rightarrow> bool" where
  "word_text s \<longleftrightarrow> list_all (\<lambda>c. c \<noteq> CHR '' '' \<and> c \<noteq> CHR ''['' \<and> c \<noteq> CHR '']'') s"

lemma declared_reads:
  assumes "word_text ty" "word_text name"
  shows "declared (pre @ '' '' @ ty @ '' '' @ name @ ''['' @ decimal n @ ''] = '') = (ty, name, Inr n)"
proof -
  have "is_hex c \<Longrightarrow> c \<noteq> CHR ''[''" for c by (auto simp: is_hex_def is_digit_def among_def less_eq_char_def)
  then have "list_all (\<lambda>c. c \<noteq> CHR ''['') (digits_of 10 (nat \<bar>n\<bar>))"
    using digits_of_reads [of 10 "nat \<bar>n\<bar>"] by (auto simp: list_all_iff)
  then have "list_all (\<lambda>c. c \<noteq> CHR ''['') (decimal n)" by (cases "n < 0") (simp_all add: decimal_def)
  then have "\<forall>c \<in> set (rev (decimal n)). c \<noteq> CHR ''[''" by (simp add: list_all_iff)
  moreover have "\<forall>c \<in> set (rev ty). c \<noteq> CHR '' ''" "\<forall>c \<in> set (rev name). c \<noteq> CHR '' ''"
    using assms by (simp_all add: word_text_def list_all_iff)
  moreover have "int_base0 (decimal n) = Inr n" using decimal_numeral by (simp add: numeral_for_def)
  ultimately show ?thesis by (simp add: declared_def Let_def takeWhile_append dropWhile_append)
qed

lemma pieces_trail: "list_all is_blank bl \<Longrightarrow> pieces (s @ bl) = pieces s"
proof -
  assume bl: "list_all is_blank bl"
  have drop: "dropWhile is_blank (rev bl @ t) = dropWhile is_blank t" for t
    using bl by (simp add: dropWhile_append list_all_iff)
  have strip: "strip_blank (t @ bl) = strip_blank t" for t
  proof (cases "list_all is_blank t")
    case True
    then have "dropWhile is_blank (t @ bl) = []" "dropWhile is_blank t = []"
      using bl by (auto simp: dropWhile_eq_Nil_conv list_all_iff)
    then show ?thesis by (metis strip_blank_def)
  next
    case False
    then have "dropWhile is_blank (t @ bl) = dropWhile is_blank t @ bl" by (auto simp: dropWhile_append list_all_iff)
    then show ?thesis by (simp only: strip_blank_def rev_append drop)
  qed
  have bl': "list_all (\<lambda>x. x \<noteq> CHR '','') bl" using bl by (auto simp: list_all_iff is_blank_def)
  have one: "pieces (t @ bl) = pieces t" if "list_all (\<lambda>x. x \<noteq> CHR '','') t" for t
    using split_char_none [of "CHR '',''" "t @ bl"] split_char_none [OF that] that bl' strip by (simp add: int_base0_def)
  show ?thesis
  proof (cases "CHR '','' \<in> set s")
    case True
    then obtain x t where "s = x @ CHR '','' # t" "CHR '','' \<notin> set t" by (meson split_list_last)
    with one [of t] show ?thesis by (simp add: split_char_append list_all_iff) metis
  next
    case False
    then show ?thesis using one [of s] by (simp add: list_all_iff) metis
  qed
qed

lemma strip_blank_empty: "strip_blank s = [] \<longleftrightarrow> list_all is_blank s"
proof
  assume "strip_blank s = []"
  then have "\<forall>x \<in> set (dropWhile is_blank s). is_blank x" by (simp add: strip_blank_def dropWhile_eq_Nil_conv)
  then have "dropWhile is_blank s = []" by (cases "dropWhile is_blank s") (auto simp: dropWhile_eq_Cons_conv)
  then show "list_all is_blank s" by (simp add: dropWhile_eq_Nil_conv list_all_iff)
qed (auto simp: strip_blank_def dropWhile_eq_Nil_conv list_all_iff dest!: set_dropWhileD)

lemma c_values_pieces: "pieces body = map Inr vs \<Longrightarrow> vs \<noteq> [] \<Longrightarrow> c_values body = map Inr vs"
proof -
  assume p: "pieces body = map Inr vs" and "vs \<noteq> []"
  have "\<not> list_all is_blank body"
  proof
    assume "list_all is_blank body"
    from pieces_blank [OF this, of "[]"] have "pieces body = pieces []" by simp
    with p show False using \<open>vs \<noteq> []\<close> by (cases vs) (simp_all add: int_base0_def strip_blank_def)
  qed
  with p show ?thesis by (simp add: c_values_def strip_blank_empty)
qed

lemma c_values_empty: "c_values [] = []"
  by (simp add: c_values_def strip_blank_def)

lemma c_values_words: "c_values (cms_rows (map uint (ws :: 32 word list))) = map (\<lambda>w. Inr (uint w)) ws"
proof (cases "ws = []")
  case False
  have "pieces (cms_rows (map uint ws)) = map (\<lambda>v. Inr v) (map uint ws)"
    unfolding cms_rows_def by (rule words_hex.pieces_rows) (use False in \<open>simp_all add: list_all_iff\<close>)
  from c_values_pieces [OF this] False show ?thesis by (simp add: comp_def)
qed (simp add: cms_rows_def rows_text_def starts_def c_values_empty)

lemma c_values_bytes: "c_values (byte_rows data) = (if data = [] then [Inr 0] else map (\<lambda>v. Inr (uint v)) data)"
proof (cases "data = []")
  case True
  then show ?thesis by (simp add: byte_rows_def rows_text_def starts_def c_values_def strip_blank_def is_blank_def int_base0_def
        unsigned_base0_def is_hex_def is_digit_def among_def less_eq_char_def digit_value_def)
next
  case False
  then have r: "rows_text (\<lambda>v. hex_text 2 (uint v)) 16 data \<noteq> []"
    using slices_concat [of 16 data] by (auto simp: rows_text_def)
  have "pieces (byte_rows data) = map (\<lambda>v. Inr (uint v)) data"
    unfolding byte_rows_def Let_def if_P [OF r] by (rule bytes_hex.pieces_rows) (use False in \<open>simp_all add: list_all_iff\<close>)
  with c_values_pieces [of "byte_rows data" "map uint data"] False show ?thesis by (simp add: comp_def)
qed

lemma c_values_decimals: "c_values (values_text vs) = map Inr vs"
proof (cases "vs = []")
  case False
  have "pieces (values_text vs) = map (\<lambda>v. Inr v) vs"
    unfolding values_text_def by (rule decimals.pieces_numerals) (use False in \<open>simp_all add: list_all_iff\<close>)
  from c_values_pieces [OF this False] show ?thesis .
qed (simp add: values_text_def c_values_empty)

lemma c_values_wrapped:
  assumes "list_all is_blank bl" "list_all is_blank bl'" "c_values body = map Inr vs"
  shows "c_values (bl @ body @ bl') = map Inr vs"
proof (cases "vs = []")
  case True
  with assms(3) have "list_all is_blank body" by (simp add: c_values_def strip_blank_empty split: if_splits)
  with assms(1,2) True show ?thesis by (simp add: c_values_def strip_blank_empty)
next
  case False
  with assms(3) have "pieces body = map Inr vs" by (auto simp: c_values_def split: if_splits)
  with pieces_blank [OF assms(1)] pieces_trail [OF assms(2)] have "pieces (bl @ body @ bl') = map Inr vs" by simp
  from c_values_pieces [OF this False] show ?thesis .
qed

text \<open>An array of the header, at any place in it.\<close>

lemma array_reads:
  assumes "no_brace pre" "no_brace ty" "no_brace name" "word_text ty" "word_text name" "no_brace body" "c_values body = map Inr vs"
  shows "c_arrays (pre @ '' '' @ ty @ '' '' @ name @ ''['' @ decimal n @ ''] = '' @ braces body @ rest)
    = ((ty, name, Inr n), map Inr vs) # c_arrays ('';'' @ rest)"
proof -
  let ?d = "pre @ '' '' @ ty @ '' '' @ name @ ''['' @ decimal n @ ''] = ''" and ?b = "(CHR 0x0A # ''    '') @ body @ [CHR 0x0A]"
  have d: "no_brace ?d" "no_brace ?b" using assms(1-3,6) by simp_all
  have "c_values ?b = map Inr vs" by (rule c_values_wrapped) (simp_all add: is_blank_def assms(7))
  with split_brace [OF d, of "'';'' @ rest"] declared_reads [OF assms(4,5)] show ?thesis by (simp add: braces_def)
qed

section \<open>The study's header\<close>

abbreviation nl :: string where
  "nl \<equiv> [CHR 0x0A]"

lemma joined_append: "xs \<noteq> [] \<Longrightarrow> ys \<noteq> [] \<Longrightarrow> joined sep (xs @ ys) = joined sep xs @ sep @ joined sep ys"
  by (induction sep xs rule: joined.induct) (auto simp: neq_Nil_conv)

definition array_head :: "string \<Rightarrow> string \<Rightarrow> int \<Rightarrow> string" where
  "array_head ty name n = ''static const '' @ ty @ '' '' @ name @ ''['' @ decimal n @ ''] = ''"

lemma array_text_reads:
  assumes "no_brace pre" "no_brace ty" "no_brace name" "word_text ty" "word_text name" "no_brace body" "c_values body = map Inr vs"
  shows "c_arrays (pre @ array_head ty name n @ braces body @ rest) = ((ty, name, Inr n), map Inr vs) # c_arrays ('';'' @ rest)"
  using array_reads [OF _ assms(2-7), of "pre @ ''static const''" n rest] assms(1) by (simp add: array_head_def)

lemma c_bytes_text: "c_bytes name data sec = ''__attribute__((section('' @ quoted sec @ ''), aligned(16)))'' @ nl
    @ array_head ''uint8_t'' name (int (max (length data) 1)) @ braces (byte_rows data) @ nl"
  by (simp only: c_bytes_def array_head_def append_assoc append.simps)

lemma expected_heads: "''static const int8_t conv1x1_expected_ofm[32] = '' = array_head ''int8_t'' ''conv1x1_expected_ofm'' 32"
  "''static const int32_t conv1x1_expected_acc[32] = '' = array_head ''int32_t'' ''conv1x1_expected_acc'' 32"
  "''static const uint32_t conv1x1_cms['' @ decimal n @ ''] = '' @ t = array_head ''uint32_t'' ''conv1x1_cms'' n @ t"
proof -
  have "decimal 32 = ''32''" by code_simp
  then show "''static const int8_t conv1x1_expected_ofm[32] = '' = array_head ''int8_t'' ''conv1x1_expected_ofm'' 32"
    "''static const int32_t conv1x1_expected_acc[32] = '' = array_head ''int32_t'' ''conv1x1_expected_acc'' 32"
    "''static const uint32_t conv1x1_cms['' @ decimal n @ ''] = '' @ t = array_head ''uint32_t'' ''conv1x1_cms'' n @ t"
    by (simp_all add: array_head_def)
qed

lemma no_head_lines: "head_lines info = [] \<longleftrightarrow> False"
  by (simp add: head_lines_def)

lemma no_brace_head: "list_all no_brace (head_lines info)"
  by (simp add: head_lines_def define_line_def quoted_def)

lemma study_arrays:
  "c_arrays (joined nl (study_lines info (map uint (ws :: 32 word list)) x ofm acc)) =
    [((''uint32_t'', ''conv1x1_cms'', Inr (int (length ws))), map (\<lambda>w. Inr (uint w)) ws),
     ((''uint8_t'', ''conv1x1_const'', Inr (int (max (length (vi_const info)) 1))),
        if vi_const info = [] then [Inr 0] else map (\<lambda>b. Inr (uint b)) (vi_const info)),
     ((''uint8_t'', ''conv1x1_ifm'', Inr (int (max (length x) 1))), if x = [] then [Inr 0] else map (\<lambda>v. Inr (v mod 256)) x),
     ((''int8_t'', ''conv1x1_expected_ofm'', Inr 32), map Inr ofm),
     ((''int32_t'', ''conv1x1_expected_acc'', Inr 32), map Inr acc)]"
proof -
  define c1 where "c1 = ''/* IFM, NHWC: 16 positions x 4 input channels */''"
  define c2 where "c2 = ''/* expected OFM (TFLite reference == numpy accumulators, every scale 1.0), NHWC: 16 positions x 2 */''"
  define c3 where "c3 = ''/* numpy accumulators before AO, same layout; max |acc| = '' @ decimal (abs_max acc) @ '' */''"
  define s1 where "s1 = ''__attribute__((section('' @ quoted ''sec_weight_data'' @ ''), aligned(16)))''"
  define s2 where "s2 = ''__attribute__((section('' @ quoted ''sec_input_data'' @ ''), aligned(16)))''"
  have nb: "no_brace c1" "no_brace c2" "no_brace c3" "no_brace s1" "no_brace s2"
    by (simp_all add: c1_def c2_def c3_def s1_def s2_def quoted_def)
  define h where "h = joined nl (head_lines info)"
  have h: "no_brace h" unfolding h_def by (rule no_brace_joined [OF _ no_brace_head]) simp
  define e where "e = nl @ [] @ nl @ ''#endif'' @ nl"
  have e: "no_brace ('';'' @ e)" by (simp add: e_def)
  let ?a1 = "array_head ''uint32_t'' ''conv1x1_cms'' (int (length ws))"
  let ?a2 = "array_head ''uint8_t'' ''conv1x1_const'' (int (max (length (vi_const info)) 1))"
  let ?a3 = "array_head ''uint8_t'' ''conv1x1_ifm'' (int (max (length x) 1))"
  let ?a4 = "array_head ''int8_t'' ''conv1x1_expected_ofm'' 32" and ?a5 = "array_head ''int32_t'' ''conv1x1_expected_acc'' 32"
  let ?t5 = "nl @ c3 @ nl @ ?a5 @ braces (values_text acc) @ e"
  let ?t4 = "nl @ nl @ c2 @ nl @ ?a4 @ braces (values_text ofm) @ ?t5"
  let ?t3 = "nl @ nl @ c1 @ nl @ s2 @ nl @ ?a3 @ braces (byte_rows (map word_of_int x)) @ ?t4"
  let ?t2 = "nl @ s1 @ nl @ ?a2 @ braces (byte_rows (vi_const info)) @ ?t3"
  have tx: "joined nl (study_lines info (map uint ws) x ofm acc) = (h @ nl) @ ?a1 @ braces (cms_rows (map uint ws)) @ ?t2"
    unfolding study_lines_def expected_heads c_bytes_text h_def e_def length_map
    unfolding c1_def [symmetric] c2_def [symmetric] c3_def [symmetric] s1_def s2_def
    by (subst joined_append) (simp_all only: list.distinct joined.simps append_assoc append_Nil append_Nil2 not_False_eq_True no_head_lines)
  have r5: "c_arrays ('';'' @ ?t5) = [((''int32_t'', ''conv1x1_expected_acc'', Inr 32), map Inr acc)]"
    using array_text_reads [of "'';'' @ nl @ c3 @ nl" "''int32_t''" "''conv1x1_expected_acc''" "values_text acc" acc 32 e] no_arrays [OF e]
    by (simp add: nb word_text_def no_brace_bodies c_values_decimals)
  have r4: "c_arrays ('';'' @ ?t4) = ((''int8_t'', ''conv1x1_expected_ofm'', Inr 32), map Inr ofm) # c_arrays ('';'' @ ?t5)"
    using array_text_reads [of "'';'' @ nl @ nl @ c2 @ nl" "''int8_t''" "''conv1x1_expected_ofm''" "values_text ofm" ofm 32 ?t5]
    by (simp add: nb word_text_def no_brace_bodies c_values_decimals)
  have b: "c_values (byte_rows d) = map Inr (if d = [] then [0] else map uint d)" for d by (simp add: c_values_bytes)
  have r3: "c_arrays ('';'' @ ?t3) = ((''uint8_t'', ''conv1x1_ifm'', Inr (int (max (length x) 1))),
      if x = [] then [Inr 0] else map (\<lambda>v. Inr (v mod 256)) x) # c_arrays ('';'' @ ?t4)"
    using array_text_reads [of "'';'' @ nl @ nl @ c1 @ nl @ s2 @ nl" "''uint8_t''" "''conv1x1_ifm''" "byte_rows (map word_of_int x)"
        _ "int (max (length x) 1)" ?t4, OF _ _ _ _ _ _ b]
    by (simp add: nb word_text_def no_brace_bodies unsigned_of_int take_bit_eq_mod comp_def)
  have r2: "c_arrays ('';'' @ ?t2) = ((''uint8_t'', ''conv1x1_const'', Inr (int (max (length (vi_const info)) 1))),
      if vi_const info = [] then [Inr 0] else map (\<lambda>b. Inr (uint b)) (vi_const info)) # c_arrays ('';'' @ ?t3)"
    using array_text_reads [of "'';'' @ nl @ s1 @ nl" "''uint8_t''" "''conv1x1_const''" "byte_rows (vi_const info)"
        _ "int (max (length (vi_const info)) 1)" ?t3, OF _ _ _ _ _ _ b]
    by (simp add: nb word_text_def no_brace_bodies comp_def)
  have r1: "c_arrays ((h @ nl) @ ?a1 @ braces (cms_rows (map uint ws)) @ ?t2)
      = ((''uint32_t'', ''conv1x1_cms'', Inr (int (length ws))), map (\<lambda>w. Inr (uint w)) ws) # c_arrays ('';'' @ ?t2)"
    using array_text_reads [of "h @ nl" "''uint32_t''" "''conv1x1_cms''" "cms_rows (map uint ws)" "map uint ws" "int (length ws)" ?t2]
    by (simp add: h word_text_def no_brace_bodies c_values_words comp_def)
  show ?thesis unfolding tx r1 r2 r3 r4 r5 ..
qed

lemma split_lines: "list_all (list_all (\<lambda>c. c \<noteq> CHR 0x0A)) ls \<Longrightarrow> ls \<noteq> [] \<Longrightarrow> split_char CHR 0x0A (joined nl ls) = ls"
  by (induction nl ls rule: joined.induct) (simp_all add: split_char_none split_char_append)

lemma decimal_chars: "list_all (\<lambda>c. \<not> is_blank c) (decimal n)" "decimal n \<noteq> []"
  using decimal_numeral [of n] by (auto simp: numeral_for_def plain_def list_all_iff)

lemma define_reads:
  assumes "list_all (\<lambda>c. c \<noteq> CHR '' '') name" "name \<noteq> []" "note' = [] \<or> note' = CHR '' '' # r"
  shows "define_of (define_line (name @ replicate (Suc k) CHR '' '') v note') = Some (name, Inr v)"
proof -
  have s: "filter (\<lambda>w. w \<noteq> []) (split_char CHR '' '' (replicate j CHR '' '' @ t)) = filter (\<lambda>w. w \<noteq> []) (split_char CHR '' '' t)" for j t
    by (induction j) simp_all
  have d: "list_all (\<lambda>c. c \<noteq> CHR '' '') (decimal v @ ''U'')"
    using decimal_chars(1) [of v] by (auto simp: list_all_iff is_blank_def)
  have v: "\<exists>ws. split_char CHR '' '' (decimal v @ ''U'' @ note') = (decimal v @ ''U'') # ws"
    using assms(3) split_char_none [OF d] split_char_append [of "CHR '' ''" "decimal v @ ''U''" r] by auto
  have "split_char CHR '' '' (define_line (name @ replicate (Suc k) CHR '' '') v note')
      = ''#define'' # name # split_char CHR '' '' (replicate k CHR '' '' @ decimal v @ ''U'' @ note')"
    using split_char_append [of "CHR '' ''" "''#define''"] split_char_append [of "CHR '' ''" name] split_char_none [OF assms(1)]
    by (simp add: define_line_def)
  with v s [of k "decimal v @ ''U'' @ note'"] show ?thesis
    using assms(2) decimal_numeral [of v] by (auto simp: define_of_def numeral_for_def)
qed

definition cms_head :: "int list \<Rightarrow> string" where
  "cms_head words = ''static const uint32_t'' @ CHR '' '' # ''conv1x1_cms['' @ decimal (int (length words)) @ ''] = ''"

lemma study_head_text:
  "takeWhile (\<lambda>c. c \<noteq> CHR ''{'') (joined nl (study_lines info words x ofm acc)) = joined nl (head_lines info @ [cms_head words])"
proof -
  have h: "no_brace (joined nl (head_lines info) @ nl @ cms_head words)"
    using no_brace_joined [OF _ no_brace_head] by (simp add: cms_head_def)
  have "\<exists>t. joined nl (study_lines info words x ofm acc) = (joined nl (head_lines info) @ nl @ cms_head words) @ CHR ''{'' # t"
    unfolding study_lines_def by (subst joined_append) (simp_all add: no_head_lines braces_def cms_head_def)
  then obtain t where "joined nl (study_lines info words x ofm acc) = (joined nl (head_lines info) @ nl @ cms_head words) @ CHR ''{'' # t" ..
  moreover have "joined nl (head_lines info @ [cms_head words]) = joined nl (head_lines info) @ nl @ cms_head words"
    by (subst joined_append) (simp_all add: no_head_lines)
  ultimately show ?thesis using h by (simp add: takeWhile_append2 no_brace_def list_all_iff)
qed

lemma decimal_one_line [simp]: "list_all (\<lambda>c. c \<noteq> CHR 0x0A) (decimal n)"
  using decimal_chars(1) [of n] by (auto simp: list_all_iff is_blank_def)

lemma head_one_line: "list_all (list_all (\<lambda>c. c \<noteq> CHR 0x0A)) (head_lines info @ [cms_head words])"
  by (simp add: head_lines_def define_line_def quoted_def cms_head_def)

lemma study_defines:
  "c_defines (joined nl (study_lines info words x ofm acc)) =
    [(''CONV1X1_CMS_BYTES'', Inr (int (length (vi_cms info)))), (''CONV1X1_CONST_BYTES'', Inr (int (length (vi_const info)))),
     (''CONV1X1_ARENA_BYTES'', Inr (vi_arena_size info)), (''CONV1X1_FAST_BYTES'', Inr (vi_fast_size info)),
     (''CONV1X1_IFM_OFFSET'', Inr (io_off (hd (vi_ifms info)))), (''CONV1X1_IFM_BYTES'', Inr (io_len (hd (vi_ifms info)))),
     (''CONV1X1_OFM_OFFSET'', Inr (io_off (hd (vi_ofms info)))), (''CONV1X1_OFM_BYTES'', Inr (io_len (hd (vi_ofms info))))]"
proof -
  have none: "define_of ''/* Generated by host/container/make_conv1x1_study.py -- do not edit. */'' = None"
    "define_of ''#ifndef CONV1X1_DATA_H'' = None" "define_of ''#define CONV1X1_DATA_H'' = None" "define_of ''#include <stdint.h>'' = None"
    "define_of [] = None" "define_of (''__attribute__((section('' @ quoted ''sec_command_stream'' @ ''), aligned(16)))'') = None"
    by (simp_all add: define_of_def quoted_def)
  have c: "define_of (cms_head words) = None"
    unfolding cms_head_def define_of_def split_char_append by simp
  have d: "define_of (define_line ''CONV1X1_CMS_BYTES   '' v (CHR '' '' # n)) = Some (''CONV1X1_CMS_BYTES'', Inr v)"
    "define_of (define_line ''CONV1X1_CONST_BYTES '' v (CHR '' '' # n)) = Some (''CONV1X1_CONST_BYTES'', Inr v)"
    "define_of (define_line ''CONV1X1_ARENA_BYTES '' v (CHR '' '' # n)) = Some (''CONV1X1_ARENA_BYTES'', Inr v)"
    "define_of (define_line ''CONV1X1_FAST_BYTES  '' v (CHR '' '' # n)) = Some (''CONV1X1_FAST_BYTES'', Inr v)"
    "define_of (define_line ''CONV1X1_IFM_OFFSET  '' v (CHR '' '' # n)) = Some (''CONV1X1_IFM_OFFSET'', Inr v)"
    "define_of (define_line ''CONV1X1_IFM_BYTES   '' v []) = Some (''CONV1X1_IFM_BYTES'', Inr v)"
    "define_of (define_line ''CONV1X1_OFM_OFFSET  '' v (CHR '' '' # n)) = Some (''CONV1X1_OFM_OFFSET'', Inr v)"
    "define_of (define_line ''CONV1X1_OFM_BYTES   '' v []) = Some (''CONV1X1_OFM_BYTES'', Inr v)" for v n
    using define_reads [of "''CONV1X1_CMS_BYTES''" "CHR '' '' # n" n 2 v] define_reads [of "''CONV1X1_CONST_BYTES''" "CHR '' '' # n" n 0 v]
      define_reads [of "''CONV1X1_ARENA_BYTES''" "CHR '' '' # n" n 0 v] define_reads [of "''CONV1X1_FAST_BYTES''" "CHR '' '' # n" n 1 v]
      define_reads [of "''CONV1X1_IFM_OFFSET''" "CHR '' '' # n" n 1 v] define_reads [of "''CONV1X1_IFM_BYTES''" "[]" n 2 v]
      define_reads [of "''CONV1X1_OFM_OFFSET''" "CHR '' '' # n" n 1 v] define_reads [of "''CONV1X1_OFM_BYTES''" "[]" n 2 v]
    by (simp_all add: eval_nat_numeral)
  have l: "split_char CHR 0x0A (joined nl (head_lines info @ [cms_head words])) = head_lines info @ [cms_head words]"
    by (rule split_lines [OF head_one_line]) simp
  have "c_defines (joined nl (study_lines info words x ofm acc)) = List.map_filter define_of (head_lines info)"
    unfolding c_defines_def study_head_text l by (simp add: List.map_filter_def c)
  then show ?thesis unfolding head_lines_def by (simp only: map_filter_simps none d option.case)
qed

section \<open>The example's numbers\<close>

lemma study_ifm_value: "study_ifm = [2, 3, 1, 4, 5, 0, 2, 1, 3, -3, -2, -1, -1, 0, 1, 2, 2, 3, -3, -2, -2, -1, 0, 1, 1, 2, 3, -3, -3, -2, -1, 0,
    0, 1, 2, 3, 3, -3, -2, -1, -1, 0, 1, 2, 2, 3, -3, -2, -2, -1, 0, 1, 1, 2, 3, -3, -3, -2, -1, 0, 0, 1, 2, 3]"
  by (simp add: study_ifm_def splice_def upto_rec_numeral upto.simps)

lemma study_accumulators_value: "study_accumulators study_ifm =
    [15, 3, 12, -1, -10, -10, 4, 3, -3, -5, -3, 1, 11, 7, -10, -1, 11, 5, -10, -10, 4, 3, -3, -5, -3, 1, 11, 7, -10, -1, 11, 5]"
  unfolding study_accumulators_def by (simp add: upt_rec study_ifm_value WEIGHTS_def)

section \<open>Property\<close>

text \<open>The accumulators are those of the convolution of \<open>make_op_model\<close>, and the model has its MACs.\<close>

lemma study_convolution: "study_accumulators study_ifm = accumulators (Conv (1, 4, 4, 4) 2 1) study_ifm WEIGHTS [0, 0]"
  by (rule trans [OF study_accumulators_value])
    (simp add: study_ifm_value WEIGHTS_def upt_rec patch_def padded_def elem_def sum_upto_def Let_def)

lemma study_model_macs: "\<exists>ops. analyse_ops (study_model f32) (fm_operators (study_model f32)) = Inr ops \<and> ms_n_mac (macs_of (map or_n_mac ops)) = 128"
  by (simp add: study_model_def analyse_op_def fb_tensor_of_def op_macs_def index_def Let_def macs_of_def
      map_filter_simps)

lemma study_numbers: "abs_max (study_accumulators study_ifm) = 15" "length (study_accumulators study_ifm) = 32" "length study_ifm = 64"
  by (simp_all add: study_accumulators_value abs_max_def) (simp add: study_ifm_value)

lemma study_main_iff:
  "study_main ofm inspected = Inr h \<longleftrightarrow> ofm = study_accumulators study_ifm \<and> (\<exists>info ws :: 32 word list. inspected = Inr info
    \<and> io_len (hd (vi_ifms info)) = 64 \<and> io_len (hd (vi_ofms info)) = 32 \<and> vi_cms info = enc_words (map uint ws)
    \<and> h = joined [CHR 0x0A] (study_lines info (map uint ws) study_ifm ofm ofm))"
proof -
  have w: "\<exists>ws :: 32 word list. dec_words n bs = map uint ws" if "4 * n \<le> length bs" for n bs
    using dec_words_ok [OF that] by (intro exI [of _ "map word_of_int (dec_words n bs)"])
      (auto simp: words_ok_def list_all_iff map_idI comp_def take_bit_int_eq_self_iff unsigned_of_int)
  have e: "length (enc_words (map uint ws)) = 4 * length ws \<and> dec_words (length ws) (enc_words (map uint ws)) = map uint ws"
    for ws :: "32 word list"
  proof -
    have "uint w < 4294967296" for w :: "32 word" using uint_lt2p [of w] by simp
    then have "words_ok (map uint ws)" by (simp add: words_ok_def list_all_iff)
    then show ?thesis using dec_enc_words [of "map uint ws" "length ws" "[]"] by simp
  qed
  show ?thesis (is "_ \<longleftrightarrow> ?R")
  proof
    assume m: "study_main ofm inspected = Inr h"
    then obtain info where i: "inspected = Inr info" "ofm = study_accumulators study_ifm" "io_len (hd (vi_ifms info)) = 64"
      "io_len (hd (vi_ofms info)) = 32" "study_header info study_ifm ofm ofm = Inr h"
      by (auto simp: study_main_def Let_def study_numbers split: if_splits)
    then have l: "4 * (length (vi_cms info) div 4) = length (vi_cms info)"
      and h: "h = joined [CHR 0x0A] (study_lines info (dec_words (length (vi_cms info) div 4) (vi_cms info)) study_ifm ofm ofm)"
      by (auto simp: study_header_def split: if_splits)
    from w [of "length (vi_cms info) div 4" "vi_cms info"] l
    obtain ws :: "32 word list" where ws: "dec_words (length (vi_cms info) div 4) (vi_cms info) = map uint ws" by auto
    moreover from enc_dec_words [OF l] ws have "vi_cms info = enc_words (map uint ws)" by simp
    ultimately show ?R using i h by auto
  next
    assume ?R
    then show "study_main ofm inspected = Inr h" using e
      by (auto simp: study_main_def Let_def study_numbers study_header_def)
  qed
qed

text \<open>C40. The study's program writes its header exactly when the output of TFLite equals the accumulators, and Vela's output
  has one IFM of 64 and one OFM of 32 bytes and a command stream of whole words. The accumulators are those of the convolution
  that \<open>make_op_model\<close> computes, 15, 3 and 12, -1 at the two positions of the notes and never beyond 15, and the study's model
  has its 128 MACs. The header, read back, declares five arrays: the words whose little-endian bytes are Vela's command
  stream, the constants, the bytes of the IFM, and twice the accumulators, as the expected OFM and the expected accumulators,
  each with its C type and its length; and it defines the sizes and offsets that Vela gave.\<close>

theorem study_header_reads_back:
  "((\<exists>h. study_main ofm inspected = Inr h) \<longleftrightarrow> ofm = study_accumulators study_ifm \<and> (\<exists>info. inspected = Inr info
    \<and> io_len (hd (vi_ifms info)) = 64 \<and> io_len (hd (vi_ofms info)) = 32 \<and> length (vi_cms info) mod 4 = 0))
   \<and> (study_main ofm inspected = Inr h \<longrightarrow> (\<exists>info ws :: 32 word list. inspected = Inr info \<and> vi_cms info = enc_words (map uint ws)
     \<and> c_arrays h =
       [((''uint32_t'', ''conv1x1_cms'', Inr (int (length ws))), map (\<lambda>w. Inr (uint w)) ws),
        ((''uint8_t'', ''conv1x1_const'', Inr (int (max (length (vi_const info)) 1))),
           if vi_const info = [] then [Inr 0] else map (\<lambda>b. Inr (uint b)) (vi_const info)),
        ((''uint8_t'', ''conv1x1_ifm'', Inr 64), map (\<lambda>v. Inr (v mod 256)) study_ifm),
        ((''int8_t'', ''conv1x1_expected_ofm'', Inr 32), map Inr (study_accumulators study_ifm)),
        ((''int32_t'', ''conv1x1_expected_acc'', Inr 32), map Inr (study_accumulators study_ifm))]
     \<and> c_defines h =
       [(''CONV1X1_CMS_BYTES'', Inr (int (length (vi_cms info)))), (''CONV1X1_CONST_BYTES'', Inr (int (length (vi_const info)))),
        (''CONV1X1_ARENA_BYTES'', Inr (vi_arena_size info)), (''CONV1X1_FAST_BYTES'', Inr (vi_fast_size info)),
        (''CONV1X1_IFM_OFFSET'', Inr (io_off (hd (vi_ifms info)))), (''CONV1X1_IFM_BYTES'', Inr 64),
        (''CONV1X1_OFM_OFFSET'', Inr (io_off (hd (vi_ofms info)))), (''CONV1X1_OFM_BYTES'', Inr 32)]))
   \<and> study_accumulators study_ifm = accumulators (Conv (1, 4, 4, 4) 2 1) study_ifm WEIGHTS [0, 0]
   \<and> length (study_accumulators study_ifm) = 32 \<and> length study_ifm = 64
   \<and> take 4 (study_accumulators study_ifm) = [15, 3, 12, -1] \<and> abs_max (study_accumulators study_ifm) = 15
   \<and> (\<exists>ops. analyse_ops (study_model f32) (fm_operators (study_model f32)) = Inr ops \<and> ms_n_mac (macs_of (map or_n_mac ops)) = 128)"
    (is "(?written_l \<longleftrightarrow> ?written_r) \<and> (_ \<longrightarrow> ?read) \<and> _")
proof (intro conjI impI)
  show "?written_l \<longleftrightarrow> ?written_r"
  proof
    assume ?written_l
    then show ?written_r by (auto simp: study_main_def Let_def study_header_def study_numbers split: if_splits)
  next
    assume ?written_r
    then obtain info where "ofm = study_accumulators study_ifm" "inspected = Inr info" "io_len (hd (vi_ifms info)) = 64"
      "io_len (hd (vi_ofms info)) = 32" "length (vi_cms info) mod 4 = 0" by (elim conjE exE)
    then have "study_main ofm inspected = study_header info study_ifm ofm ofm"
      by (simp add: study_main_def Let_def study_numbers)
    with \<open>length (vi_cms info) mod 4 = 0\<close> show ?written_l by (simp add: study_header_def)
  qed
  assume "study_main ofm inspected = Inr h"
  then obtain info and ws :: "32 word list" where ofm: "ofm = study_accumulators study_ifm" and i: "inspected = Inr info"
    and l: "io_len (hd (vi_ifms info)) = 64" "io_len (hd (vi_ofms info)) = 32" and ws: "vi_cms info = enc_words (map uint ws)"
    and h: "h = joined nl (study_lines info (map uint ws) study_ifm ofm ofm)"
    unfolding study_main_iff by blast
  have n: "int (max (length study_ifm) 1) = 64" "(study_ifm = []) = False" using study_numbers(3) by auto
  show ?read
    by (rule exI [of _ info], rule exI [of _ ws], intro conjI i ws; unfold h ofm study_arrays study_defines l n if_False; rule refl)
next
  show "take 4 (study_accumulators study_ifm) = [15, 3, 12, -1]" by (simp add: study_accumulators_value)
qed (fact study_convolution study_numbers study_model_macs)+

definition study_vela :: vela_info where
  "study_vela = \<lparr>vi_cms = [0x43, 0x4F, 0x50, 0x31, 0, 1, 2, 3], vi_const = [7], vi_arena_size = 96, vi_fast_size = 0,
     vi_ifms = [\<lparr>io_name = ''ifm'', io_off = 0, io_len = 64\<rparr>], vi_ofms = [\<lparr>io_name = ''ofm'', io_off = 64, io_len = 32\<rparr>]\<rparr>"

lemma study_header_reads_back_witness:
  "\<exists>h cms const rest. study_main (study_accumulators study_ifm) (Inr study_vela) = Inr h
    \<and> c_arrays h = ((''uint32_t'', ''conv1x1_cms'', Inr 2), cms) # ((''uint8_t'', ''conv1x1_const'', Inr 1), [Inr 7]) # rest
    \<and> c_defines h ! 2 = (''CONV1X1_ARENA_BYTES'', Inr 96)"
proof -
  have "\<exists>h. study_main (study_accumulators study_ifm) (Inr study_vela) = Inr h"
    using study_header_reads_back by (force simp: study_vela_def)
  then obtain h where h: "study_main (study_accumulators study_ifm) (Inr study_vela) = Inr h" ..
  from study_header_reads_back [THEN conjunct2, THEN conjunct1, THEN mp, OF h]
  have "\<exists>info (ws :: 32 word list). Inr study_vela = (Inr info :: exn + vela_info) \<and> vi_cms info = enc_words (map uint ws)
      \<and> take 2 (c_arrays h) = [((''uint32_t'', ''conv1x1_cms'', Inr (int (length ws))), map (\<lambda>w. Inr (uint w)) ws),
        ((''uint8_t'', ''conv1x1_const'', Inr (int (max (length (vi_const info)) 1))),
           if vi_const info = [] then [Inr 0] else map (\<lambda>b. Inr (uint b)) (vi_const info))]
      \<and> c_defines h ! 2 = (''CONV1X1_ARENA_BYTES'', Inr (vi_arena_size info))"
    by (elim exE conjE, intro exI conjI) (assumption | simp only: take_Suc_Cons take0 numeral_2_eq_2 nth_Cons_Suc nth_Cons_0)+
  then obtain info and ws :: "32 word list" where i: "Inr study_vela = (Inr info :: exn + vela_info)"
    and ws: "vi_cms info = enc_words (map uint ws)"
    and a: "take 2 (c_arrays h) = [((''uint32_t'', ''conv1x1_cms'', Inr (int (length ws))), map (\<lambda>w. Inr (uint w)) ws),
        ((''uint8_t'', ''conv1x1_const'', Inr (int (max (length (vi_const info)) 1))),
           if vi_const info = [] then [Inr 0] else map (\<lambda>b. Inr (uint b)) (vi_const info))]"
    and d: "c_defines h ! 2 = (''CONV1X1_ARENA_BYTES'', Inr (vi_arena_size info))"
    by (elim exE conjE)
  have info: "vi_cms info = [0x43, 0x4F, 0x50, 0x31, 0, 1, 2, 3]" "vi_const info = [7]" "vi_arena_size info = 96"
    using i by (auto simp: study_vela_def)
  have "length (enc_words (map uint ws)) = 4 * length ws" for ws :: "32 word list" by (induction ws) simp_all
  from this [of ws] have "length ws = 2" by (simp flip: ws add: info)
  with a have "c_arrays h = ((''uint32_t'', ''conv1x1_cms'', Inr 2), map (\<lambda>w. Inr (uint w)) ws)
      # ((''uint8_t'', ''conv1x1_const'', Inr 1), [Inr 7]) # drop 2 (c_arrays h)"
    using append_take_drop_id [of 2 "c_arrays h"] by (simp add: info)
  moreover have "c_defines h ! 2 = (''CONV1X1_ARENA_BYTES'', Inr 96)" unfolding d info ..
  ultimately show ?thesis using h by blast
qed

end
