(* ===== verification/Board_Capture.thy ===== *)
theory Board_Capture
  imports Runner_Session Golden
begin

text \<open>
  \<open>board/mcc.py\<close>, \<open>board/mcc_reboot_capture.py\<close> and \<open>board/mlek_app_capture.py\<close>: a command to the board's controller, and
  the logs of a serial port over a reboot, from the port and the clock of a \<open>world\<close>. Opening the port, clearing its
  input buffer, the subprocess that reboots the board and the assertion that the port was opened before it was started
  (\<open>mlek_app_capture.py\<close>, line 11) are not modelled.
\<close>

section \<open>The controller\<close>

text \<open>\<open>bytes.decode("ascii", "replace")\<close>; the character 255 stands for U+FFFD.\<close>

definition ascii_text :: "bytes \<Rightarrow> string" where
  "ascii_text bs = map (\<lambda>b. if unat b < 128 then char_of (unat b) else CHR 0xFF) bs"

definition text_bytes :: "string \<Rightarrow> bytes" where
  "text_bytes s = map (\<lambda>c. of_nat (of_char c)) s"

text \<open>\<open>mcc.cmd\<close>; \<open>pause\<close> is \<open>time.sleep\<close>.\<close>

definition mcc_cmd :: "'w world \<Rightarrow> (rat \<Rightarrow> 'w \<Rightarrow> 'w) \<Rightarrow> string \<Rightarrow> rat \<Rightarrow> 'w \<Rightarrow> (exn + string) \<times> 'w" where
  "mcc_cmd W pause line wait w =
     (case w_write W (text_bytes line @ [0x0D]) w of
        (Inl e, w) \<Rightarrow> (Inl e, w)
      | (Inr _, w) \<Rightarrow> (case w_flush W w of
          (Inl e, w) \<Rightarrow> (Inl e, w)
        | (Inr _, w) \<Rightarrow> (case w_read W 200000 (pause wait w) of
            (Inl e, w) \<Rightarrow> (Inl e, w)
          | (Inr bs, w) \<Rightarrow> (Inr (ascii_text bs), w))))"

section \<open>Logs\<close>

text \<open>\<open>mcc_reboot_capture\<close>: everything the port gives for \<open>secs\<close> seconds.\<close>

partial_function (option) log_loop :: "'w world \<Rightarrow> rat \<Rightarrow> rat \<Rightarrow> bytes \<Rightarrow> 'w \<Rightarrow> ((exn + bytes) \<times> 'w) option" where
  "log_loop W t0 secs buf w =
     (case w_time W w of (t, w) \<Rightarrow>
        if \<not> t - t0 < secs then Some (Inr buf, w)
        else (case w_read W 4096 w of
            (Inl e, w) \<Rightarrow> Some (Inl e, w)
          | (Inr c, w) \<Rightarrow> log_loop W t0 secs (buf @ c) w))"

definition reboot_capture :: "'w world \<Rightarrow> rat \<Rightarrow> 'w \<Rightarrow> ((exn + bytes) \<times> 'w) option" where
  "reboot_capture W secs w =
     (case w_write W (text_bytes ''REBOOT'' @ [0x0D]) w of
        (Inl e, w) \<Rightarrow> Some (Inl e, w)
      | (Inr _, w) \<Rightarrow> (case w_flush W w of
          (Inl e, w) \<Rightarrow> Some (Inl e, w)
        | (Inr _, w) \<Rightarrow> (case w_time W w of (t, w) \<Rightarrow> log_loop W t secs [] w)))"

definition MARK :: bytes where "MARK = text_bytes ''output tensors post inference''"
definition QUIET :: rat where "QUIET = 15"

definition seen :: "bytes \<Rightarrow> bool" where
  "seen buf \<longleftrightarrow> find_sub MARK buf \<noteq> None"

text \<open>\<open>mlek_app_capture\<close>: until the mark has come and nothing more for \<open>QUIET\<close> seconds, or \<open>secs\<close> have passed.\<close>

partial_function (option) app_loop :: "'w world \<Rightarrow> rat \<Rightarrow> rat \<Rightarrow> bytes \<Rightarrow> rat \<Rightarrow> 'w \<Rightarrow> ((exn + bytes) \<times> 'w) option" where
  "app_loop W t0 secs buf fed w =
     (case w_time W w of (t, w) \<Rightarrow>
        if \<not> t - t0 < secs then Some (Inr buf, w)
        else (case w_read W 65536 w of
            (Inl e, w) \<Rightarrow> Some (Inl e, w)
          | (Inr c, w) \<Rightarrow>
              if c \<noteq> [] then (case w_time W w of (t, w) \<Rightarrow> app_loop W t0 secs (buf @ c) t w)
              else if seen buf
              then (case w_time W w of (t, w) \<Rightarrow> if QUIET < t - fed then Some (Inr buf, w) else app_loop W t0 secs buf fed w)
              else app_loop W t0 secs buf fed w))"

definition app_capture :: "'w world \<Rightarrow> rat \<Rightarrow> 'w \<Rightarrow> ((exn + bytes \<times> int) \<times> 'w) option" where
  "app_capture W secs w =
     (case w_time W w of (t, w) \<Rightarrow>
        (case app_loop W t secs [] t w of
           None \<Rightarrow> None
         | Some (Inl e, w) \<Rightarrow> Some (Inl e, w)
         | Some (Inr buf, w) \<Rightarrow> Some (Inr (buf, if seen buf then 0 else 1), w)))"

text \<open>How \<open>ofm_compare.py\<close> and \<open>mlek_golden.py\<close> read the log.\<close>

definition board_text :: "bytes \<Rightarrow> string" where
  "board_text raw = filter (\<lambda>c. c \<noteq> CHR 0x0D) (ascii_text raw)"

text \<open>\<open>ofm_compare.py dump\<close>\<close>

definition dump_main :: "bytes \<Rightarrow> exn + bytes \<times> bytes" where
  "dump_main raw =
     bind_res (dump_section (board_text raw) IFM_MARK) (\<lambda>ifm.
     bind_res (dump_section (board_text raw) OFM_MARK) (\<lambda>ofm. Inr (ifm, ofm)))"

text \<open>\<open>ofm_compare.py cmp\<close>, with the labels of the two files when they are given.\<close>

definition cmp_main :: "bytes \<Rightarrow> bytes \<Rightarrow> (string \<times> string) option \<Rightarrow> exn + (string \<times> string) option \<times> ofm_diff" where
  "cmp_main a b labels = bind_res (compare_ofm a b) (\<lambda>r. Inr (labels, r))"

section \<open>The loops return\<close>

context uart begin

lemma log_loop_returns: "t0 + secs - now w \<le> of_nat k * tick \<Longrightarrow> \<exists>r w'. log_loop W t0 secs buf w = Some (r, w')"
proof (induction k arbitrary: buf w)
  case 0
  then have "\<not> fst (w_time W w) - t0 < secs" using time_now(1) [of w] by simp
  then show ?case by (subst log_loop.simps) (simp add: case_prod_beta)
next
  case (Suc k)
  let ?w = "snd (w_time W w)" and ?v = "snd (w_read W 4096 (snd (w_time W w)))"
  have "t0 + secs - now ?v \<le> of_nat k * tick"
    using Suc.prems read_costs [of ?w 4096] time_mono [of w] by (simp add: algebra_simps)
  note IH = Suc.IH [OF this]
  show ?case
    by (subst log_loop.simps) (use IH in \<open>auto simp: case_prod_beta split: sum.split\<close>)
qed

lemma app_loop_returns: "t0 + secs - now w \<le> of_nat k * tick \<Longrightarrow> \<exists>r w'. app_loop W t0 secs buf fed w = Some (r, w')"
proof (induction k arbitrary: buf fed w)
  case 0
  then have "\<not> fst (w_time W w) - t0 < secs" using time_now(1) [of w] by simp
  then show ?case by (subst app_loop.simps) (simp add: case_prod_beta)
next
  case (Suc k)
  let ?w = "snd (w_time W w)" and ?v = "snd (w_read W 65536 (snd (w_time W w)))"
  have v: "t0 + secs - now ?v \<le> of_nat k * tick"
    using Suc.prems read_costs [of ?w 65536] time_mono [of w] by (simp add: algebra_simps)
  then have "t0 + secs - now (snd (w_time W ?v)) \<le> of_nat k * tick" using time_mono [of ?v] by simp
  note IH = Suc.IH [OF v] Suc.IH [OF this]
  show ?case
    by (subst app_loop.simps) (use IH in \<open>auto simp: case_prod_beta split: sum.split\<close>)
qed

end

section \<open>A marked log is readable\<close>

lemma ascii_text_MARK: "ascii_text MARK = OFM_MARK"
  by code_simp

lemma seen_split: "seen buf \<Longrightarrow> \<exists>a b. buf = a @ MARK @ b"
  unfolding seen_def by (auto dest!: find_sub_Some simp: prefix_def) (metis append_take_drop_id)

lemma find_sub_occurs: "find_sub p (a @ p @ b) \<noteq> None"
  using find_sub_None [of p "a @ p @ b" "length a"] by auto

lemma marked_log_readable: "seen raw \<Longrightarrow> \<exists>ofm. dump_section (board_text raw) OFM_MARK = Inr ofm"
proof -
  assume "seen raw"
  then obtain a b where "raw = a @ MARK @ b" using seen_split by blast
  then have "board_text raw = filter (\<lambda>c. c \<noteq> CHR 0x0D) (ascii_text a) @ filter (\<lambda>c. c \<noteq> CHR 0x0D) (ascii_text MARK)
      @ filter (\<lambda>c. c \<noteq> CHR 0x0D) (ascii_text b)"
    by (simp add: board_text_def ascii_text_def)
  moreover have "filter (\<lambda>c. c \<noteq> CHR 0x0D) OFM_MARK = OFM_MARK" by (simp add: OFM_MARK_def)
  ultimately have "find_sub OFM_MARK (board_text raw) \<noteq> None" by (simp add: ascii_text_MARK find_sub_occurs)
  then show ?thesis by (auto simp: dump_section_def)
qed

lemma dump_readable: "seen raw \<Longrightarrow> occurs_in IFM_MARK (board_text raw) = (\<exists>dumps. dump_main raw = Inr dumps)"
  using marked_log_readable [of raw]
  by (auto simp: dump_main_def dump_section_def [of _ IFM_MARK] occurs_in_def split: option.splits)

section \<open>Property\<close>

text \<open>C37. On a port whose reads take time both captures return. The capture of the application exits 0 exactly when the log it
  wrote has the mark of the output dump, and then reading the dumps back fails only for want of the input's mark.\<close>

theorem capture_readable:
  assumes "uart W now tick"
  shows "(\<exists>r w'. reboot_capture W secs w = Some (r, w'))
    \<and> (\<exists>r w'. app_capture W secs w = Some (r, w')
         \<and> (case r of Inl e \<Rightarrow> True
            | Inr (raw, code) \<Rightarrow> (code = 0) = seen raw \<and> (if code = 0 then occurs_in IFM_MARK (board_text raw) = (\<exists>dumps. dump_main raw = Inr dumps) else code = 1)))"
proof
  note enough = uart.steps_enough [OF assms]
  show "\<exists>r w'. reboot_capture W secs w = Some (r, w')"
  proof -
    have "\<exists>r w'. log_loop W t0 secs buf v = Some (r, w')" for t0 secs buf v
      using enough uart.log_loop_returns [OF assms] by meson
    then show ?thesis by (simp add: reboot_capture_def case_prod_beta split: sum.split)
  qed
  have "\<exists>r w'. app_loop W t0 secs buf fed v = Some (r, w')" for t0 secs buf fed v
    using enough uart.app_loop_returns [OF assms] by meson
  then obtain r w' where r: "app_loop W (fst (w_time W w)) secs [] (fst (w_time W w)) (snd (w_time W w)) = Some (r, w')" by blast
  then show "\<exists>r w'. app_capture W secs w = Some (r, w')
         \<and> (case r of Inl e \<Rightarrow> True
            | Inr (raw, code) \<Rightarrow> (code = 0) = seen raw \<and> (if code = 0 then occurs_in IFM_MARK (board_text raw) = (\<exists>dumps. dump_main raw = Inr dumps) else code = 1))"
    using dump_readable by (cases r) (auto simp: app_capture_def case_prod_beta)
qed

theorem capture_readable_witness:
  "(\<exists>r w'. reboot_capture fake_world 90 (ln_ser (idle_link [78])) = Some (r, w'))
   \<and> (\<exists>r w'. app_capture fake_world 1200 (ln_ser (idle_link MARK)) = Some (r, w'))"
  using capture_readable [OF fakes.uart_axioms, of 90 "ln_ser (idle_link [78])"]
    capture_readable [OF fakes.uart_axioms, of 1200 "ln_ser (idle_link MARK)"] by blast

end
