(* ===== verification/Cms_Listing.thy ===== *)
theory Cms_Listing
  imports Pmu_Regs Sha256
begin

text \<open>
  \<open>evidence/stage2a/audit/cms_ops.py\<close>: the names of the NPU's commands, read from the driver header, and the listing of
  the command streams of blobs. The text of the header and the bytes of the blobs are arguments.
\<close>

section \<open>The names of the opcodes\<close>

text \<open>\<open>^\s+CMD([01])_OPCODE_(NPU_[A-Z0-9_]+) = (\d+),\<close> at the start of a line.\<close>

definition opcode_at :: "string \<Rightarrow> (((int \<times> int) \<times> string) \<times> string) option" where
  "opcode_at s =
     Option.bind (Option.bind (blanks1 s) (after ''CMD'')) (\<lambda>r.
     Option.bind (case r of [] \<Rightarrow> None | k # r \<Rightarrow> if k \<in> {CHR ''0'', CHR ''1''} then Some (digit_value k, r) else None) (\<lambda>(kind, r).
     Option.bind (Option.bind (after ''_OPCODE_'' r) (after ''NPU_'')) (\<lambda>r.
     Option.bind (run1 (\<lambda>c. among CHR ''A'' CHR ''Z'' c \<or> is_digit c \<or> c = CHR ''_'') r) (\<lambda>(name, r).
     Option.bind (after '' = '' r) (\<lambda>r.
     Option.bind (run1 is_digit r) (\<lambda>(v, r).
     Option.bind (after '','' r) (\<lambda>r.
       Some (((kind, numeral_value 10 v), ''NPU_'' @ name), r))))))))"

text \<open>\<open>re.findall\<close> of a pattern that begins with \<open>^\<close>, under \<open>re.M\<close>: \<open>start\<close> tells a position at the start of a line. A match
  ends with a comma.\<close>

function opcodes :: "bool \<Rightarrow> string \<Rightarrow> ((int \<times> int) \<times> string) list" where
  "opcodes start [] = []"
| "opcodes start (c # cs) =
     (case (if start then opcode_at (c # cs) else None) of
        None \<Rightarrow> opcodes (c = CHR 0x0A) cs
      | Some (v, rest) \<Rightarrow> v # opcodes False (drop (length cs - length rest) cs))"
  by pat_completeness auto
termination by (relation "measure (\<lambda>(_, s). length s)") auto

text \<open>\<open>names\<close>: a later line of the same kind and number wins.\<close>

definition opcode_names :: "string \<Rightarrow> int \<times> int \<Rightarrow> string option" where
  "opcode_names hdr = map_of (fold (\<lambda>(k, n) d. dict_put k n d) (opcodes True hdr) [])"

section \<open>Listing a command stream\<close>

definition op_text :: "(int \<times> int \<Rightarrow> string option) \<Rightarrow> int \<Rightarrow> string list" where
  "op_text names w =
     (let op = w AND 0x3FF; ctrl = drop_bit 14 w AND 3; param = drop_bit 16 w;
          n = (case names (ctrl, op) of Some s \<Rightarrow> s | None \<Rightarrow> ''?'' @ decimal ctrl @ '':'' @ decimal op)
      in if prefix ''NPU_OP_'' n \<or> n = ''NPU_SET_BLOCKDEP''
         then [if n \<in> {''NPU_SET_BLOCKDEP'', ''NPU_OP_KERNEL_WAIT'', ''NPU_OP_DMA_WAIT''}
               then n @ ''('' @ decimal param @ '')'' else n]
         else [])"

function list_ops :: "(int \<times> int \<Rightarrow> string option) \<Rightarrow> bytes \<Rightarrow> nat \<Rightarrow> exn + string list" where
  "list_ops names cms i =
     (if \<not> i < length cms then Inr []
      else bind_res (struct_unpack_from [FI] cms i) (\<lambda>ws.
        let w = ws ! 0 in
        bind_res (list_ops names cms (i + (if drop_bit 14 w AND 3 = 1 then 8 else 4))) (\<lambda>ops.
          Inr (op_text names w @ ops))))"
  by pat_completeness auto
termination by (relation "measure (\<lambda>(_, cms, i). length cms - i)") (auto split: if_splits)

declare list_ops.simps [simp del]

definition blob_ops :: "(int \<times> int \<Rightarrow> string option) \<Rightarrow> bytes \<Rightarrow> exn + bytes \<times> int \<times> string list" where
  "blob_ops names b =
     bind_res (struct_unpack_from [FI, FI] b 8) (\<lambda>h.
       let cms = py_slice (nat (h ! 0)) (nat (h ! 0) + nat (h ! 1)) b in
       bind_res (list_ops names cms 0) (\<lambda>ops. Inr (cms, h ! 1, ops)))"

text \<open>One line of output per blob: the file's name, the first digits of the digest, the declared length and the commands.\<close>

definition cms_line :: "string \<Rightarrow> string \<times> bytes \<Rightarrow> exn + string \<times> string \<times> int \<times> string list" where
  "cms_line hdr pb =
     bind_res (blob_ops (opcode_names hdr) (snd pb)) (\<lambda>(cms, ln, ops).
       Inr (last (split_char CHR ''/'' (fst pb)), take 8 (sha256 cms), ln, ops))"

lemma opcode_names_sample:
  "opcodes True (''enum {'' @ [CHR 0x0A] @ ''  CMD0_OPCODE_NPU_OP_CONV = 2,'' @ [CHR 0x0A, CHR 0x0A] @ '' CMD1_OPCODE_NPU_SET_X = 17,''
      @ [CHR 0x0A] @ ''CMD0_OPCODE_NPU_OP_POOL = 5,'' @ [CHR 0x0A] @ ''x CMD0_OPCODE_NPU_OP_DMA = 6,'')
    = [((0, 2), ''NPU_OP_CONV''), ((1, 17), ''NPU_SET_X'')]"
  by code_simp

section \<open>A stream of commands is listed in order\<close>

text \<open>A command: kind, number and parameter, and for kind 1 a second word.\<close>

datatype npu_command = Npu (kind: int) (number: int) (param: int) (operand: int)

definition command_ok :: "npu_command \<Rightarrow> bool" where
  "command_ok c \<longleftrightarrow> 0 \<le> kind c \<and> kind c < 4 \<and> 0 \<le> number c \<and> number c < 2 ^ 10 \<and> 0 \<le> param c \<and> param c < 2 ^ 16
     \<and> 0 \<le> operand c \<and> operand c < 2 ^ 32"

definition command_word :: "npu_command \<Rightarrow> int" where
  "command_word c = number c + kind c * 2 ^ 14 + param c * 2 ^ 16"

definition command_bytes :: "npu_command \<Rightarrow> bytes" where
  "command_bytes c = enc_words (command_word c # (if kind c = 1 then [operand c] else []))"

definition command_name :: "(int \<times> int \<Rightarrow> string option) \<Rightarrow> npu_command \<Rightarrow> string" where
  "command_name names c = (case names (kind c, number c) of Some s \<Rightarrow> s | None \<Rightarrow> ''?'' @ decimal (kind c) @ '':'' @ decimal (number c))"

definition command_text :: "(int \<times> int \<Rightarrow> string option) \<Rightarrow> npu_command \<Rightarrow> string list" where
  "command_text names c = (let n = command_name names c in
     if prefix ''NPU_OP_'' n \<or> n = ''NPU_SET_BLOCKDEP''
     then [if n \<in> {''NPU_SET_BLOCKDEP'', ''NPU_OP_KERNEL_WAIT'', ''NPU_OP_DMA_WAIT''} then n @ ''('' @ decimal (param c) @ '')'' else n]
     else [])"

lemma command_fields:
  assumes "command_ok c"
  shows "command_word c AND 0x3FF = number c" "drop_bit 14 (command_word c) AND 3 = kind c" "drop_bit 16 (command_word c) = param c"
    "fmt_ok FI (command_word c)"
proof -
  have m: "x AND 0x3FF = x mod 1024" "x AND 3 = x mod 4" for x :: int
    using take_bit_eq_mask [of 10 x] take_bit_eq_mask [of 2 x] by (simp_all add: take_bit_eq_mod mask_eq_exp_minus_1)
  note r = assms [unfolded command_ok_def]
  have w: "command_word c = number c + 1024 * (16 * kind c + 64 * param c)"
    "command_word c = number c + 16384 * (kind c + 4 * param c)" "command_word c = (number c + 16384 * kind c) + 65536 * param c"
    by (simp_all add: command_word_def)
  show "command_word c AND 0x3FF = number c"
    unfolding m w(1) mod_mult_self2 using r by (simp add: zmod_trivial_iff)
  have d: "(a + b * x) div b = x" if "0 \<le> a" "a < b" for a b x :: int
    using that by (simp add: div_pos_pos_trivial)
  have "drop_bit 14 (command_word c) = command_word c div 16384" "drop_bit 16 (command_word c) = command_word c div 65536"
    by (simp_all add: drop_bit_eq_div)
  moreover have "command_word c div 16384 = kind c + 4 * param c" unfolding w(2) using r by (intro d) simp_all
  moreover have "command_word c div 65536 = param c" unfolding w(3) using r by (intro d) simp_all
  ultimately show "drop_bit 14 (command_word c) AND 3 = kind c" "drop_bit 16 (command_word c) = param c"
    unfolding m using r by (simp_all add: zmod_trivial_iff)
  show "fmt_ok FI (command_word c)" using r by (simp add: w(3))
qed

text \<open>The listing of the bytes of any commands has the text of each of them, in their order.\<close>

lemma list_ops_commands:
  "list_all command_ok cs \<Longrightarrow>
    list_ops names (pre @ concat (map command_bytes cs)) (length pre) = Inr (concat (map (command_text names) cs))"
proof (induction cs arbitrary: pre)
  case Nil
  then show ?case by (simp add: list_ops.simps)
next
  case (Cons c cs)
  then have ok: "command_ok c" by simp
  note f = command_fields [OF ok]
  let ?b = "pre @ concat (map command_bytes (c # cs))"
  have w: "struct_unpack_from [FI] ?b (length pre) = Inr [command_word c]"
    using f(4) dec_enc_words [of "[command_word c]" 1]
    by (simp add: struct_unpack_from_def command_bytes_def del: fmt_ok.simps)
  have n: "length (pre @ command_bytes c) = length pre + (if drop_bit 14 (command_word c) AND 3 = 1 then 8 else 4)"
    by (simp add: command_bytes_def f(2))
  have t: "op_text names (command_word c) = command_text names c"
    by (simp only: op_text_def Let_def f command_text_def command_name_def)
  have "list_ops names ?b (length (pre @ command_bytes c)) = Inr (concat (map (command_text names) cs))"
    using Cons.IH [of "pre @ command_bytes c"] Cons.prems by simp
  moreover have "length pre < length ?b" by (simp add: command_bytes_def)
  ultimately show ?case
    unfolding list_ops.simps [of names ?b "length pre"] w by (simp only: if_True not_not bind_res_simps nth_Cons_0 n t Let_def) simp
qed

end
