(* ===== verification/Spec2Isabelle.thy ===== *)
theory Spec2Isabelle
  imports Boot_Session Symbol_Gate Stage_Output Vendor_Patch Pmu_Regs Conv_Study Board_Capture Cms_Listing
begin

text \<open>
  Verification of the Python of the MPS4 FI101 repository, which measures the PMU counters of an Arm Ethos-U85 with a
  runner on the board. File names are relative to the repository.

  The parts and how they meet. A container packs a compiled model into a PMWL blob; the firmware gates judge the linked
  runner image; the board driver loads the blob over a serial line, runs it once per event set and repeat, and writes one
  row per event; the analyses read the rows back, gate them and compare. In the development:

    packer (Workload_Pack, Vela_Payload, Pmwl_Blob)  \<rightarrow>  driver (Campaign, Boot_Run over Runner_Link)
      \<rightarrow>  runs.csv (Results)  \<rightarrow>  gate (Baseline_Gate)  \<rightarrow>  stage 1 and stage 2a (Stage_Analysis, Stage_Output)

  with the link over the frames (Runner_Frame) and the measurement record (Measurement), and beside this chain the board
  log (Golden, Board_Capture), the generators of models (Op_Model, Conv_Study) and of C headers (Pmu_Regs, Vendor_Patch),
  and the gates over the image (Symbol_Gate, Image_Gate). \<open>Boot_Run\<close> follows a workload through the whole
  chain.
\<close>

section \<open>Theories and sources\<close>

text \<open>
  Shared by all:
  \<^item> \<open>Py_Base\<close>: exceptions as values \<open>exn + 'a\<close>, slices and indices, the \<open>struct\<close> module. \<open>Py_Text\<close>: character
    classes, \<open>split\<close>, \<open>splitlines\<close>, numerals, sorted sets, insertion-ordered dictionaries as association lists.
  \<^item> \<open>Crc32\<close> (\<open>zlib.crc32\<close>), \<open>Sha256\<close> (\<open>hashlib.sha256\<close>), on machine words.
  \<^item> \<open>Stream_Interface\<close>: a parser over a buffer that grows by chunks.

  The line, \<open>host/lib/runner_proto.py\<close>:
  \<^item> \<open>Runner_Frame\<close>: \<open>build_frame\<close>, \<open>_harvest_text\<close>, \<open>_try_parse\<close>. The attributes \<open>_buf\<close>, \<open>text_log\<close> and
    \<open>resync_count\<close> are the record \<open>rx\<close>, which the record \<open>link\<close> extends with the serial port, the sequence number,
    the protocol, \<open>late_frames\<close> and \<open>last_measurement\<close>.
  \<^item> \<open>Measurement\<close>: \<open>decode_pmu_block\<close>, \<open>measurement_payload_crc\<close>, \<open>parse_measurement_payload\<close>.
  \<^item> \<open>Runner_Link\<close>: \<open>read_frame\<close>, \<open>request\<close>, \<open>run\<close> and every command, as state transformers that may raise and may
    fail to return. \<open>Runner_Exchange\<close>, \<open>Port_Delivery\<close> and \<open>Runner_Session\<close> prove what they guarantee. \<open>Runner_Session\<close>
    has two scripted ports for the concrete inputs: \<open>fake_world\<close>, which reads 1024 bytes at a time and takes a fifth of a
    second for it, and \<open>timed_world\<close>, which reads pieces of any size with waits of their own.

  The driver, \<open>host/board/run_pmu_events.py\<close>:
  \<^item> \<open>Pmu_Events\<close> (\<open>host/lib/pmu_events_parse.py\<close>): event sets, run validity, verdicts, consistency, coverage.
  \<^item> \<open>Campaign\<close>: \<open>prime\<close>, the loops over sets and repeats, refusals, the summary. The state \<open>camp\<close> is the link, the
    rows and the raw entries.
  \<^item> \<open>Boot_Run\<close>: \<open>main\<close> around the campaign, \<open>main\<close> of \<open>baseline_gate.py\<close>, \<open>host/lib/reference.py\<close>.
    \<open>Boot_Session\<close>: the boot over the \<open>RunnerLink\<close> ends.

  The container, \<open>host/container/\<close> and \<open>host/lib/pmwl.py\<close>:
  \<^item> \<open>Pmwl_Blob\<close>: \<open>knobs\<close>, \<open>pack\<close>, \<open>parse_header\<close>. \<open>Workload_Pack\<close> and \<open>Vela_Payload\<close>:
    \<open>pack_vela_workload.py\<close> and the counting of \<open>workload_meta.py\<close>. \<open>Cms_Listing\<close>:
    \<open>evidence/stage2a/audit/cms_ops.py\<close>.
  \<^item> \<open>Op_Model\<close>: \<open>make_op_model.py\<close> and \<open>workload_meta.py\<close> reading its models. \<open>Conv_Study\<close>:
    \<open>make_conv1x1_study.py\<close>.

  The analyses, \<open>host/analysis/\<close> and \<open>host/lib/\<close>:
  \<^item> \<open>Results\<close> (\<open>results.py\<close>), \<open>Baseline_Gate\<close> (\<open>mlek_profile.py\<close>, \<open>baseline_gate.py\<close>), \<open>Golden\<close>
    (\<open>ofm_compare.py\<close>, \<open>mlek_golden.py\<close>), \<open>Stage_Analysis\<close> and \<open>Stage_Output\<close> (\<open>stage1.py\<close>, \<open>stage2a.py\<close>).

  The firmware's own checks and generators, \<open>firmware/\<close>:
  \<^item> \<open>Call_Graph\<close>, \<open>Symbol_Scan\<close>, \<open>Symbol_Gate\<close>: \<open>gate/check_measure_symbols.py\<close>. \<open>Image_Gate\<close>:
    \<open>gate/check_runner.py\<close>. \<open>Pmu_Regs\<close>: \<open>common/gen_npu_pmu_regs.py\<close>. \<open>Vendor_Patch\<close>:
    \<open>vendor/patch_u85_vendor_timeout.py\<close>.

  The board host, \<open>board/\<close>:
  \<^item> \<open>Board_Capture\<close>: \<open>mcc.py\<close>, \<open>mcc_reboot_capture.py\<close>, \<open>mlek_app_capture.py\<close>.
\<close>

section \<open>Interfaces\<close>

text \<open>
  \<^item> \<open>field_codec\<close> (\<open>Py_Base\<close>): one field of a \<open>struct\<close> format; interpreted for each format in use. Frames, blobs
    and measurement records rest on it.
  \<^item> \<open>checksum\<close> (\<open>Crc32\<close>): a change of one byte changes the value; interpreted for \<open>crc32\<close>.
  \<^item> \<open>stream_parser\<close> (\<open>Stream_Interface\<close>): results do not depend on the cutting of the stream; interpreted for the
    receive path.
  \<^item> \<open>uart\<close> (\<open>Runner_Exchange\<close>): a read takes time. It is the documented behaviour of a port that is opened with a
    timeout, and is interpreted on a scripted port; termination of the exchanges and of the captures is
    proved from it.
  \<^item> \<open>delivery\<close> (\<open>Port_Delivery\<close>) extends \<open>uart\<close>: the bytes still to come are handed over in reads of any size, with any
    waits, by a time \<open>due\<close>, and what is written is sent; interpreted for both scripted ports. That an exchange gets its
    answer is proved for every port of this contract.
  \<^item> \<open>quiet_uart\<close> (\<open>Boot_Session\<close>) extends \<open>uart\<close>: after a write finitely many bytes come. A request ends on such a port,
    which makes its link a \<open>ending_ops\<close>, operations that return, for which the campaign and the boot end.
  \<^item> \<open>closure_search\<close> (\<open>Call_Graph\<close>): exactly the names that are reached; interpreted for \<open>reachable\<close>.
  \<^item> \<open>run_gate\<close> (\<open>Baseline_Gate\<close>): when a per-RUN check is empty; interpreted for the checks of stage 0 and of stage 1.
  \<^item> \<open>anchor\<close> (\<open>Vendor_Patch\<close>): a matcher finds the anchors of a change; interpreted for the four changes.
  \<^item> \<open>number_text\<close> (\<open>Conv_Study\<close>): text that reads back as a number; interpreted for bytes, words and decimals.
\<close>

section \<open>What is shown\<close>

text \<open>
  \<^item> Frames and records: round trip behind foreign bytes, refinement of a byte-wise scanner, independence of the chunking,
    authenticity, detection of every changed byte; a measurement is accepted exactly when it is sealed.
  \<^item> Exchanges: termination of a measured run on a port whose reads take time, of a whole boot on one that falls silent
    after each write, refinement of an ordering automaton, who decides a request,
    and success on every line that delivers in time. The branch \<open>duplicate RUN_COMPLETE\<close> of \<open>run\<close> (runner_proto.py:476) is in the model
    and cannot be taken: the loop is left with the first RUN_COMPLETE.
  \<^item> Blob, packer, payload, dumps, CSV rows, C headers: what is written reads back.
  \<^item> Campaign: rows follow the plan however it ends; a complete one has a summary for every event; refusals.
  \<^item> Gates: an exit code of 0 as a condition on call paths, texts and rows that does not mention the scanners.
  \<^item> Analyses: interpretation only behind the gates, what evidence from a counter means for the counts, which files
    a stage leaves when one cannot be written.
  \<^item> Models: accumulators against the direct formula, descriptions against the model itself.

  Other lemmas stand beside their definitions. A text that begins with a number C\<open>n\<close>
  precedes each property; a property with a hypothesis is followed by a witness, the property applied at a concrete input.
\<close>

section \<open>Bounds and termination\<close>

text \<open>
  No definition has fuel. A loop over data has a measure: the rest of the buffer, the names not yet seen, the words left.
  A loop that waits for the outside is a \<open>partial_function (option)\<close>, and returning is proved under \<open>uart\<close>, of a request under \<open>quiet_uart\<close>: a read asks
  for 1024 bytes, a wait of \<open>run\<close> is at most 5 s and at least 0.5 s (a run that has to wait longer for a frame ends, whatever its timeout), the capture of the application stops 15 s
  (\<open>QUIET\<close>) after the last byte. Sequence numbers wrap at \<open>2 ^ 32\<close>; a payload has at most \<open>MAX_PAYLOAD\<close> bytes, a
  measurement 47 to 1016 body words; a \<open>struct\<close> field refuses what does not fit it. Python's integers are \<open>int\<close>;
  accumulators of a generated model stay below \<open>2 ^ 31\<close> (lemma \<open>Op_Model.accumulators_small\<close>), so that the int32 and
  int64 arrays of numpy agree with it.
\<close>

section \<open>Arguments of the model\<close>

text \<open>
  \<^item> The serial port and the clock (record \<open>world\<close>), and \<open>time.sleep\<close>.
  \<^item> The texts of objdump, nm and the map file, the ELF bytes, the sources and the vendor's files.
  \<^item> What the tflite package, tflite_runtime, numpy's generators, the flatbuffers builder and Vela return. Of \<open>finish\<close> and
    \<open>load\<close> a property assumes that the reader gives back the parts that were written, of \<open>f32\<close> and \<open>fl\<close> the relative error of
    IEEE arithmetic in the normal range (\<open>Op_Model.rounds\<close>), of the draws the number and the range of the items.
  \<^item> The ids of driver events, event names and board values, which are data files.
  \<^item> \<open>fl\<close>, the rounding of an exact result to a double: monotone, where a property needs that. Tolerances are compared
    exactly. \<open>f32\<close>, the float32 of a number. \<open>rt\<close>, the square root of an exact variance as a double.
\<close>

section \<open>Not modelled\<close>

text \<open>
  Parsing of arguments, printing, reading and writing of files and of JSON, the exit of a subprocess, opening a serial port
  and rebooting the board, the digest of the profile file, and columns that only copy
  provenance. Text is ASCII, except that a byte above 127 of a board log is some
  character above 127. The C firmware and the shell scripts are outside this development.
\<close>

end
